(* ===== verification/Prelude.thy ===== *)
theory Prelude
  imports Complex_Main "HOL-Library.AList" "HOL-Library.Multiset"
    "HOL-Library.Char_ord" "HOL-Library.List_Lexorder"
begin

text \<open>
  Shared vocabulary of the development: Python dictionaries as insertion-ordered
  association lists, the exceptions the modelled code can raise, the few pieces of Python
  number formatting and conversion the sources use, and the generic list, sum and
  dictionary lemmas the component theories rest on.

  Python floats are modelled as \<^typ>\<open>real\<close>: every arithmetic step is exact, so rounding,
  overflow to infinity and NaN are outside the model. Python ints are \<^typ>\<open>int\<close>, or
  \<^typ>\<open>nat\<close> where the code only counts upwards from zero.
\<close>

named_theorems dict_simps \<open>lookup and key laws of dictionaries\<close>
named_theorems stat_defs \<open>definitions of the statistics layer unfolded by its proofs\<close>

section \<open>Exceptions\<close>

datatype py_error =
    KeyError
  | IndexError
  | ValueError
  | TypeError
  | ZeroDivisionError
  | QueueFull
  | QueueEmpty
  | DatabaseError
  | ValidationError
  | RuntimeError
  | AssertionError
  | AttributeError
  | StructError
  | FileNotFoundError
  | HTTPException int

type_synonym 'a result = "py_error + 'a"

fun bind_result :: "'a result \<Rightarrow> ('a \<Rightarrow> 'b result) \<Rightarrow> 'b result" where
  "bind_result (Inl e) f = Inl e"
| "bind_result (Inr x) f = f x"

definition py_index :: "'a list \<Rightarrow> nat \<Rightarrow> 'a result" where
  "py_index xs i = (if i < length xs then Inr (xs ! i) else Inl IndexError)"

lemma bind_result_Inr: "bind_result r f = Inr y \<longleftrightarrow> (\<exists>x. r = Inr x \<and> f x = Inr y)"
  by (cases r) auto

fun map_result :: "('a \<Rightarrow> 'b result) \<Rightarrow> 'a list \<Rightarrow> 'b list result" where
  "map_result f [] = Inr []"
| "map_result f (x # xs) = bind_result (f x) (\<lambda>y. bind_result (map_result f xs) (\<lambda>ys. Inr (y # ys)))"

lemma map_result_Inr: "(\<And>x. x \<in> set xs \<Longrightarrow> f x = Inr (g x)) \<Longrightarrow> map_result f xs = Inr (map g xs)"
  by (induction xs) simp_all

section \<open>Dictionaries\<close>

text \<open>
  A Python dict iterates in insertion order and re-assigning a present key keeps its
  position: \<^const>\<open>AList.update\<close> does exactly that. Deleting drops the entry, and
  \<^verbatim>\<open>OrderedDict.move_to_end\<close> re-appends it.
\<close>

type_synonym ('k, 'v) dict = "('k \<times> 'v) list"

definition dict_wf :: "('k, 'v) dict \<Rightarrow> bool" where
  "dict_wf d \<longleftrightarrow> distinct (map fst d)"

definition dict_has :: "('k, 'v) dict \<Rightarrow> 'k \<Rightarrow> bool" where
  "dict_has d k \<longleftrightarrow> k \<in> fst ` set d"

definition dict_get :: "('k, 'v) dict \<Rightarrow> 'k \<Rightarrow> 'v \<Rightarrow> 'v" where
  "dict_get d k v = (case map_of d k of None \<Rightarrow> v | Some w \<Rightarrow> w)"

definition dict_set :: "'k \<Rightarrow> 'v \<Rightarrow> ('k, 'v) dict \<Rightarrow> ('k, 'v) dict" where
  "dict_set k v d = AList.update k v d"

definition dict_del :: "'k \<Rightarrow> ('k, 'v) dict \<Rightarrow> ('k, 'v) dict" where
  "dict_del k d = filter (\<lambda>p. fst p \<noteq> k) d"

definition move_to_end :: "'k \<Rightarrow> ('k, 'v) dict \<Rightarrow> ('k, 'v) dict" where
  "move_to_end k d = dict_del k d @ filter (\<lambda>p. fst p = k) d"

definition dict_update :: "('k, 'v) dict \<Rightarrow> ('k, 'v) dict \<Rightarrow> ('k, 'v) dict" where
  "dict_update d e = fold (\<lambda>(k, v). dict_set k v) e d"

lemma dict_has_iff [dict_simps]: "dict_has d k \<longleftrightarrow> map_of d k \<noteq> None"
  by (simp add: dict_has_def map_of_eq_None_iff)

lemma map_of_dict_set [dict_simps]: "map_of (dict_set k v d) = (map_of d)(k \<mapsto> v)"
  by (simp add: dict_set_def update_conv')

lemma map_of_dict_del [dict_simps]: "map_of (dict_del k d) = (map_of d)(k := None)"
  by (induction d) (auto simp: dict_del_def)

lemma dict_wf_Nil [simp]: "dict_wf []"
  by (simp add: dict_wf_def)

lemma dict_wf_set [simp, intro]: "dict_wf d \<Longrightarrow> dict_wf (dict_set k v d)"
  by (simp add: dict_wf_def dict_set_def distinct_update)

lemma dict_wf_filter [simp, intro]: "dict_wf d \<Longrightarrow> dict_wf (filter P d)"
  by (simp add: dict_wf_def distinct_map_filter)

lemma dict_wf_del [simp, intro]: "dict_wf d \<Longrightarrow> dict_wf (dict_del k d)"
  by (simp add: dict_del_def)

lemma dict_keys_set [dict_simps]:
  "map fst (dict_set k v d) = (if dict_has d k then map fst d else map fst d @ [k])"
  by (simp add: dict_set_def update_keys dict_has_def)

lemma dict_set_absent: "\<not> dict_has d k \<Longrightarrow> dict_set k v d = d @ [(k, v)]"
  by (induction d) (auto simp: dict_set_def dict_has_def)

lemma length_dict_set [dict_simps]:
  "length (dict_set k v d) = (if dict_has d k then length d else Suc (length d))"
proof -
  have "length (map fst (dict_set k v d)) = (if dict_has d k then length d else Suc (length d))"
    by (simp add: dict_keys_set del: length_map) simp
  then show ?thesis by simp
qed

lemma filter_key_singleton:
  "dict_wf d \<Longrightarrow> map_of d k = Some v \<Longrightarrow> filter (\<lambda>p. fst p = k) d = [(k, v)]"
proof (induction d)
  case Nil
  then show ?case by simp
next
  case (Cons p d)
  have none: "filter (\<lambda>q. fst q = fst p) d = []"
    using Cons.prems(1) by (auto simp: dict_wf_def filter_empty_conv) (metis fst_conv image_eqI)
  show ?case
  proof (cases "fst p = k")
    case True
    with Cons.prems(2) none show ?thesis by (cases p) auto
  next
    case False
    with Cons show ?thesis by (simp add: dict_wf_def)
  qed
qed

lemma move_to_end_present:
  "dict_wf d \<Longrightarrow> map_of d k = Some v \<Longrightarrow> move_to_end k d = dict_del k d @ [(k, v)]"
  by (simp add: move_to_end_def filter_key_singleton)

lemma map_of_move_to_end [dict_simps]: "dict_wf d \<Longrightarrow> map_of (move_to_end k d) = map_of d"
proof (cases "map_of d k")
  case None
  then have "filter (\<lambda>p. fst p = k) d = []" by (auto simp: map_of_eq_None_iff filter_empty_conv)
  with None show ?thesis by (auto simp: move_to_end_def map_of_dict_del)
next
  case (Some v)
  moreover assume "dict_wf d"
  ultimately show ?thesis
    by (auto simp: move_to_end_present map_of_append map_of_dict_del map_add_def fun_eq_iff
        split: option.splits)
qed

lemma mset_move_to_end [simp]: "mset (move_to_end k d) = mset d"
  by (simp add: move_to_end_def dict_del_def mset_filter multiset_partition
      [symmetric, where P = "\<lambda>p. fst p = k"] add.commute
      flip: filter_mset_add_mset multiset_partition)

section \<open>Numbers and their text\<close>

text \<open>
  \<^verbatim>\<open>int(x)\<close> truncates towards zero. \<^verbatim>\<open>f"{x:.nf}"\<close> and \<^verbatim>\<open>round(x, n)\<close> round half to even;
  the digits are those of the exact value scaled by \<open>10 ^ n\<close>.
\<close>

definition py_int :: "real \<Rightarrow> int" where
  "py_int x = (if 0 \<le> x then \<lfloor>x\<rfloor> else \<lceil>x\<rceil>)"

definition round_half_even :: "real \<Rightarrow> int" where
  "round_half_even x =
     (let f = \<lfloor>x\<rfloor>; r = x - of_int f
      in if r < 1 / 2 then f else if 1 / 2 < r then f + 1
         else if even f then f else f + 1)"

definition py_round :: "real \<Rightarrow> nat \<Rightarrow> real" where
  "py_round x n = of_int (round_half_even (x * 10 ^ n)) / 10 ^ n"

definition digit_char :: "nat \<Rightarrow> char" where
  "digit_char d = char_of (48 + d)"

definition hex_char :: "nat \<Rightarrow> char" where
  "hex_char d = (if d < 10 then char_of (48 + d) else char_of (87 + d))"

fun nat_str :: "nat \<Rightarrow> string" where
  "nat_str n = (if n < 10 then [digit_char n] else nat_str (n div 10) @ [digit_char (n mod 10)])"

declare nat_str.simps [simp del]

definition int_str :: "int \<Rightarrow> string" where
  "int_str i = (if i < 0 then ''-'' @ nat_str (nat (- i)) else nat_str (nat i))"

fun pad_digits :: "nat \<Rightarrow> nat \<Rightarrow> string" where
  "pad_digits 0 v = []"
| "pad_digits (Suc n) v = pad_digits n (v div 10) @ [digit_char (v mod 10)]"

definition fmt_fixed :: "nat \<Rightarrow> real \<Rightarrow> string" where
  "fmt_fixed n x =
     (let v = nat (round_half_even (\<bar>x\<bar> * 10 ^ n))
      in (if x < 0 then ''-'' else []) @ nat_str (v div 10 ^ n)
         @ (if n = 0 then [] else ''.'' @ pad_digits n (v mod 10 ^ n)))"

lemma nat_str_nonempty [simp]: "nat_str n \<noteq> []"
  by (subst nat_str.simps) simp

lemma round_half_even_error: "\<bar>of_int (round_half_even x) - x\<bar> \<le> 1 / 2"
proof -
  have "of_int \<lfloor>x\<rfloor> \<le> x" "x < of_int \<lfloor>x\<rfloor> + 1" by linarith+
  then show ?thesis by (auto simp: round_half_even_def Let_def)
qed

lemma py_round_error: "\<bar>py_round x n - x\<bar> \<le> 1 / (2 * 10 ^ n)"
proof -
  have "\<bar>of_int (round_half_even (x * 10 ^ n)) - x * 10 ^ n\<bar> \<le> 1 / 2"
    by (rule round_half_even_error)
  then have "\<bar>of_int (round_half_even (x * 10 ^ n)) - x * 10 ^ n\<bar> / 10 ^ n \<le> (1 / 2) / 10 ^ n"
    by (rule divide_right_mono) simp
  also have "\<bar>of_int (round_half_even (x * 10 ^ n)) - x * 10 ^ n\<bar> / 10 ^ n
      = \<bar>(of_int (round_half_even (x * 10 ^ n)) - x * 10 ^ n) / 10 ^ n\<bar>"
    by (simp add: abs_divide)
  also have "\<dots> = \<bar>py_round x n - x\<bar>"
    by (simp add: py_round_def diff_divide_distrib)
  finally show ?thesis by simp
qed

lemma py_int_nonneg_bounds: "0 \<le> x \<Longrightarrow> 0 \<le> py_int x \<and> of_int (py_int x) \<le> x"
  by (auto simp: py_int_def)

section \<open>Lists\<close>

definition starts_with :: "string \<Rightarrow> string \<Rightarrow> bool" where
  "starts_with pre s \<longleftrightarrow> take (length pre) s = pre"

text \<open>Python's \<^verbatim>\<open>xs[-n:]\<close> for \<open>n > 0\<close>.\<close>

definition last_n :: "nat \<Rightarrow> 'a list \<Rightarrow> 'a list" where
  "last_n n xs = drop (length xs - n) xs"

lemma set_last_n: "set (last_n n xs) \<subseteq> set xs"
  by (simp add: last_n_def set_drop_subset)

lemma length_last_n [simp]: "length (last_n n xs) = min n (length xs)"
  by (simp add: last_n_def)

lemma last_n_all: "length xs \<le> n \<Longrightarrow> last_n n xs = xs"
  by (simp add: last_n_def)

lemma foldl_plus_init: "foldl (\<lambda>a x. a + f x) (b :: real) xs = b + (\<Sum>x\<leftarrow>xs. f x)"
  by (induction xs arbitrary: b) simp_all

lemma foldl_minus_init: "foldl (\<lambda>a x. a - f x) (b :: real) xs = b - (\<Sum>x\<leftarrow>xs. f x)"
  by (induction xs arbitrary: b) simp_all

lemma foldl_invariant:
  assumes "P s" and "\<And>s x. P s \<Longrightarrow> x \<in> set xs \<Longrightarrow> P (f s x)"
  shows "P (foldl f s xs)"
  using assms by (induction xs arbitrary: s) auto

lemma dropWhile_filter_sorted:
  assumes "sorted (map f xs)"
  shows "dropWhile (\<lambda>x. f x < c) xs = filter (\<lambda>x. \<not> f x < c) xs"
  using assms
proof (induction xs)
  case Nil
  then show ?case by simp
next
  case (Cons x xs)
  show ?case
  proof (cases "f x < c")
    case True
    with Cons show ?thesis by simp
  next
    case False
    with Cons.prems have "\<forall>y\<in>set xs. \<not> f y < c" by fastforce
    with False show ?thesis by (simp add: filter_id_conv)
  qed
qed

section \<open>Decimal text is injective\<close>

definition str_nat :: "string \<Rightarrow> nat" where
  "str_nat s = foldl (\<lambda>v c. 10 * v + (of_char c - 48)) 0 s"

lemma of_digit_char: "d < 10 \<Longrightarrow> of_char (digit_char d) = (48 + d :: nat)"
  by (simp add: digit_char_def)

lemma str_nat_nat_str: "str_nat (nat_str n) = n"
proof (induction n rule: nat_str.induct)
  case (1 n)
  show ?case
  proof (cases "n < 10")
    case True
    then show ?thesis by (simp add: nat_str.simps [of n] str_nat_def of_digit_char)
  next
    case False
    with "1.IH" show ?thesis
      by (simp add: nat_str.simps [of n] str_nat_def of_digit_char)
  qed
qed

lemma nat_str_inj: "nat_str m = nat_str n \<longleftrightarrow> m = n"
  by (metis str_nat_nat_str)

lemma nat_str_digits: "c \<in> set (nat_str n) \<Longrightarrow> of_char c \<in> {48..57 :: nat}"
proof (induction n rule: nat_str.induct)
  case (1 n)
  then show ?case
    by (cases "n < 10") (auto simp: nat_str.simps [of n] of_digit_char)
qed

lemma append_sep_eq:
  "a \<notin> set xs \<Longrightarrow> a \<notin> set xs' \<Longrightarrow> xs @ a # ys = xs' @ a # ys' \<longleftrightarrow> xs = xs' \<and> ys = ys'"
proof (induction xs arbitrary: xs')
  case Nil
  then show ?case by (cases xs') auto
next
  case (Cons x xs)
  then show ?case by (cases xs') auto
qed

section \<open>Recency\<close>

text \<open>
  \<^const>\<open>remdups\<close> keeps the last occurrence of every element, so \<open>remdups ks\<close> lists the
  distinct elements of \<open>ks\<close> from the least to the most recently used.
\<close>

lemma remdups_snoc: "remdups (xs @ [x]) = removeAll x (remdups xs) @ [x]"
  by (induction xs) auto

lemma last_n_snoc: "last_n (Suc n) (xs @ [x]) = last_n n xs @ [x]"
  by (simp add: last_n_def)

lemma last_n_split: "\<exists>ys. xs = ys @ last_n n xs \<and> (ys = [] \<or> length (last_n n xs) = n)"
  by (rule exI [of _ "take (length xs - n) xs"]) (auto simp: last_n_def)

lemma last_n_append: "n \<le> length ys \<Longrightarrow> last_n n (xs @ ys) = last_n n ys"
  by (simp add: last_n_def)

lemma last_n_removeAll_in:
  assumes "distinct xs" and "x \<in> set (last_n (Suc n) xs)"
  shows "last_n n (removeAll x xs) = removeAll x (last_n (Suc n) xs)"
proof -
  obtain ys where xs: "xs = ys @ last_n (Suc n) xs" and
    c: "ys = [] \<or> length (last_n (Suc n) xs) = Suc n"
    using last_n_split by blast
  let ?B = "last_n (Suc n) xs"
  from assms xs have "x \<notin> set ys" and B: "distinct ?B"
    by (metis IntI disjoint_iff distinct_append, metis distinct_append)
  have rem: "removeAll x xs = ys @ removeAll x ?B"
    by (subst xs) (simp add: \<open>x \<notin> set ys\<close>)
  have len: "Suc (length (removeAll x ?B)) = length ?B"
    using B assms(2) length_pos_if_in_set [OF assms(2)]
    by (simp add: distinct_remove1_removeAll [symmetric] length_remove1 del: length_last_n)
  show ?thesis
  proof (cases "ys = []")
    case True
    with rem len show ?thesis by (simp add: last_n_all)
  next
    case False
    with c len have "length (removeAll x ?B) = n" by simp
    then show ?thesis by (simp add: rem last_n_append last_n_all)
  qed
qed

lemma last_n_removeAll_out:
  assumes "distinct xs" and "x \<notin> set (last_n (Suc n) xs)"
  shows "last_n n (removeAll x xs) = last_n n (last_n (Suc n) xs)"
proof -
  obtain ys where xs: "xs = ys @ last_n (Suc n) xs" and
    c: "ys = [] \<or> length (last_n (Suc n) xs) = Suc n"
    using last_n_split by blast
  have rem: "removeAll x xs = removeAll x ys @ last_n (Suc n) xs"
    by (subst xs) (simp add: assms(2))
  show ?thesis
  proof (cases "ys = []")
    case True
    with rem show ?thesis by simp
  next
    case False
    with c show ?thesis by (simp add: rem last_n_append)
  qed
qed

lemma dict_set_last: "k \<notin> fst ` set d \<Longrightarrow> dict_set k v (d @ [(k, w)]) = d @ [(k, v)]"
  by (induction d) (auto simp: dict_set_def)

lemma dict_del_keys [dict_simps]: "map fst (dict_del k d) = removeAll k (map fst d)"
  by (induction d) (auto simp: dict_del_def)

lemma dict_del_notin [simp]: "k \<notin> fst ` set (dict_del k d)"
  by (auto simp: dict_del_def)

end
