(* ===== verification/Parsers.thy ===== *)
theory Parsers
  imports Prelude "HOL-Library.Word"
begin

text \<open>
  The packet parsers: \<^verbatim>\<open>parsers/ip_tcp_udp.py\<close> (link, network and transport headers into
  the \<open>meta\<close> dictionary every later stage reads), \<^verbatim>\<open>parsers/dns_parser.py\<close> and
  \<^verbatim>\<open>parsers/tls_quic_handshake.py\<close>. The \<^verbatim>\<open>dpkt\<close> decoders are third-party code and enter as
  parameters that return what they decode or which exception they raise; the theorems hold
  for all of them. \<^verbatim>\<open>socket.inet_ntop\<close> is modelled down to the characters.
\<close>

type_synonym bytes = "8 word list"

section \<open>The metadata dictionary\<close>

text \<open>
  The keys read with \<^verbatim>\<open>meta[...]\<close> are plain fields; the keys only ever read with
  \<^verbatim>\<open>meta.get(key, default)\<close> are optional, \<open>None\<close> for an absent key. \<open>protocol\<close> is
  \<open>None\<close> for the Python value \<^verbatim>\<open>None\<close> that \<open>parse_packet\<close> leaves there for other
  transports.
\<close>

record packet_meta =
  src_ip :: string
  dst_ip :: string
  ip_len :: "int option"
  protocol :: "string option"
  src_port :: int
  dst_port :: int
  tcp_flags :: "int option"
  orig_pkts :: "int option"
  payload :: bytes

abbreviation opt_get :: "'a option \<Rightarrow> 'a \<Rightarrow> 'a" where
  "opt_get x d \<equiv> (case x of None \<Rightarrow> d | Some v \<Rightarrow> v)"

section \<open>Address formatting\<close>

definition inet_ntop4 :: "bytes \<Rightarrow> string result" where
  "inet_ntop4 bs =
     (if length bs = 4
      then Inr (nat_str (unat (bs ! 0)) @ ''.'' @ nat_str (unat (bs ! 1)) @ ''.''
                @ nat_str (unat (bs ! 2)) @ ''.'' @ nat_str (unat (bs ! 3)))
      else Inl ValueError)"

fun hex_str :: "nat \<Rightarrow> string" where
  "hex_str n = (if n < 16 then [hex_char n] else hex_str (n div 16) @ [hex_char (n mod 16)])"

declare hex_str.simps [simp del]

fun zero_run :: "nat list \<Rightarrow> nat" where
  "zero_run (w # ws) = (if w = 0 then Suc (zero_run ws) else 0)"
| "zero_run [] = 0"

definition best_run :: "nat list \<Rightarrow> (nat \<times> nat) option" where
  "best_run ws =
     (let (b, l) = foldl (\<lambda>(b, l) i. let r = zero_run (drop i ws) in if l < r then (i, r) else (b, l))
                     (0, 0) [0..<length ws]
      in if 2 \<le> l then Some (b, l) else None)"

definition ip6_words :: "bytes \<Rightarrow> nat list" where
  "ip6_words bs = map (\<lambda>i. unat (bs ! (2 * i)) * 256 + unat (bs ! (2 * i + 1))) [0..<8]"

definition ip4_tail :: "nat list \<Rightarrow> (nat \<times> nat) option \<Rightarrow> bool" where
  "ip4_tail ws best =
     (case best of Some (b, l) \<Rightarrow> b = 0 \<and> (l = 6 \<or> l = 5 \<and> ws ! 5 = 65535) | None \<Rightarrow> False)"

definition ip6_group :: "bytes \<Rightarrow> nat list \<Rightarrow> (nat \<times> nat) option \<Rightarrow> nat \<Rightarrow> string" where
  "ip6_group bs ws best i =
     (if (case best of Some (b, l) \<Rightarrow> b \<le> i \<and> i < b + l | None \<Rightarrow> False)
      then (if (case best of Some (b, l) \<Rightarrow> i = b | None \<Rightarrow> False) then '':'' else [])
      else if i = 7 \<and> ip4_tail ws best then []
      else (if i = 0 then [] else '':'')
           @ (if i = 6 \<and> ip4_tail ws best
              then (case inet_ntop4 (drop 12 bs) of Inr s \<Rightarrow> s | Inl _ \<Rightarrow> [])
              else hex_str (ws ! i)))"

definition inet_ntop6 :: "bytes \<Rightarrow> string result" where
  "inet_ntop6 bs =
     (if length bs = 16
      then (let ws = ip6_words bs; best = best_run ws
            in Inr (concat (map (ip6_group bs ws best) [0..<8])
                    @ (case best of Some (b, l) \<Rightarrow> if b + l = 8 then '':'' else [] | None \<Rightarrow> [])))
      else Inl ValueError)"

definition inet_to_str :: "bytes \<Rightarrow> string result" where
  "inet_to_str inet = (case inet_ntop4 inet of Inr s \<Rightarrow> Inr s | Inl _ \<Rightarrow> inet_ntop6 inet)"

section \<open>IP, TCP, UDP and ICMP headers\<close>

datatype transport =
    Tcp (tcp_sport: int) (tcp_dport: int) (tcp_fl: int) (tcp_data: bytes)
  | Udp (udp_sport: int) (udp_dport: int) (udp_data: bytes)
  | Icmp (icmp_data: bytes)
  | OtherTransport

datatype ip_packet =
    IP4 (ip_src: bytes) (ip_dst: bytes) (ip4_len: int) (ip_data: transport)
  | IP6 (ip_src: bytes) (ip_dst: bytes) (ip_data: transport)

datatype eth_payload = EthIP ip_packet | EthOther

text \<open>The \<^verbatim>\<open>dpkt\<close> constructors; \<open>None\<close> is a raised exception.\<close>

record dpkt_link =
  dpkt_ip :: "bytes \<Rightarrow> ip_packet option"
  dpkt_ip6 :: "bytes \<Rightarrow> ip_packet option"
  dpkt_eth :: "bytes \<Rightarrow> eth_payload option"

definition decode_ip :: "dpkt_link \<Rightarrow> bytes \<Rightarrow> ip_packet option" where
  "decode_ip d raw_buf =
     (case raw_buf of [] \<Rightarrow> None
      | b # _ \<Rightarrow>
          if drop_bit 4 b = 4 then dpkt_ip d raw_buf
          else if drop_bit 4 b = 6 then dpkt_ip6 d raw_buf
          else (case dpkt_eth d raw_buf of None \<Rightarrow> None
                | Some EthOther \<Rightarrow> None
                | Some (EthIP ip) \<Rightarrow> Some ip))"

definition base_meta :: "string \<Rightarrow> string \<Rightarrow> ip_packet \<Rightarrow> packet_meta" where
  "base_meta s t ip =
     \<lparr>src_ip = s, dst_ip = t,
      ip_len = Some (case ip of IP4 _ _ n _ \<Rightarrow> n | IP6 _ _ _ \<Rightarrow> 0),
      protocol = None, src_port = 0, dst_port = 0, tcp_flags = Some 0, orig_pkts = None,
      payload = []\<rparr>"

fun fill_transport :: "transport \<Rightarrow> packet_meta \<Rightarrow> packet_meta" where
  "fill_transport (Tcp sp dp fl data) m =
     m\<lparr>protocol := Some ''TCP'', src_port := sp, dst_port := dp, tcp_flags := Some fl, payload := data\<rparr>"
| "fill_transport (Udp sp dp data) m =
     m\<lparr>protocol := Some ''UDP'', src_port := sp, dst_port := dp, payload := data\<rparr>"
| "fill_transport (Icmp data) m = m\<lparr>protocol := Some ''ICMP'', payload := data\<rparr>"
| "fill_transport OtherTransport m = m"

definition parse_packet :: "dpkt_link \<Rightarrow> bytes \<Rightarrow> packet_meta option result" where
  "parse_packet d raw_buf =
     (case decode_ip d raw_buf of None \<Rightarrow> Inr None
      | Some ip \<Rightarrow>
          (case inet_to_str (ip_src ip) of Inl e \<Rightarrow> Inl e
           | Inr s \<Rightarrow>
               (case inet_to_str (ip_dst ip) of Inl e \<Rightarrow> Inl e
                | Inr t \<Rightarrow> Inr (Some (fill_transport (ip_data ip) (base_meta s t ip))))))"

section \<open>DNS messages\<close>

datatype dpkt_exc = NeedData | UnpackError | UnicodeDecodeError | OtherError py_error

record dns_question =
  dq_name :: string
  dq_type :: int

text \<open>An answer record; \<open>None\<close> for an attribute the object does not have.\<close>

record dns_rr =
  rr_name :: "string option"
  rr_type :: "int option"
  rr_ttl :: "int option"

record dns_msg =
  dm_qd :: "dns_question list"
  dm_an :: "dns_rr list"

text \<open>
  The parsed dictionary. Query types are ints from \<open>parse_dns\<close>; the exfiltration features
  also compare them with the strings. \<open>nxdomain\<close> is read by the DGA features with a default
  and no code of the repository sets it.
\<close>

datatype qtype = QInt int | QStr string

record dns_query =
  q_name :: "string option"
  q_type :: "qtype option"

record dns_answer =
  a_name :: string
  a_type :: int
  a_ttl :: int

record dns_parsed =
  queries :: "dns_query list"
  answers :: "dns_answer list"
  nxdomain :: "bool option"

definition rr_answer :: "dns_rr \<Rightarrow> dns_answer list" where
  "rr_answer a =
     (case (rr_name a, rr_type a, rr_ttl a) of
        (Some n, Some t, Some l) \<Rightarrow> [\<lparr>a_name = n, a_type = t, a_ttl = l\<rparr>]
      | _ \<Rightarrow> [])"

definition parse_dns :: "(bytes \<Rightarrow> dpkt_exc + dns_msg) \<Rightarrow> bytes \<Rightarrow> dns_parsed option result" where
  "parse_dns dpkt_dns udp_payload =
     (if udp_payload = [] then Inr None
      else (case dpkt_dns udp_payload of
              Inl (OtherError e) \<Rightarrow> Inl e
            | Inl _ \<Rightarrow> Inr None
            | Inr dns \<Rightarrow> Inr (Some
                \<lparr>queries = map (\<lambda>q. \<lparr>q_name = Some (dq_name q), q_type = Some (QInt (dq_type q))\<rparr>) (dm_qd dns),
                 answers = concat (map rr_answer (dm_an dns)),
                 nxdomain = None\<rparr>)))"

section \<open>TLS handshakes\<close>

text \<open>
  A decoded extension: \<^verbatim>\<open>ext.value\<close>, \<open>None\<close> where reading it raises, and whether
  \<^verbatim>\<open>TLSExtension(ext.data)\<close> succeeds. A decoded handshake message is a ClientHello with its
  optional attributes, a ServerHello with its optional cipher, or another type.
\<close>

record tls_ext =
  ext_value :: "int option"
  ext_data_ok :: bool

datatype handshake =
    ClientHello (ch_ciphers: "int list option") (ch_extensions: "tls_ext list option")
  | ServerHello (sh_cipher: "int option")
  | OtherHandshake

record tls_record =
  rec_type :: int
  rec_data :: bytes

record tls_parsed =
  sni :: "string option"
  ciphers :: "int list"
  extensions :: "int list"

fun scan_extensions :: "tls_ext list \<Rightarrow> tls_parsed \<Rightarrow> tls_parsed" where
  "scan_extensions [] r = r"
| "scan_extensions (ext # exts) r =
     (case ext_value ext of None \<Rightarrow> r
      | Some v \<Rightarrow>
          (let r = r\<lparr>extensions := extensions r @ [v]\<rparr>;
               r = (if v = 0 \<and> ext_data_ok ext then r\<lparr>sni := Some ''<extracted_sni>''\<rparr> else r)
           in scan_extensions exts r))"

fun apply_handshake :: "handshake \<Rightarrow> tls_parsed \<Rightarrow> tls_parsed" where
  "apply_handshake (ClientHello cs exts) r =
     (let r = (case cs of None \<Rightarrow> r | Some c \<Rightarrow> r\<lparr>ciphers := c\<rparr>)
      in case exts of None \<Rightarrow> r | Some es \<Rightarrow> scan_extensions es r)"
| "apply_handshake (ServerHello c) r =
     (case c of None \<Rightarrow> r | Some x \<Rightarrow> r\<lparr>ciphers := ciphers r @ [x]\<rparr>)"
| "apply_handshake OtherHandshake r = r"

definition tls_step :: "(bytes \<Rightarrow> handshake option) \<Rightarrow> tls_parsed \<Rightarrow> tls_record \<Rightarrow> tls_parsed" where
  "tls_step dpkt_hs r rec =
     (if rec_type rec = 23 then r
      else if rec_type rec = 22 then
        (if rec_data rec = [] then r
         else case dpkt_hs (rec_data rec) of None \<Rightarrow> r | Some hs \<Rightarrow> apply_handshake hs r)
      else r)"

definition parse_tls_handshake ::
    "(bytes \<Rightarrow> dpkt_exc + tls_record list) \<Rightarrow> (bytes \<Rightarrow> handshake option) \<Rightarrow> bytes
      \<Rightarrow> tls_parsed option result" where
  "parse_tls_handshake dpkt_tls dpkt_hs tcp_payload =
     (if tcp_payload = [] then Inr None
      else if hd tcp_payload \<noteq> 0x16 then Inr None
      else (case dpkt_tls tcp_payload of
              Inl NeedData \<Rightarrow> Inr None
            | Inl UnpackError \<Rightarrow> Inr None
            | Inl UnicodeDecodeError \<Rightarrow> Inl ValueError
            | Inl (OtherError e) \<Rightarrow> Inl e
            | Inr records \<Rightarrow>
                Inr (Some (foldl (tls_step dpkt_hs) \<lparr>sni = None, ciphers = [], extensions = []\<rparr> records))))"

section \<open>Properties\<close>

lemma dot_not_digit: "CHR ''.'' \<notin> set (nat_str n)"
  using nat_str_digits [of "CHR ''.''" n] by auto

lemma length_4_eq: "length bs = 4 \<Longrightarrow> bs = [bs ! 0, bs ! 1, bs ! 2, bs ! 3]"
  by (auto simp: length_Suc_conv eval_nat_numeral)

lemma inet_ntop4_inj:
  assumes "inet_ntop4 a = Inr s" and "inet_ntop4 b = Inr s"
  shows "a = b"
proof -
  from assms have a: "length a = 4" and b: "length b = 4"
    by (auto simp: inet_ntop4_def split: if_splits)
  have "nat_str (unat (a ! 0)) @ CHR ''.'' # nat_str (unat (a ! 1)) @ CHR ''.''
          # nat_str (unat (a ! 2)) @ CHR ''.'' # nat_str (unat (a ! 3))
      = nat_str (unat (b ! 0)) @ CHR ''.'' # nat_str (unat (b ! 1)) @ CHR ''.''
          # nat_str (unat (b ! 2)) @ CHR ''.'' # nat_str (unat (b ! 3))"
    using assms a b by (simp add: inet_ntop4_def)
  then have "a ! 0 = b ! 0 \<and> a ! 1 = b ! 1 \<and> a ! 2 = b ! 2 \<and> a ! 3 = b ! 3"
    by (simp add: append_sep_eq dot_not_digit nat_str_inj word_unat_eq_iff)
  then show ?thesis using length_4_eq [OF a] length_4_eq [OF b] by simp
qed

lemma inet_to_str_total:
  "length bs = 4 \<or> length bs = 16 \<Longrightarrow> \<exists>s. inet_to_str bs = Inr s"
  by (auto simp: inet_to_str_def inet_ntop4_def inet_ntop6_def Let_def)


definition sample_dpkt :: dpkt_link where
  "sample_dpkt = \<lparr>dpkt_ip = (\<lambda>_. Some (IP4 [10, 0, 0, 1] [8, 8, 8, 8] 60 (Udp 4000 53 [1, 2]))),
     dpkt_ip6 = (\<lambda>_. None), dpkt_eth = (\<lambda>_. None)\<rparr>"


text \<open>
  An Ethernet frame whose first byte (the first octet of the destination MAC address)
  has high nibble 4 or 6 is never decoded as Ethernet: the result does not depend on the
  Ethernet decoder at all, the frame is read as a bare IP packet.
\<close>

theorem parse_packet_ignores_ethernet_decoder:
  assumes "drop_bit 4 b = (4 :: 8 word) \<or> drop_bit 4 b = 6"
  shows "parse_packet (d\<lparr>dpkt_eth := eth1\<rparr>) (b # bs) = parse_packet (d\<lparr>dpkt_eth := eth2\<rparr>) (b # bs)"
  using assms by (auto simp: parse_packet_def decode_ip_def)

theorem parse_packet_ignores_ethernet_decoder_witness:
  "parse_packet (sample_dpkt\<lparr>dpkt_eth := (\<lambda>_. None)\<rparr>) [0x44, 0xd9]
     = parse_packet (sample_dpkt\<lparr>dpkt_eth := (\<lambda>_. Some EthOther)\<rparr>) [0x44, 0xd9]"
  by (rule parse_packet_ignores_ethernet_decoder) simp

text \<open>What a TLS record contributes: only handshake records carry information.\<close>

definition tls_view :: "tls_record \<Rightarrow> tls_record" where
  "tls_view rec = (if rec_type rec = 22 then rec else rec\<lparr>rec_data := []\<rparr>)"

lemma tls_step_view: "tls_step hs r (tls_view rec) = tls_step hs r rec"
  by (simp add: tls_step_def tls_view_def)

text \<open>
  C37. No application data reaches the output of the TLS parser: erasing the contents of
  every record that is not a handshake record (in particular of all type-23 records) leaves
  the result unchanged, for every decoder.
\<close>

theorem tls_no_payload_leak:
  "parse_tls_handshake (\<lambda>bs. map_sum id (map tls_view) (dpkt_tls bs)) hs buf
     = parse_tls_handshake dpkt_tls hs buf"
  by (auto simp: parse_tls_handshake_def foldl_map tls_step_view split: sum.splits dpkt_exc.splits)

end
