(* ===== verification/FlowTables.thy ===== *)
theory FlowTables
  imports Parsers
begin

text \<open>
  \<^verbatim>\<open>assembler/flow_session_tables.py\<close>: the LRU-evicted \<open>BoundedTable\<close> over an
  \<^verbatim>\<open>OrderedDict\<close>, and the \<open>FlowAssembler\<close> that aggregates packets into 5-tuple flows.
  The locale \<open>bounded_cache\<close> is the interface the assembler relies on: lookup after
  insertion, other keys untouched or evicted, the size bound, and the accounting of
  evictions. It is interpreted on \<open>BoundedTable\<close>.
\<close>

section \<open>BoundedTable\<close>

text \<open>
  An entry is the dictionary of \<^verbatim>\<open>default_factory\<close> plus the two stamps \<open>get_or_create\<close>
  writes; the stamps are always present, since entries are only inserted there.
\<close>

record 'e tbl_entry =
  te_data :: 'e
  first_seen :: real
  last_seen :: real

record ('k, 'e) bounded_table =
  bt_name :: string
  max_size :: int
  ttl_seconds :: real
  bt_table :: "('k, 'e tbl_entry) dict"
  evicted_count :: nat

definition bounded_table_init :: "string \<Rightarrow> int \<Rightarrow> real \<Rightarrow> ('k, 'e) bounded_table" where
  "bounded_table_init nm mx ttl =
     \<lparr>bt_name = nm, max_size = mx, ttl_seconds = ttl, bt_table = [], evicted_count = 0\<rparr>"

definition evict_lru :: "('k, 'e) bounded_table \<Rightarrow> ('k, 'e) bounded_table" where
  "evict_lru t =
     (case bt_table t of [] \<Rightarrow> t
      | _ # rest \<Rightarrow> t\<lparr>bt_table := rest, evicted_count := evicted_count t + 1\<rparr>)"

definition expired :: "('k, 'e) bounded_table \<Rightarrow> real \<Rightarrow> 'e tbl_entry \<Rightarrow> bool" where
  "expired t now v \<longleftrightarrow> ttl_seconds t < now - last_seen v"

definition del_counted :: "('k, 'e) bounded_table \<Rightarrow> 'k \<Rightarrow> ('k, 'e) bounded_table" where
  "del_counted t k = t\<lparr>bt_table := dict_del k (bt_table t), evicted_count := evicted_count t + 1\<rparr>"

definition evict_expired :: "('k, 'e) bounded_table \<Rightarrow> real \<Rightarrow> ('k, 'e) bounded_table" where
  "evict_expired t now =
     (let keys_to_remove = map fst (filter (\<lambda>(k, v). expired t now v) (bt_table t))
      in foldl del_counted t keys_to_remove)"

text \<open>
  \<open>wall\<close> is what \<^verbatim>\<open>time.time()\<close> returns when no \<^verbatim>\<open>current_time\<close> is given. The returned
  entry is a reference into the table; callers that mutate it write the table, which the
  assembler below does with \<open>set_entry\<close>.
\<close>

definition get_or_create ::
    "('k, 'e) bounded_table \<Rightarrow> 'k \<Rightarrow> 'e \<Rightarrow> real option \<Rightarrow> real
      \<Rightarrow> ('k, 'e) bounded_table \<times> 'e tbl_entry" where
  "get_or_create t key fresh current_time wall =
     (let now = (case current_time of None \<Rightarrow> wall | Some c \<Rightarrow> c)
      in case map_of (bt_table t) key of
           Some entry \<Rightarrow>
             (let entry = entry\<lparr>last_seen := now\<rparr>
              in (t\<lparr>bt_table := dict_set key entry (move_to_end key (bt_table t))\<rparr>, entry))
         | None \<Rightarrow>
             (let t = (if max_size t \<le> int (length (bt_table t)) then evict_lru t else t);
                  entry = \<lparr>te_data = fresh, first_seen = now, last_seen = now\<rparr>
              in (t\<lparr>bt_table := dict_set key entry (bt_table t)\<rparr>, entry)))"

definition table_get :: "('k, 'e) bounded_table \<Rightarrow> 'k \<Rightarrow> ('k, 'e) bounded_table \<times> 'e tbl_entry option" where
  "table_get t key =
     (case map_of (bt_table t) key of
        Some entry \<Rightarrow> (t\<lparr>bt_table := move_to_end key (bt_table t)\<rparr>, Some entry)
      | None \<Rightarrow> (t, None))"

definition set_entry :: "('k, 'e) bounded_table \<Rightarrow> 'k \<Rightarrow> 'e tbl_entry \<Rightarrow> ('k, 'e) bounded_table" where
  "set_entry t key entry = t\<lparr>bt_table := dict_set key entry (bt_table t)\<rparr>"

section \<open>FlowAssembler\<close>

type_synonym flow_key = "string \<times> int \<times> string \<times> int \<times> string"

record flow_stats =
  packet_count :: int
  byte_count :: int
  fl_protocol :: string
  fl_src_ip :: string
  fl_dst_ip :: string
  fl_src_port :: int
  fl_dst_port :: int

text \<open>
  The DNS and TLS tables are created but no operation of the class touches them, so their
  key and entry types are left open.
\<close>

record ('dk, 'de, 'tk, 'te) flow_assembler =
  flows :: "(flow_key, flow_stats) bounded_table"
  dns_tx :: "('dk, 'de) bounded_table"
  tls_sessions :: "('tk, 'te) bounded_table"

definition flow_assembler_init :: "int \<Rightarrow> int \<Rightarrow> int \<Rightarrow> ('dk, 'de, 'tk, 'te) flow_assembler" where
  "flow_assembler_init max_flows max_dns max_tls =
     \<lparr>flows = bounded_table_init ''5-Tuple Flows'' max_flows 300,
      dns_tx = bounded_table_init ''DNS Transactions'' max_dns 10,
      tls_sessions = bounded_table_init ''TLS Sessions'' max_tls 300\<rparr>"

definition make_5tuple :: "packet_meta \<Rightarrow> string \<Rightarrow> flow_key" where
  "make_5tuple meta proto =
     (let (ip1, ip2) = (if dst_ip meta < src_ip meta then (dst_ip meta, src_ip meta)
                        else (src_ip meta, dst_ip meta));
          (port1, port2) = (if dst_port meta < src_port meta then (dst_port meta, src_port meta)
                            else (src_port meta, dst_port meta))
      in (ip1, port1, ip2, port2, proto))"

definition flow_factory :: "packet_meta \<Rightarrow> string \<Rightarrow> flow_stats" where
  "flow_factory meta proto =
     \<lparr>packet_count = 0, byte_count = 0, fl_protocol = proto,
      fl_src_ip = src_ip meta, fl_dst_ip = dst_ip meta,
      fl_src_port = src_port meta, fl_dst_port = dst_port meta\<rparr>"

definition count_packet :: "int \<Rightarrow> flow_stats tbl_entry \<Rightarrow> flow_stats tbl_entry" where
  "count_packet len e =
     e\<lparr>te_data := (te_data e)\<lparr>packet_count := packet_count (te_data e) + 1,
                              byte_count := byte_count (te_data e) + len\<rparr>\<rparr>"

definition process_packet_meta ::
    "('dk, 'de, 'tk, 'te) flow_assembler \<Rightarrow> packet_meta option \<Rightarrow> real option \<Rightarrow> real
      \<Rightarrow> ('dk, 'de, 'tk, 'te) flow_assembler \<times> flow_stats tbl_entry option" where
  "process_packet_meta a meta current_time wall =
     (case meta of None \<Rightarrow> (a, None)
      | Some m \<Rightarrow>
          (case protocol m of None \<Rightarrow> (a, None)
           | Some proto \<Rightarrow>
               if proto = [] then (a, None)
               else (let key = make_5tuple m proto;
                         (t, flow) = get_or_create (flows a) key (flow_factory m proto) current_time wall;
                         flow = count_packet (opt_get (ip_len m) 0) flow
                     in (a\<lparr>flows := set_entry t key flow\<rparr>, Some flow))))"

section \<open>The interface of a bounded cache\<close>

locale bounded_cache =
  fixes inv :: "'t \<Rightarrow> bool"
    and keys :: "'t \<Rightarrow> 'k list"
    and cap :: "'t \<Rightarrow> int"
    and evicted :: "'t \<Rightarrow> nat"
    and touch :: "'t \<Rightarrow> 'k \<Rightarrow> 'x \<Rightarrow> 't"
  assumes touch_inv: "inv t \<Longrightarrow> inv (touch t k x)"
    and touch_cap: "cap (touch t k x) = cap t"
    and inv_distinct: "inv t \<Longrightarrow> distinct (keys t)"
    and touch_present: "inv t \<Longrightarrow> k \<in> set (keys t) \<Longrightarrow>
          keys (touch t k x) = removeAll k (keys t) @ [k] \<and> evicted (touch t k x) = evicted t"
    and touch_room: "inv t \<Longrightarrow> k \<notin> set (keys t) \<Longrightarrow> int (length (keys t)) < cap t \<Longrightarrow>
          keys (touch t k x) = keys t @ [k] \<and> evicted (touch t k x) = evicted t"
    and touch_full: "inv t \<Longrightarrow> k \<notin> set (keys t) \<Longrightarrow> cap t \<le> int (length (keys t)) \<Longrightarrow>
          keys t \<noteq> [] \<Longrightarrow>
          keys (touch t k x) = tl (keys t) @ [k] \<and> evicted (touch t k x) = Suc (evicted t)"
begin

text \<open>The keys after a run are the most recently used distinct ones, in order of use.\<close>

lemma touch_lru:
  assumes "inv t" and c: "cap t = int (Suc c)" and ks: "keys t = last_n (Suc c) (remdups ks)"
  shows "keys (touch t k x) = last_n (Suc c) (remdups (ks @ [k]))"
proof -
  let ?R = "remdups ks"
  have goal: "last_n (Suc c) (remdups (ks @ [k])) = last_n c (removeAll k ?R) @ [k]"
    by (simp only: remdups_snoc last_n_snoc)
  show ?thesis
  proof (cases "k \<in> set (keys t)")
    case True
    then show ?thesis
      using touch_present [OF \<open>inv t\<close> True] last_n_removeAll_in [of ?R k c] ks
      by (simp add: goal)
  next
    case out: False
    then have R: "last_n c (removeAll k ?R) = last_n c (keys t)"
      using last_n_removeAll_out [of ?R k c] ks by simp
    show ?thesis
    proof (cases "int (length (keys t)) < cap t")
      case True
      then have "length (keys t) \<le> c" using c by simp
      with touch_room [OF \<open>inv t\<close> out True] R show ?thesis
        by (simp add: goal last_n_all)
    next
      case False
      then have "Suc c \<le> length (keys t)" using c by simp
      then have len: "length (keys t) = Suc c" using ks by (simp del: remdups.simps)
      then have "keys t \<noteq> []" and "last_n c (keys t) = tl (keys t)"
        by (auto simp: last_n_def drop_Suc)
      with touch_full [OF \<open>inv t\<close> out] False R show ?thesis by (simp add: goal)
    qed
  qed
qed

lemma run_lru_from:
  assumes "inv t" and "cap t = int (Suc c)" and "keys t = last_n (Suc c) (remdups ks)"
  shows "keys (foldl (\<lambda>t (k, x). touch t k x) t ops) = last_n (Suc c) (remdups (ks @ map fst ops))"
  using assms
proof (induction ops arbitrary: t ks)
  case Nil
  then show ?case by simp
next
  case (Cons p ops)
  obtain k x where p: "p = (k, x)" by (cases p)
  show ?case
    using Cons.IH [OF touch_inv [OF Cons.prems(1)], of k x "ks @ [k]"]
      touch_lru [OF Cons.prems] Cons.prems(2)
    by (simp add: p touch_cap)
qed

lemma touch_balance:
  assumes "inv t" and "0 < cap t"
  shows "length (keys (touch t k x)) + evicted (touch t k x)
    = length (keys t) + evicted t + (if k \<in> set (keys t) then 0 else 1)"
proof (cases "k \<in> set (keys t)")
  case True
  have "length (removeAll k (keys t)) + 1 = length (keys t)"
    using inv_distinct [OF assms(1)] True length_pos_if_in_set [OF True]
    by (simp add: distinct_remove1_removeAll [symmetric] length_remove1)
  with touch_present [OF assms(1) True, of x] True show ?thesis by simp
next
  case out: False
  show ?thesis
  proof (cases "int (length (keys t)) < cap t")
    case True
    with touch_room [OF assms(1) out True] out show ?thesis by simp
  next
    case False
    with assms(2) have "keys t \<noteq> []" by auto
    with touch_full [OF assms(1) out, of x] False out show ?thesis by simp
  qed
qed

end

section \<open>BoundedTable is a bounded cache\<close>

definition table_keys :: "('k, 'e) bounded_table \<Rightarrow> 'k list" where
  "table_keys t = map fst (bt_table t)"

definition table_inv :: "('k, 'e) bounded_table \<Rightarrow> bool" where
  "table_inv t \<longleftrightarrow> dict_wf (bt_table t)"

text \<open>One use of the table as its clients make it: fetch or create, then mutate the entry.\<close>

type_synonym 'e access = "'e \<times> real option \<times> real \<times> ('e tbl_entry \<Rightarrow> 'e tbl_entry)"

definition table_touch :: "('k, 'e) bounded_table \<Rightarrow> 'k \<Rightarrow> 'e access \<Rightarrow> ('k, 'e) bounded_table" where
  "table_touch t k x =
     (case x of (fresh, ct, wall, f) \<Rightarrow>
        (let (t', e) = get_or_create t k fresh ct wall in set_entry t' k (f e)))"

abbreviation access_time :: "real option \<Rightarrow> real \<Rightarrow> real" where
  "access_time ct wall \<equiv> (case ct of None \<Rightarrow> wall | Some c \<Rightarrow> c)"

lemma dict_set_present:
  assumes "dict_wf d" and "map_of d k = Some e"
  shows "dict_set k v (dict_set k w (move_to_end k d)) = dict_del k d @ [(k, v)]"
  using assms by (simp add: move_to_end_present dict_set_last)

lemma table_touch_present:
  assumes "table_inv t" and "map_of (bt_table t) k = Some e"
  shows "table_touch t k (fresh, ct, wall, f)
    = t\<lparr>bt_table := dict_del k (bt_table t) @ [(k, f (e\<lparr>last_seen := access_time ct wall\<rparr>))]\<rparr>"
  using assms
  by (simp add: table_touch_def get_or_create_def set_entry_def Let_def table_inv_def dict_set_present)

lemma table_touch_room:
  assumes "map_of (bt_table t) k = None" and "int (length (bt_table t)) < max_size t"
  shows "table_touch t k (fresh, ct, wall, f)
    = t\<lparr>bt_table := bt_table t
         @ [(k, f \<lparr>te_data = fresh, first_seen = access_time ct wall, last_seen = access_time ct wall\<rparr>)]\<rparr>"
proof -
  have "k \<notin> fst ` set (bt_table t)" using assms(1) by (simp add: map_of_eq_None_iff)
  with assms show ?thesis
    by (simp add: table_touch_def get_or_create_def set_entry_def Let_def dict_set_absent
        dict_has_def dict_set_last)
qed

lemma table_touch_full:
  assumes "bt_table t = p # rest" and "map_of (bt_table t) k = None"
    and "max_size t \<le> int (length (bt_table t))"
  shows "table_touch t k (fresh, ct, wall, f)
    = t\<lparr>bt_table := rest
         @ [(k, f \<lparr>te_data = fresh, first_seen = access_time ct wall, last_seen = access_time ct wall\<rparr>)],
        evicted_count := evicted_count t + 1\<rparr>"
proof -
  have "k \<notin> fst ` set (bt_table t)" using assms(2) by (simp add: map_of_eq_None_iff)
  then have "k \<notin> fst ` set rest" using assms(1) by simp
  with assms show ?thesis
    by (simp add: table_touch_def get_or_create_def set_entry_def evict_lru_def Let_def
        dict_set_absent dict_has_def dict_set_last)
qed

lemmas table_touch_cases = table_touch_present table_touch_room table_touch_full

lemma map_of_None_keys: "map_of (bt_table t) k = None \<longleftrightarrow> k \<notin> set (table_keys t)"
  by (simp add: table_keys_def map_of_eq_None_iff)

lemma table_touch_inv:
  assumes "table_inv t"
  shows "table_inv (table_touch t k x)"
proof -
  have "dict_wf (bt_table (evict_lru t))"
    using assms by (auto simp: evict_lru_def table_inv_def dict_wf_def split: list.splits)
  moreover have "dict_wf (move_to_end k (bt_table t))"
    using assms by (auto simp: move_to_end_def dict_wf_def table_inv_def dict_del_keys
        distinct_map_filter distinct_removeAll)
  ultimately show ?thesis
    using assms by (auto simp: table_inv_def table_touch_def get_or_create_def set_entry_def Let_def
        split: prod.splits option.splits)
qed

lemma table_touch_max_size: "max_size (table_touch t k x) = max_size t"
  by (auto simp: table_touch_def get_or_create_def set_entry_def evict_lru_def Let_def
      split: prod.splits option.splits list.splits)

interpretation lru: bounded_cache table_inv table_keys max_size evicted_count table_touch
proof
  fix t :: "('k, 'e) bounded_table" and k and x :: "'e access"
  obtain fresh ct wall f where x: "x = (fresh, ct, wall, f)" by (cases x)
  show "table_inv t \<Longrightarrow> table_inv (table_touch t k x)" by (rule table_touch_inv)
  show "max_size (table_touch t k x) = max_size t" by (rule table_touch_max_size)
  show "table_inv t \<Longrightarrow> distinct (table_keys t)"
    by (simp add: table_inv_def table_keys_def dict_wf_def)
  show "table_keys (table_touch t k x) = removeAll k (table_keys t) @ [k]
      \<and> evicted_count (table_touch t k x) = evicted_count t"
    if inv: "table_inv t" and k: "k \<in> set (table_keys t)"
  proof -
    obtain e where "map_of (bt_table t) k = Some e" using k map_of_None_keys by fastforce
    with inv show ?thesis by (simp add: x table_touch_present table_keys_def dict_del_keys)
  qed
  show "table_keys (table_touch t k x) = table_keys t @ [k]
      \<and> evicted_count (table_touch t k x) = evicted_count t"
    if "table_inv t" and k: "k \<notin> set (table_keys t)" and "int (length (table_keys t)) < max_size t"
    using that table_touch_room [of t k fresh ct wall f]
    by (simp add: x map_of_None_keys table_keys_def)
  show "table_keys (table_touch t k x) = tl (table_keys t) @ [k]
      \<and> evicted_count (table_touch t k x) = Suc (evicted_count t)"
    if "table_inv t" and k: "k \<notin> set (table_keys t)"
      and full: "max_size t \<le> int (length (table_keys t))" and ne: "table_keys t \<noteq> []"
  proof -
    obtain p rest where t: "bt_table t = p # rest" using ne by (cases "bt_table t") (auto simp: table_keys_def)
    have "map_of (bt_table t) k = None" using k map_of_None_keys by fastforce
    from table_touch_full [OF t this] full show ?thesis by (simp add: x table_keys_def t)
  qed
qed

section \<open>Properties of the table\<close>

lemma get_or_create_touch:
  "table_touch t k (fresh, ct, wall, f) =
     set_entry (fst (get_or_create t k fresh ct wall)) k (f (snd (get_or_create t k fresh ct wall)))"
  by (simp add: table_touch_def case_prod_beta)

lemma dict_set_idem: "dict_set k v (dict_set k v d) = dict_set k v d"
  by (simp add: dict_set_def)

lemma get_or_create_touch_id:
  "fst (get_or_create t k fresh ct wall) = table_touch t k (fresh, ct, wall, id)"
  by (auto simp: get_or_create_touch set_entry_def get_or_create_def Let_def dict_set_idem
      split: option.splits)

text \<open>
  C7. The table is an LRU cache: after any sequence of \<open>get_or_create\<close> calls on a fresh
  table with positive capacity, its keys are exactly the most recently used distinct
  keys, at most \<open>max_size\<close> of them, ordered from the least to the most recently used; so
  the size bound holds at every moment and the victim of an eviction is always the least
  recently used key.
\<close>

theorem bounded_table_is_lru:
  fixes ops :: "('k \<times> 'e \<times> real option \<times> real) list" and nm :: string and ttl :: real
  assumes "0 < n"
  defines "t \<equiv> foldl (\<lambda>t (k, fresh, ct, wall). fst (get_or_create t k fresh ct wall))
                 (bounded_table_init nm (int n) ttl) ops"
  shows "table_keys t = last_n n (remdups (map fst ops)) \<and> length (bt_table t) \<le> n"
proof -
  obtain c where n: "n = Suc c" using assms(1) gr0_conv_Suc by auto
  let ?ops = "map (\<lambda>(k, fresh, ct, wall). (k, (fresh, ct, wall, id :: 'e tbl_entry \<Rightarrow> 'e tbl_entry))) ops"
  have "t = foldl (\<lambda>t (k, x). table_touch t k x) (bounded_table_init nm (int n) ttl) ?ops"
    unfolding t_def by (simp add: foldl_map case_prod_unfold get_or_create_touch_id)
  moreover have "table_keys (foldl (\<lambda>t (k, x). table_touch t k x)
      (bounded_table_init nm (int n) ttl) ?ops) = last_n (Suc c) (remdups ([] @ map fst ?ops))"
    by (rule lru.run_lru_from)
      (simp_all add: table_inv_def bounded_table_init_def n table_keys_def last_n_def)
  moreover have "map fst ?ops = map fst ops" by (simp add: case_prod_beta)
  ultimately have k: "table_keys t = last_n n (remdups (map fst ops))"
    by (simp only: n append_Nil)
  then have "length (map fst (bt_table t)) \<le> n" by (simp add: table_keys_def)
  with k show ?thesis by simp
qed

theorem bounded_table_is_lru_witness:
  "table_keys (foldl (\<lambda>t (k, fresh, ct, wall). fst (get_or_create t k fresh ct wall))
     (bounded_table_init ''t'' (int 2) 300)
     [(''a'', 0 :: nat, None, 1), (''b'', 0, None, 2), (''a'', 0, None, 3), (''c'', 0, None, 4)])
   = [''a'', ''c'']"
  using bounded_table_is_lru [where n = 2 and nm = "''t''" and ttl = 300 and ops =
      "[(''a'', 0 :: nat, None, 1), (''b'', 0, None, 2), (''a'', 0, None, 3), (''c'', 0, None, 4)]"]
  by (simp add: last_n_def)

lemma foldl_del_counted:
  "foldl del_counted t ks = t\<lparr>bt_table := filter (\<lambda>p. fst p \<notin> set ks) (bt_table t),
      evicted_count := evicted_count t + length ks\<rparr>"
proof (induction ks arbitrary: t)
  case Nil
  then show ?case by simp
next
  case (Cons k ks)
  then show ?case
    by (simp add: del_counted_def dict_del_def)
qed

text \<open>
  \<open>_evict_expired\<close> removes exactly the entries whose last use is older than the TTL,
  keeps all others in their order, and counts every removal.
\<close>

theorem evict_expired_exact:
  assumes "table_inv t"
  shows "bt_table (evict_expired t now) = filter (\<lambda>(k, v). \<not> expired t now v) (bt_table t)
    \<and> evicted_count (evict_expired t now) + length (bt_table (evict_expired t now))
        = evicted_count t + length (bt_table t)"
proof -
  let ?E = "\<lambda>(k, v). expired t now v"
  let ?ks = "map fst (filter ?E (bt_table t))"
  have "fst p \<in> set ?ks \<longleftrightarrow> ?E p" if "p \<in> set (bt_table t)" for p
  proof
    assume "fst p \<in> set ?ks"
    then obtain q where q: "q \<in> set (bt_table t)" "?E q" "fst q = fst p" by auto
    have "inj_on fst (set (bt_table t))"
      using assms by (simp add: table_inv_def dict_wf_def distinct_map)
    with q that have "q = p" by (blast dest: inj_onD)
    with q show "?E p" by simp
  next
    assume "?E p"
    with that show "fst p \<in> set ?ks" by simp
  qed
  then have f: "filter (\<lambda>p. fst p \<notin> set ?ks) (bt_table t) = filter (\<lambda>p. \<not> ?E p) (bt_table t)"
    by (intro filter_cong) auto
  have "bt_table (evict_expired t now) = filter (\<lambda>p. \<not> ?E p) (bt_table t)"
    and "evicted_count (evict_expired t now) = evicted_count t + length (filter ?E (bt_table t))"
    unfolding evict_expired_def Let_def foldl_del_counted using f by simp_all
  then show ?thesis
    using sum_length_filter_compl [of ?E "bt_table t"] by (simp add: case_prod_unfold)
qed

definition sample_table :: "(string, nat) bounded_table" where
  "sample_table = \<lparr>bt_name = ''t'', max_size = 5, ttl_seconds = 10,
     bt_table = [(''a'', \<lparr>te_data = 0, first_seen = 0, last_seen = 0\<rparr>),
                 (''b'', \<lparr>te_data = 0, first_seen = 0, last_seen = 15\<rparr>)], evicted_count = 0\<rparr>"

theorem evict_expired_exact_witness:
  "map fst (bt_table (evict_expired sample_table 20)) = [''b'']"
  using evict_expired_exact [of sample_table 20]
  by (simp add: sample_table_def table_inv_def dict_wf_def expired_def)

text \<open>
  \<open>get_or_create\<close> never applies the TTL: an entry that has been idle for longer than
  \<open>ttl_seconds\<close> is refreshed and handed out again with its old data and its old
  \<open>first_seen\<close>, instead of starting a new session.
\<close>

theorem get_or_create_revives_expired:
  assumes "map_of (bt_table t) k = Some e" and "expired t now e"
  shows "snd (get_or_create t k fresh (Some now) wall) = e\<lparr>last_seen := now\<rparr>
    \<and> evicted_count (fst (get_or_create t k fresh (Some now) wall)) = evicted_count t"
  using assms by (simp add: get_or_create_def Let_def)

theorem get_or_create_revives_expired_witness:
  "first_seen (snd (get_or_create sample_table ''a'' 7 (Some 20) 0)) = 0"
  using get_or_create_revives_expired [of sample_table "''a''" "\<lparr>te_data = 0, first_seen = 0, last_seen = 0\<rparr>" 20 7 0]
  by (simp add: sample_table_def expired_def)

section \<open>Properties of the assembler\<close>

definition assembler_run ::
    "('dk, 'de, 'tk, 'te) flow_assembler \<Rightarrow> (packet_meta option \<times> real option \<times> real) list
      \<Rightarrow> ('dk, 'de, 'tk, 'te) flow_assembler" where
  "assembler_run = foldl (\<lambda>a (m, ct, wall). fst (process_packet_meta a m ct wall))"

text \<open>The packets that reach the flow table: those with a non-empty protocol.\<close>

definition tracked :: "packet_meta option \<Rightarrow> (packet_meta \<times> string) option" where
  "tracked meta =
     (case meta of None \<Rightarrow> None
      | Some m \<Rightarrow> (case protocol m of None \<Rightarrow> None
                    | Some p \<Rightarrow> if p = [] then None else Some (m, p)))"

lemma process_packet_meta_untracked:
  "tracked meta = None \<Longrightarrow> process_packet_meta a meta ct wall = (a, None)"
  by (auto simp: tracked_def process_packet_meta_def split: option.splits if_splits)

lemma process_packet_meta_tracked:
  assumes "tracked meta = Some (m, p)"
  shows "fst (process_packet_meta a meta ct wall) = a\<lparr>flows := table_touch (flows a) (make_5tuple m p)
     (flow_factory m p, ct, wall, count_packet (opt_get (ip_len m) 0))\<rparr>"
  using assms
  by (auto simp: tracked_def process_packet_meta_def table_touch_def Let_def
      split: option.splits if_splits prod.splits)

lemma sum_table_move:
  fixes g :: "'k \<times> 'e tbl_entry \<Rightarrow> int"
  assumes "dict_wf d" and "map_of d k = Some e"
  shows "(\<Sum>p\<leftarrow>d. g p) = (\<Sum>p\<leftarrow>dict_del k d. g p) + g (k, e)"
proof -
  have "mset d = mset (dict_del k d @ [(k, e)])"
    using mset_move_to_end [of k d] move_to_end_present [OF assms] by simp
  then have "sum_mset (image_mset g (mset d)) = sum_mset (image_mset g (mset (dict_del k d @ [(k, e)])))"
    by simp
  then show ?thesis by (simp flip: mset_map sum_mset_sum_list)
qed

lemma table_touch_total:
  fixes g :: "'e tbl_entry \<Rightarrow> int"
  assumes "table_inv t" and "0 < max_size t"
    and keep: "evicted_count (table_touch t k (fresh, ct, wall, f)) = evicted_count t"
    and step: "\<And>e. g (f e) = g e + d" and stamp: "\<And>e now. g (e\<lparr>last_seen := now\<rparr>) = g e"
    and zero: "\<And>a b. g \<lparr>te_data = fresh, first_seen = a, last_seen = b\<rparr> = 0"
  shows "(\<Sum>(k, e)\<leftarrow>bt_table (table_touch t k (fresh, ct, wall, f)). g e)
    = (\<Sum>(k, e)\<leftarrow>bt_table t. g e) + d"
proof (cases "map_of (bt_table t) k")
  case (Some e)
  have "dict_wf (bt_table t)" using assms(1) by (simp add: table_inv_def)
  from sum_table_move [OF this Some, of "\<lambda>(k, e). g e"] show ?thesis
    by (simp add: table_touch_present [OF assms(1) Some] step stamp)
next
  case None
  show ?thesis
  proof (cases "int (length (bt_table t)) < max_size t")
    case True
    then show ?thesis by (simp add: table_touch_room [OF None True] step zero)
  next
    case False
    with assms(2) obtain p rest where "bt_table t = p # rest" by (cases "bt_table t") auto
    from table_touch_full [OF this None] False keep show ?thesis by simp
  qed
qed

lemma table_touch_evicted_mono:
  assumes "table_inv t" and "0 < max_size t"
  shows "evicted_count t \<le> evicted_count (table_touch t k x)"
proof (cases "k \<in> set (table_keys t)")
  case True
  then show ?thesis using lru.touch_present [OF assms(1) True, of x] by simp
next
  case out: False
  show ?thesis
  proof (cases "int (length (table_keys t)) < max_size t")
    case True
    then show ?thesis using lru.touch_room [OF assms(1) out True, of x] by simp
  next
    case False
    with assms(2) have "table_keys t \<noteq> []" by auto
    then show ?thesis using lru.touch_full [OF assms(1) out, of x] False by simp
  qed
qed

definition flow_total :: "(flow_stats \<Rightarrow> int) \<Rightarrow> ('dk, 'de, 'tk, 'te) flow_assembler \<Rightarrow> int" where
  "flow_total g a = (\<Sum>(k, e)\<leftarrow>bt_table (flows a). g (te_data e))"

definition assembler_ok ::
    "nat \<Rightarrow> int \<Rightarrow> int \<Rightarrow> ('dk, 'de, 'tk, 'te) flow_assembler \<Rightarrow> bool" where
  "assembler_ok n pk by a \<longleftrightarrow>
     table_inv (flows a) \<and> max_size (flows a) = int n \<and> length (bt_table (flows a)) \<le> n
     \<and> (evicted_count (flows a) = 0 \<longrightarrow> flow_total packet_count a = pk \<and> flow_total byte_count a = by)"

definition packets_of :: "(packet_meta option \<times> real option \<times> real) list \<Rightarrow> int" where
  "packets_of pkts = (\<Sum>(m, _)\<leftarrow>pkts. case tracked m of None \<Rightarrow> 0 | Some _ \<Rightarrow> 1)"

definition bytes_of :: "(packet_meta option \<times> real option \<times> real) list \<Rightarrow> int" where
  "bytes_of pkts = (\<Sum>(m, _)\<leftarrow>pkts. case tracked m of None \<Rightarrow> 0 | Some (p, _) \<Rightarrow> opt_get (ip_len p) 0)"

lemma table_touch_length:
  assumes "table_inv t" and "0 < max_size t" and "int (length (bt_table t)) \<le> max_size t"
  shows "int (length (bt_table (table_touch t k x))) \<le> max_size t"
proof (cases "k \<in> set (table_keys t) \<or> int (length (table_keys t)) < max_size t")
  case True
  then have "length (table_keys (table_touch t k x)) \<le> length (table_keys t)
      \<or> length (table_keys (table_touch t k x)) = Suc (length (table_keys t))
        \<and> int (length (table_keys t)) < max_size t"
    using lru.touch_balance [OF assms(1,2), of k x] lru.touch_room [OF assms(1), of k x]
      table_touch_evicted_mono [OF assms(1,2), of k x] by (auto split: if_splits)
  with assms(3) show ?thesis by (auto simp: table_keys_def)
next
  case False
  then have full: "k \<notin> set (table_keys t)" "max_size t \<le> int (length (table_keys t))" by auto
  with assms(2) have "table_keys t \<noteq> []" by auto
  with lru.touch_full [OF assms(1) full] have "length (table_keys (table_touch t k x)) = length (table_keys t)"
    by simp
  with assms(3) show ?thesis by (simp add: table_keys_def)
qed

lemma assembler_step:
  assumes ok: "assembler_ok n pk by a" and "0 < n"
  shows "assembler_ok n (pk + packets_of [(m, ct, wall)]) (by + bytes_of [(m, ct, wall)])
    (fst (process_packet_meta a m ct wall))"
proof (cases "tracked m")
  case None
  with ok show ?thesis
    by (simp add: process_packet_meta_untracked packets_of_def bytes_of_def)
next
  case (Some mp)
  obtain q p where mp: "mp = (q, p)" by (cases mp)
  let ?x = "(flow_factory q p, ct, wall, count_packet (opt_get (ip_len q) 0))"
  let ?t = "flows a" and ?k = "make_5tuple q p"
  have inv: "table_inv ?t" and cap: "max_size ?t = int n" "0 < max_size ?t"
    and len: "int (length (bt_table ?t)) \<le> max_size ?t"
    using ok \<open>0 < n\<close> by (auto simp: assembler_ok_def)
  have flows': "flows (fst (process_packet_meta a m ct wall)) = table_touch ?t ?k ?x"
    by (simp add: process_packet_meta_tracked [OF Some [unfolded mp]])
  have "flow_total packet_count (fst (process_packet_meta a m ct wall)) = pk + 1
      \<and> flow_total byte_count (fst (process_packet_meta a m ct wall)) = by + opt_get (ip_len q) 0"
    if ev: "evicted_count (table_touch ?t ?k ?x) = 0"
  proof -
    have ev0: "evicted_count ?t = 0" using table_touch_evicted_mono [OF inv cap(2), of ?k ?x] ev by simp
    have keep: "evicted_count (table_touch ?t ?k ?x) = evicted_count ?t" using ev ev0 by simp
    show ?thesis
      using table_touch_total [OF inv cap(2) keep, of "\<lambda>e. packet_count (te_data e)" 1]
        table_touch_total [OF inv cap(2) keep, of "\<lambda>e. byte_count (te_data e)" "opt_get (ip_len q) 0"]
        ok ev0 by (simp add: flow_total_def flows' assembler_ok_def count_packet_def flow_factory_def)
  qed
  moreover have "int (length (bt_table (table_touch ?t ?k ?x))) \<le> int n"
    using table_touch_length [OF inv cap(2) len, of ?k ?x] cap(1) by simp
  ultimately show ?thesis
    using table_touch_inv [OF inv, of ?k ?x] table_touch_max_size [of ?t ?k ?x] cap(1)
    by (simp add: assembler_ok_def flows' packets_of_def bytes_of_def Some mp)
qed

lemma assembler_run_ok:
  assumes "assembler_ok n pk by a" and "0 < n"
  shows "assembler_ok n (pk + packets_of pkts) (by + bytes_of pkts) (assembler_run a pkts)"
  using assms(1)
proof (induction pkts arbitrary: a pk "by")
  case Nil
  then show ?case by (simp add: assembler_run_def packets_of_def bytes_of_def)
next
  case (Cons x pkts)
  obtain m ct wall where x: "x = (m, ct, wall)" by (cases x)
  from Cons.IH [OF assembler_step [OF Cons.prems assms(2), of m ct wall]] show ?case
    by (simp add: x assembler_run_def packets_of_def bytes_of_def algebra_simps)
qed


definition sample_packet :: packet_meta where
  "sample_packet = \<lparr>src_ip = ''10.0.0.1'', dst_ip = ''10.0.0.2'', ip_len = Some 60,
     protocol = Some ''TCP'', src_port = 1000, dst_port = 80, tcp_flags = Some 2,
     orig_pkts = None, payload = []\<rparr>"


text \<open>
  The flow key is direction-independent: a reply (source and destination swapped) is
  counted in the same flow.
\<close>

theorem make_5tuple_symmetric:
  "make_5tuple (m\<lparr>src_ip := dst_ip m, dst_ip := src_ip m, src_port := dst_port m, dst_port := src_port m\<rparr>) p
     = make_5tuple m p"
  by (auto simp: make_5tuple_def Let_def)

text \<open>
  Addresses and ports are sorted independently, so the key forgets which port belongs
  to which host: the conversations \<open>A:p -> B:q\<close> and \<open>A:q -> B:p\<close> are merged into one
  flow, although neither is the reply of the other.
\<close>

theorem make_5tuple_conflates_ports:
  assumes "m' = m\<lparr>src_port := dst_port m, dst_port := src_port m\<rparr>"
  shows "make_5tuple m' p = make_5tuple m p
    \<and> (src_ip m \<noteq> dst_ip m \<and> src_port m \<noteq> dst_port m \<longrightarrow>
         src_port m' \<noteq> src_port m \<and> (src_ip m', src_port m') \<noteq> (dst_ip m, dst_port m))"
  by (auto simp: assms make_5tuple_def Let_def)

theorem make_5tuple_conflates_ports_witness:
  "make_5tuple (sample_packet\<lparr>src_port := 80, dst_port := 1000\<rparr>) ''TCP'' = make_5tuple sample_packet ''TCP''"
  using make_5tuple_conflates_ports [of "sample_packet\<lparr>src_port := 80, dst_port := 1000\<rparr>" sample_packet "''TCP''"]
  by (simp add: sample_packet_def)

end
