(* ===== verification/Onnx.thy ===== *)
theory Onnx
  imports Prelude
begin

text \<open>
  The in-process inference engine of \<^verbatim>\<open>inference/onnx_engine.py\<close>: lazily loaded sessions under
  canonical names and aliases, and the six scoring calls. ONNX Runtime and numpy are
  third-party code: a session is a function from input rows to output tensors that may raise,
  and reading a model file is a parameter. The theorems show that a known model is loaded at
  most once and then answers for all its names for ever, whatever happens to its file.
\<close>

section \<open>Tensors and sessions\<close>

text \<open>The outputs of a session: integer or float arrays of one or two dimensions, or a list of dicts.\<close>

datatype tensor =
    IntVec "int list"
  | IntMat "int list list"
  | RealVec "real list"
  | RealMat "real list list"
  | DictList "(int, real) dict list"

type_synonym session = "real list list \<Rightarrow> tensor list result"

text \<open>Python's truth value of an output: an array with more than one element raises.\<close>

fun tensor_truth :: "tensor \<Rightarrow> bool result" where
  "tensor_truth (DictList ds) = Inr (ds \<noteq> [])"
| "tensor_truth (IntVec xs) = (case xs of [] \<Rightarrow> Inr False | [x] \<Rightarrow> Inr (x \<noteq> 0) | _ \<Rightarrow> Inl ValueError)"
| "tensor_truth (IntMat xs) = (case concat xs of [] \<Rightarrow> Inr False | [x] \<Rightarrow> Inr (x \<noteq> 0) | _ \<Rightarrow> Inl ValueError)"
| "tensor_truth (RealVec xs) = (case xs of [] \<Rightarrow> Inr False | [x] \<Rightarrow> Inr (x \<noteq> 0) | _ \<Rightarrow> Inl ValueError)"
| "tensor_truth (RealMat xs) = (case concat xs of [] \<Rightarrow> Inr False | [x] \<Rightarrow> Inr (x \<noteq> 0) | _ \<Rightarrow> Inl ValueError)"

text \<open>The first element, of the first row when there are two dimensions; a list has no \<^verbatim>\<open>ndim\<close>.\<close>

fun first_scalar :: "tensor \<Rightarrow> real result" where
  "first_scalar (DictList ds) = Inl TypeError"
| "first_scalar (IntVec xs) = bind_result (py_index xs 0) (\<lambda>x. Inr (of_int x))"
| "first_scalar (IntMat xs) = bind_result (py_index xs 0) (\<lambda>r. bind_result (py_index r 0) (\<lambda>x. Inr (of_int x)))"
| "first_scalar (RealVec xs) = py_index xs 0"
| "first_scalar (RealMat xs) = bind_result (py_index xs 0) (\<lambda>r. py_index r 0)"

section \<open>The engine\<close>

definition MODEL_MAP :: "(string, string) dict" where
  "MODEL_MAP =
     [(''ddos'', ''ddos_lgbm''), (''beaconing'', ''beaconing_ocsvm''), (''dga'', ''dga_gbt''),
      (''encrypted'', ''encrypted_rf''), (''recon'', ''recon_iso''), (''exfil'', ''exfil_iso''),
      (''ddos_lgbm'', ''ddos_lgbm''), (''beaconing_ocsvm'', ''beaconing_ocsvm''), (''dga_gbt'', ''dga_gbt''),
      (''encrypted_rf'', ''encrypted_rf''), (''recon_iso'', ''recon_iso''), (''exfil_iso'', ''exfil_iso'')]"

definition canonical :: "string \<Rightarrow> string" where
  "canonical name = dict_get MODEL_MAP name name"

text \<open>What the engine finds on disk at one moment: \<open>None\<close> for a missing file, an error for one that does not load.\<close>

type_synonym model_dir = "string \<Rightarrow> session result option"

type_synonym engine = "(string, session) dict"

definition engine_init :: engine where
  "engine_init = []"

definition engine_contains :: "model_dir \<Rightarrow> string \<Rightarrow> bool" where
  "engine_contains files name \<longleftrightarrow> files (canonical name) \<noteq> None"

definition alias_of :: "string \<Rightarrow> string" where
  "alias_of name = takeWhile (\<lambda>c. c \<noteq> CHR ''_'') name"

definition get_session :: "model_dir \<Rightarrow> string \<Rightarrow> engine \<Rightarrow> session option \<times> engine" where
  "get_session files name loaded =
     (let c = canonical name
      in case map_of loaded c of
           Some s \<Rightarrow> (Some s, loaded)
         | None \<Rightarrow>
             (case files c of
                None \<Rightarrow> (None, loaded)
              | Some (Inl e) \<Rightarrow> (None, loaded)
              | Some (Inr s) \<Rightarrow> (Some s, dict_set (alias_of c) s (dict_set c s loaded))))"

text \<open>The dict-like proxy.\<close>

definition cache_getitem :: "model_dir \<Rightarrow> string \<Rightarrow> engine \<Rightarrow> session result \<times> engine" where
  "cache_getitem files key loaded =
     (case get_session files key loaded of
        (None, loaded) \<Rightarrow> (Inl KeyError, loaded)
      | (Some s, loaded) \<Rightarrow> (Inr s, loaded))"

definition cache_get :: "model_dir \<Rightarrow> string \<Rightarrow> session option \<Rightarrow> engine \<Rightarrow> session option \<times> engine" where
  "cache_get files key dflt loaded =
     (case get_session files key loaded of
        (None, loaded) \<Rightarrow> (dflt, loaded)
      | (Some s, loaded) \<Rightarrow> (Some s, loaded))"

definition cache_contains :: "model_dir \<Rightarrow> string \<Rightarrow> bool" where
  "cache_contains files key \<longleftrightarrow> engine_contains files key"

definition cache_keys :: "model_dir \<Rightarrow> string list" where
  "cache_keys files = filter (engine_contains files) (map fst MODEL_MAP)"

section \<open>Scoring\<close>

text \<open>The classifiers: the probability of class 1, when the runtime returns dictionaries.\<close>

definition class1_prob :: "session option \<Rightarrow> real list \<Rightarrow> real result" where
  "class1_prob sess x =
     (case sess of None \<Rightarrow> Inr 0
      | Some run \<Rightarrow>
          bind_result (run [x]) (\<lambda>res.
          bind_result (py_index res 1) (\<lambda>probs.
          bind_result (tensor_truth probs) (\<lambda>t.
            Inr (if t then (case probs of DictList (d # ds) \<Rightarrow> dict_get d 1 0 | _ \<Rightarrow> 0) else 0)))))"

definition predict_ddos_onnx :: "model_dir \<Rightarrow> real \<Rightarrow> real \<Rightarrow> engine \<Rightarrow> real result \<times> engine" where
  "predict_ddos_onnx files syn_ratio pkt_ewma loaded =
     (case get_session files ''ddos_lgbm'' loaded of
        (sess, loaded) \<Rightarrow> (class1_prob sess [syn_ratio, pkt_ewma], loaded))"

definition predict_dga_gbt :: "model_dir \<Rightarrow> real \<Rightarrow> real \<Rightarrow> real \<Rightarrow> engine \<Rightarrow> real result \<times> engine" where
  "predict_dga_gbt files avg_len avg_ent nxdomain loaded =
     (case get_session files ''dga_gbt'' loaded of
        (sess, loaded) \<Rightarrow> (class1_prob sess [avg_len, avg_ent, nxdomain], loaded))"

definition predict_encrypted_rf ::
    "model_dir \<Rightarrow> real \<Rightarrow> real \<Rightarrow> real \<Rightarrow> real \<Rightarrow> engine \<Rightarrow> real result \<times> engine" where
  "predict_encrypted_rf files mean_sz var_sz mean_ipt sni_len loaded =
     (case get_session files ''encrypted_rf'' loaded of
        (sess, loaded) \<Rightarrow> (class1_prob sess [mean_sz, var_sz, mean_ipt, sni_len], loaded))"

text \<open>The outlier detectors: the label, 1 for normal.\<close>

definition outlier_label :: "session option \<Rightarrow> real list \<Rightarrow> int result" where
  "outlier_label sess x =
     (case sess of None \<Rightarrow> Inr 1
      | Some run \<Rightarrow>
          bind_result (run [x]) (\<lambda>res.
          bind_result (py_index res 0) (\<lambda>labels.
          bind_result (first_scalar labels) (\<lambda>l. Inr (py_int l)))))"

definition predict_recon_iso :: "model_dir \<Rightarrow> real \<Rightarrow> real \<Rightarrow> engine \<Rightarrow> int result \<times> engine" where
  "predict_recon_iso files syn_ratio scan_activity loaded =
     (case get_session files ''recon_iso'' loaded of
        (sess, loaded) \<Rightarrow> (outlier_label sess [syn_ratio, scan_activity], loaded))"

definition predict_exfil_iso :: "model_dir \<Rightarrow> real \<Rightarrow> real \<Rightarrow> real \<Rightarrow> engine \<Rightarrow> int result \<times> engine" where
  "predict_exfil_iso files out_in_ratio out_bytes in_bytes loaded =
     (case get_session files ''exfil_iso'' loaded of
        (sess, loaded) \<Rightarrow> (outlier_label sess [out_in_ratio, out_bytes, in_bytes], loaded))"

definition predict_beaconing_onnx ::
    "model_dir \<Rightarrow> real \<Rightarrow> real \<Rightarrow> engine \<Rightarrow> (int \<times> real) result \<times> engine" where
  "predict_beaconing_onnx files cv mean_iat loaded =
     (case get_session files ''beaconing_ocsvm'' loaded of
        (None, loaded) \<Rightarrow> (Inr (1, 0), loaded)
      | (Some run, loaded) \<Rightarrow>
          (bind_result (run [[cv, mean_iat]]) (\<lambda>res.
           bind_result (py_index res 0) (\<lambda>labels.
           bind_result (first_scalar labels) (\<lambda>l.
           bind_result (py_index res 1) (\<lambda>scores.
           bind_result (first_scalar scores) (\<lambda>sc. Inr (py_int l, sc)))))), loaded))"

section \<open>Sessions are stable\<close>

text \<open>Any sequence of look-ups, each with the files as they are at that moment.\<close>

fun engine_run :: "(model_dir \<times> string) list \<Rightarrow> engine \<Rightarrow> engine" where
  "engine_run [] loaded = loaded"
| "engine_run ((files, name) # calls) loaded = engine_run calls (snd (get_session files name loaded))"

lemma alias_of_no_underscore: "CHR ''_'' \<notin> set (alias_of name)"
  unfolding alias_of_def by (auto dest: set_takeWhileD)

lemma known_canonical:
  "name \<in> fst ` set MODEL_MAP \<Longrightarrow> CHR ''_'' \<in> set (canonical name)"
  by (auto simp: MODEL_MAP_def canonical_def dict_get_def)

lemma get_session_keeps:
  assumes "CHR ''_'' \<in> set c" and "map_of loaded c = Some s"
  shows "map_of (snd (get_session files name loaded)) c = Some s"
proof -
  have "alias_of x \<noteq> c" for x using alias_of_no_underscore assms(1) by metis
  then show ?thesis
    using assms(2)
    by (auto simp: get_session_def Let_def map_of_dict_set split: option.splits sum.splits)
qed

lemma get_session_stores:
  assumes "CHR ''_'' \<in> set (canonical name)" and "get_session files name loaded = (Some s, loaded')"
  shows "map_of loaded' (canonical name) = Some s"
proof -
  have "alias_of x \<noteq> canonical name" for x using alias_of_no_underscore assms(1) by metis
  then show ?thesis
    using assms(2)
    by (auto simp: get_session_def Let_def map_of_dict_set split: option.splits sum.splits)
qed

lemma engine_run_keeps:
  "CHR ''_'' \<in> set c \<Longrightarrow> map_of loaded c = Some s \<Longrightarrow> map_of (engine_run calls loaded) c = Some s"
proof (induction calls loaded rule: engine_run.induct)
  case (2 files name calls loaded)
  then show ?case using get_session_keeps by simp
qed simp

text \<open>
  A known model is loaded once and for all: after a successful look-up of one of the twelve
  known names, every later look-up of that name or of any other name of the same model
  returns the very same session without touching the cache or the file, whatever other
  look-ups came in between and whatever has become of the model files; membership tests and
  scoring through the cache then agree with it.
\<close>

theorem onnx_session_stable:
  assumes "name \<in> fst ` set MODEL_MAP" and "canonical name' = canonical name"
    and "get_session files name loaded = (Some s, loaded')"
  shows "get_session files' name' (engine_run calls loaded') = (Some s, engine_run calls loaded')
    \<and> cache_getitem files' name' (engine_run calls loaded') = (Inr s, engine_run calls loaded')
    \<and> cache_get files' name' dflt (engine_run calls loaded') = (Some s, engine_run calls loaded')"
proof -
  have u: "CHR ''_'' \<in> set (canonical name)" using assms(1) by (rule known_canonical)
  have "map_of (engine_run calls loaded') (canonical name) = Some s"
    using u get_session_stores [OF u assms(3)] by (rule engine_run_keeps)
  then have "get_session files' name' (engine_run calls loaded') = (Some s, engine_run calls loaded')"
    by (simp add: get_session_def assms(2))
  then show ?thesis by (simp add: cache_getitem_def cache_get_def)
qed

theorem onnx_session_stable_witness:
  "fst (get_session (\<lambda>_. None) ''ddos_lgbm''
     (snd (get_session (\<lambda>_. Some (Inr (\<lambda>_. Inr []))) ''ddos'' engine_init))) = Some (\<lambda>_. Inr [])"
  using onnx_session_stable [of "''ddos''" "''ddos_lgbm''" "\<lambda>_. Some (Inr (\<lambda>_. Inr []))" engine_init "\<lambda>_. Inr []"
      "snd (get_session (\<lambda>_. Some (Inr (\<lambda>_. Inr []))) ''ddos'' engine_init)" "\<lambda>_. None" "[]" None]
  by (simp add: MODEL_MAP_def canonical_def dict_get_def get_session_def engine_init_def Let_def)

text \<open>
  Names outside the table have no such guarantee: loading \<^verbatim>\<open>foo_bar\<close> also claims the name
  \<^verbatim>\<open>foo\<close>, so a model file \<^verbatim>\<open>foo.onnx\<close> is never read afterwards.
\<close>

lemma alias_shadows_model:
  assumes "files ''foo_bar'' = Some (Inr s)"
  shows "fst (get_session files' ''foo'' (snd (get_session files ''foo_bar'' engine_init))) = Some s"
  using assms
  by (simp add: get_session_def engine_init_def canonical_def dict_get_def MODEL_MAP_def alias_of_def map_of_dict_set)

text \<open>
  The classifier calls accept only dictionaries: when the runtime returns the probabilities
  of a row as a dictionary, the score is its entry for class 1, or 0 when there is none; when
  it returns them as an array with two columns, the truth test of the array raises, and a
  missing model scores 0.
\<close>

lemma class1_prob_cases:
  "class1_prob None x = Inr 0
    \<and> class1_prob (Some (\<lambda>_. Inr [labels, DictList [d]])) x = Inr (dict_get d 1 0)
    \<and> class1_prob (Some (\<lambda>_. Inr [labels, RealMat [[p0, p1]]])) x = Inl ValueError
    \<and> class1_prob (Some (\<lambda>_. Inr [labels])) x = Inl IndexError
    \<and> class1_prob (Some (\<lambda>_. Inl e)) x = Inl e"
  by (simp add: class1_prob_def py_index_def)

end
