(* ===== verification/OnlineStats.thy ===== *)
theory OnlineStats
  imports Prelude
begin

text \<open>
  The streaming statistics of \<^verbatim>\<open>features/online_stats.py\<close>: \<open>Welford\<close>, \<open>CountMinSketch\<close>
  and \<open>EWMA\<close>. Each is a summary folded over a stream of observations; the locale
  \<open>stream_summary\<close> states that contract once, and the three classes interpret it with
  what their fields say about the stream. The theorems show that Welford's fields are the
  count, the mean and the sum of squared deviations of the stream, that the sketch never
  under-counts, and that its entropy is bounded by the entropy of the stream.

  \<^verbatim>\<open>hashlib.md5\<close> enters as the parameter \<open>digest\<close>, the digest of a byte string read as a
  number: every theorem holds for all digests.
\<close>

section \<open>The contract of a streaming summary\<close>

locale stream_summary =
  fixes init :: 's
    and step :: "'s \<Rightarrow> 'a \<Rightarrow> 's"
    and describes :: "'s \<Rightarrow> 'a list \<Rightarrow> bool"
  assumes init_describes: "describes init []"
    and step_describes: "describes s xs \<Longrightarrow> describes (step s x) (xs @ [x])"
begin

lemma run_describes_from: "describes s xs \<Longrightarrow> describes (foldl step s ys) (xs @ ys)"
proof (induction ys arbitrary: s xs)
  case Nil
  then show ?case by simp
next
  case (Cons y ys)
  from step_describes [OF Cons.prems, of y] show ?case
    using Cons.IH [of "step s y" "xs @ [y]"] by simp
qed

lemma run_describes: "describes (foldl step init ys) ys"
  using run_describes_from [OF init_describes] by simp

end

section \<open>Welford\<close>

record welford =
  w_count :: nat
  w_mean :: real
  w_m2 :: real

definition welford_init :: welford where
  "welford_init = \<lparr>w_count = 0, w_mean = 0, w_m2 = 0\<rparr>"

definition welford_update :: "welford \<Rightarrow> real \<Rightarrow> welford" where
  "welford_update s v =
     (let count = w_count s + 1;
          delta = v - w_mean s;
          mean = w_mean s + delta / real count;
          delta2 = v - mean
      in \<lparr>w_count = count, w_mean = mean, w_m2 = w_m2 s + delta * delta2\<rparr>)"

definition get_variance :: "welford \<Rightarrow> real" where
  "get_variance s = (if w_count s < 2 then 0 else w_m2 s / (real (w_count s) - 1))"

definition get_stddev :: "welford \<Rightarrow> real" where
  "get_stddev s = sqrt (get_variance s)"

definition mean_of :: "real list \<Rightarrow> real" where
  "mean_of xs = sum_list xs / real (length xs)"

definition sq_dev :: "real \<Rightarrow> real list \<Rightarrow> real" where
  "sq_dev m xs = (\<Sum>x\<leftarrow>xs. (x - m)\<^sup>2)"

definition welford_describes :: "welford \<Rightarrow> real list \<Rightarrow> bool" where
  "welford_describes s xs \<longleftrightarrow>
     w_count s = length xs \<and> w_mean s * real (length xs) = sum_list xs
     \<and> w_m2 s = sq_dev (w_mean s) xs \<and> (xs = [] \<longrightarrow> w_mean s = 0)"

lemma sq_dev_expand:
  "sq_dev m xs = (\<Sum>x\<leftarrow>xs. x\<^sup>2) - 2 * m * sum_list xs + real (length xs) * m\<^sup>2"
  by (induction xs) (simp_all add: sq_dev_def algebra_simps power2_eq_square)

lemma sq_dev_nonneg: "0 \<le> sq_dev m xs"
  unfolding sq_dev_def by (rule sum_list_nonneg) auto

lemma sq_dev_zero_iff: "sq_dev m xs = 0 \<longleftrightarrow> (\<forall>x\<in>set xs. x = m)"
proof (induction xs)
  case Nil
  then show ?case by (simp add: sq_dev_def)
next
  case (Cons x xs)
  have "sq_dev m (x # xs) = (x - m)\<^sup>2 + sq_dev m xs" by (simp add: sq_dev_def)
  with Cons sq_dev_nonneg [of m xs] show ?case
    by (simp add: add_nonneg_eq_0_iff)
qed

lemma welford_algebra:
  fixes n m v S Q :: real
  assumes "0 \<le> n" and S: "m * n = S" and "m' = m + (v - m) / (n + 1)"
  shows "Q - 2 * m * S + n * m\<^sup>2 + (v - m) * (v - m')
       = (Q + v\<^sup>2) - 2 * m' * (S + v) + (n + 1) * m'\<^sup>2" and "m' * (n + 1) = S + v"
proof -
  have n1: "n + 1 \<noteq> 0" using assms(1) by simp
  show m': "m' * (n + 1) = S + v"
    using n1 by (simp add: assms(3) S [symmetric] field_simps)
  have v: "v = m' * (n + 1) - m * n" using m' S by simp
  show "Q - 2 * m * S + n * m\<^sup>2 + (v - m) * (v - m')
       = (Q + v\<^sup>2) - 2 * m' * (S + v) + (n + 1) * m'\<^sup>2"
    by (simp add: v S [symmetric] power2_eq_square algebra_simps)
qed

lemma welford_step:
  assumes "welford_describes s xs"
  shows "welford_describes (welford_update s v) (xs @ [v])"
proof -
  define n where "n = real (length xs)"
  define m' where "m' = w_mean s + (v - w_mean s) / (n + 1)"
  from assms have S: "w_mean s * n = sum_list xs" and m2: "w_m2 s = sq_dev (w_mean s) xs"
    and c: "w_count s = length xs"
    by (simp_all add: welford_describes_def n_def)
  have m2': "sq_dev (w_mean s) xs + (v - w_mean s) * (v - m') = sq_dev m' (xs @ [v])"
    using welford_algebra(1) [OF _ S m'_def, of "\<Sum>x\<leftarrow>xs. x\<^sup>2"]
    by (simp add: sq_dev_expand n_def algebra_simps)
  have "m' * (n + 1) = sum_list xs + v"
    using welford_algebra(2) [OF _ S m'_def] by (simp add: n_def)
  with m2' m2 c show ?thesis
    by (simp add: welford_describes_def welford_update_def Let_def m'_def n_def algebra_simps)
qed

lemma welford_start: "welford_describes welford_init []"
  by (simp add: welford_describes_def welford_init_def sq_dev_def)

interpretation welford_sum: stream_summary welford_init welford_update welford_describes
  by unfold_locales (fact welford_start welford_step)+

lemma welford_describes_mean: "welford_describes s xs \<Longrightarrow> xs \<noteq> [] \<Longrightarrow> w_mean s = mean_of xs"
  by (simp add: welford_describes_def mean_of_def eq_divide_eq)

lemma welford_describes_variance_nonneg: "welford_describes s xs \<Longrightarrow> 0 \<le> get_variance s"
  by (auto simp: get_variance_def welford_describes_def sq_dev_nonneg)

lemma welford_describes_variance_zero:
  assumes "welford_describes s xs" and "2 \<le> length xs"
  shows "get_variance s = 0 \<longleftrightarrow> (\<forall>x\<in>set xs. x = mean_of xs)"
proof -
  have "xs \<noteq> []" using assms(2) by auto
  then have "w_mean s = mean_of xs" using assms(1) by (rule welford_describes_mean [rotated])
  with assms show ?thesis
    by (auto simp: get_variance_def welford_describes_def sq_dev_zero_iff)
qed

text \<open>
  C34. Welford's online update is the batch statistic: after any non-empty stream of
  observations the count is the stream's length, the mean its arithmetic mean, and
  \<open>get_variance\<close> the sample variance about that mean (0 for fewer than two
  observations), although every update is constant-time and keeps no observation.
\<close>

theorem welford_online_is_batch:
  assumes "xs \<noteq> []"
  defines "s \<equiv> foldl welford_update welford_init xs"
  shows "w_count s = length xs \<and> w_mean s = mean_of xs
    \<and> get_variance s = (if length xs < 2 then 0 else sq_dev (mean_of xs) xs / (real (length xs) - 1))
    \<and> 0 \<le> get_variance s"
proof -
  have d: "welford_describes s xs" unfolding s_def by (rule welford_sum.run_describes)
  with assms(1) have "w_mean s = mean_of xs" by (rule welford_describes_mean [rotated])
  with d welford_describes_variance_nonneg [OF d] show ?thesis
    by (simp add: welford_describes_def get_variance_def)
qed

theorem welford_online_is_batch_witness:
  "get_variance (foldl welford_update welford_init [1, 2, 3, 6]) = 14 / 3"
  using welford_online_is_batch [of "[1, 2, 3, 6]"]
  by (simp add: mean_of_def sq_dev_def power2_eq_square)

section \<open>Count-Min sketch\<close>

record cms =
  cms_width :: nat
  cms_depth :: nat
  cms_table :: "int list list"
  cms_total :: int

definition cms_init :: "nat \<Rightarrow> nat \<Rightarrow> cms" where
  "cms_init width depth =
     \<lparr>cms_width = width, cms_depth = depth,
      cms_table = replicate depth (replicate width 0), cms_total = 0\<rparr>"

text \<open>
  The digest of the two \<^verbatim>\<open>update\<close> calls is the digest of the concatenation of
  \<^verbatim>\<open>str(seed)\<close> and \<^verbatim>\<open>str(item)\<close>; every caller passes a string item. A width of 0 raises
  \<^verbatim>\<open>ZeroDivisionError\<close> here; all sketches of the repository have width 256, 512 or 1024,
  and the theorems that depend on it assume \<open>0 < width\<close>.
\<close>

definition cms_hash :: "(string \<Rightarrow> nat) \<Rightarrow> nat \<Rightarrow> string \<Rightarrow> nat \<Rightarrow> nat" where
  "cms_hash digest width item seed = digest (nat_str seed @ item) mod width"

definition cms_bump :: "int list list \<Rightarrow> nat \<Rightarrow> nat \<Rightarrow> int \<Rightarrow> int list list" where
  "cms_bump t i idx c = t[i := (t ! i)[idx := t ! i ! idx + c]]"

definition cms_add :: "(string \<Rightarrow> nat) \<Rightarrow> cms \<Rightarrow> string \<Rightarrow> int \<Rightarrow> cms" where
  "cms_add digest s item c =
     s\<lparr>cms_total := cms_total s + c,
       cms_table := foldl (\<lambda>t i. cms_bump t i (cms_hash digest (cms_width s) item i) c)
                      (cms_table s) [0..<cms_depth s]\<rparr>"

text \<open>\<^verbatim>\<open>min_count\<close> starts as \<^verbatim>\<open>float('inf')\<close>, here \<open>None\<close>.\<close>

definition min_inf :: "int option \<Rightarrow> int \<Rightarrow> int option" where
  "min_inf m v = (case m of None \<Rightarrow> Some v | Some x \<Rightarrow> Some (min x v))"

definition cms_get :: "(string \<Rightarrow> nat) \<Rightarrow> cms \<Rightarrow> string \<Rightarrow> int option" where
  "cms_get digest s item =
     foldl (\<lambda>m i. min_inf m (cms_table s ! i ! cms_hash digest (cms_width s) item i))
       None [0..<cms_depth s]"

definition plogp :: "real \<Rightarrow> real" where
  "plogp p = p * log 2 p"

definition approximate_entropy :: "cms \<Rightarrow> real" where
  "approximate_entropy s =
     (if cms_total s = 0 then 0
      else foldl (\<lambda>entropy count. if 0 < count
                    then entropy - plogp (real_of_int count / real_of_int (cms_total s))
                    else entropy) 0 (cms_table s ! 0))"

text \<open>What a sketch knows of the stream of \<open>(item, count)\<close> pairs added to it.\<close>

definition weight :: "string \<Rightarrow> (string \<times> int) list \<Rightarrow> int" where
  "weight x ops = (\<Sum>(y, c)\<leftarrow>ops. if y = x then c else 0)"

definition cell_weight :: "(string \<Rightarrow> nat) \<Rightarrow> nat \<Rightarrow> (string \<times> int) list \<Rightarrow> int" where
  "cell_weight h j ops = (\<Sum>(y, c)\<leftarrow>ops. if h y = j then c else 0)"

definition cms_describes ::
    "(string \<Rightarrow> nat) \<Rightarrow> nat \<Rightarrow> nat \<Rightarrow> cms \<Rightarrow> (string \<times> int) list \<Rightarrow> bool" where
  "cms_describes digest w d s ops \<longleftrightarrow>
     cms_width s = w \<and> cms_depth s = d \<and> length (cms_table s) = d
     \<and> (\<forall>i<d. length (cms_table s ! i) = w)
     \<and> cms_total s = (\<Sum>(y, c)\<leftarrow>ops. c)
     \<and> (\<forall>i<d. \<forall>j<w. cms_table s ! i ! j = cell_weight (\<lambda>y. cms_hash digest w y i) j ops)"

lemma cms_bump_rows:
  fixes t :: "int list list" and h :: "nat \<Rightarrow> nat" and c :: int
  assumes "k \<le> length t"
  defines "t' \<equiv> foldl (\<lambda>t i. cms_bump t i (h i) c) t [0..<k]"
  shows "length t' = length t
    \<and> (\<forall>i<length t. t' ! i = (if i < k then (t ! i)[h i := t ! i ! h i + c] else t ! i))"
  using assms(1) unfolding t'_def
proof (induction k)
  case 0
  then show ?case by simp
next
  case (Suc k)
  then show ?case by (auto simp: cms_bump_def nth_list_update less_Suc_eq)
qed

lemma cell_weight_snoc:
  "cell_weight h j (ops @ [(x, c)]) = cell_weight h j ops + (if h x = j then c else 0)"
  by (simp add: cell_weight_def)

lemma cms_step:
  assumes "cms_describes digest w d s ops"
  shows "cms_describes digest w d ((\<lambda>s (x, c). cms_add digest s x c) s p) (ops @ [p])"
proof (cases p)
  case (Pair x c)
  have "length (cms_table s) = d" "cms_width s = w" "cms_depth s = d"
    using assms by (simp_all add: cms_describes_def)
  with cms_bump_rows [of d "cms_table s" "\<lambda>i. cms_hash digest w x i" c] assms show ?thesis
    by (simp add: Pair cms_describes_def cms_add_def cell_weight_snoc nth_list_update)
qed

lemma cms_start: "cms_describes digest w d (cms_init w d) []"
  by (simp add: cms_describes_def cms_init_def cell_weight_def)

interpretation cms_sum: stream_summary "cms_init w d" "\<lambda>s (x, c). cms_add digest s x c"
    "cms_describes digest w d" for digest w d
  by unfold_locales (fact cms_start cms_step)+

subsection \<open>Estimates\<close>

lemma foldl_min_inf:
  "0 < d \<Longrightarrow> \<exists>m. foldl (\<lambda>m i. min_inf m (f i)) None [0..<d] = Some m
     \<and> (\<exists>i<d. m = f i) \<and> (\<forall>i<d. m \<le> f i)"
proof (induction d)
  case 0
  then show ?case by simp
next
  case (Suc d)
  show ?case
  proof (cases "d = 0")
    case True
    then show ?thesis by (simp add: min_inf_def)
  next
    case False
    then obtain m where "foldl (\<lambda>m i. min_inf m (f i)) None [0..<d] = Some m"
      "\<exists>i<d. m = f i" "\<forall>i<d. m \<le> f i" using Suc.IH by auto
    then show ?thesis by (auto simp: min_inf_def less_Suc_eq min_def)
  qed
qed

lemma weight_le_cell:
  "\<forall>(y, c)\<in>set ops. 0 \<le> c \<Longrightarrow> weight x ops \<le> cell_weight h (h x) ops"
  unfolding weight_def cell_weight_def by (rule sum_list_mono) auto

lemma cell_le_total:
  "\<forall>(y, c)\<in>set ops. 0 \<le> c \<Longrightarrow> cell_weight h j ops \<le> (\<Sum>(y, c)\<leftarrow>ops. c)"
  unfolding cell_weight_def by (rule sum_list_mono) auto

lemma cell_no_collision:
  "\<forall>(y, c)\<in>set ops. h y = h x \<longrightarrow> y = x \<Longrightarrow> cell_weight h (h x) ops = weight x ops"
  unfolding weight_def cell_weight_def by (rule arg_cong [where f = sum_list]) (auto intro: map_cong)

lemma cms_get_bounds:
  assumes s: "cms_describes digest w d s ops" and "0 < w" and "0 < d"
    and nn: "\<forall>(y, c)\<in>set ops. 0 \<le> c"
  shows "\<exists>m. cms_get digest s x = Some m \<and> weight x ops \<le> m \<and> m \<le> (\<Sum>(y, c)\<leftarrow>ops. c)
    \<and> ((\<exists>i<d. \<forall>(y, c)\<in>set ops. cms_hash digest w y i = cms_hash digest w x i \<longrightarrow> y = x)
        \<longrightarrow> m = weight x ops)"
proof -
  let ?h = "\<lambda>i y. cms_hash digest w y i"
  obtain m where m: "cms_get digest s x = Some m"
    and at: "\<exists>i<d. m = cms_table s ! i ! ?h i x" and le: "\<forall>i<d. m \<le> cms_table s ! i ! ?h i x"
    using foldl_min_inf [OF \<open>0 < d\<close>, of "\<lambda>i. cms_table s ! i ! ?h i x"] s
    by (auto simp: cms_get_def cms_describes_def)
  have cell: "cms_table s ! i ! ?h i x = cell_weight (?h i) (?h i x) ops" if "i < d" for i
    using that s \<open>0 < w\<close> by (simp add: cms_describes_def cms_hash_def)
  from at cell have lo: "weight x ops \<le> m" and hi: "m \<le> (\<Sum>(y, c)\<leftarrow>ops. c)"
    using weight_le_cell [OF nn] cell_le_total [OF nn] by auto
  have "m = weight x ops"
    if "i < d" "\<forall>(y, c)\<in>set ops. ?h i y = ?h i x \<longrightarrow> y = x" for i
    using le that cell [OF that(1)] cell_no_collision [OF that(2)] lo by fastforce
  with m lo hi show ?thesis by blast
qed

text \<open>
  The sketch never under-counts: after any stream of non-negative additions, the
  estimate of every item lies between the weight actually added for it and the total added,
  for every digest; and it is exact when the item collides with no other in some row.
\<close>

theorem cms_estimate_sound:
  fixes digest :: "string \<Rightarrow> nat"
  assumes "0 < w" and "0 < d" and "\<forall>(y, c)\<in>set ops. 0 \<le> c"
  defines "s \<equiv> foldl (\<lambda>s (x, c). cms_add digest s x c) (cms_init w d) ops"
  shows "\<exists>m. cms_get digest s x = Some m \<and> weight x ops \<le> m \<and> m \<le> cms_total s
    \<and> ((\<exists>i<d. \<forall>(y, c)\<in>set ops. cms_hash digest w y i = cms_hash digest w x i \<longrightarrow> y = x)
        \<longrightarrow> m = weight x ops)"
proof -
  have s: "cms_describes digest w d s ops" unfolding s_def by (rule cms_sum.run_describes)
  then have "cms_total s = (\<Sum>(y, c)\<leftarrow>ops. c)" by (simp add: cms_describes_def)
  with cms_get_bounds [OF s assms(1-3)] show ?thesis by simp
qed

theorem cms_estimate_sound_witness:
  "\<exists>m. cms_get length (foldl (\<lambda>s (x, c). cms_add length s x c) (cms_init 4 2)
      [(''a'', 1), (''bb'', 5), (''a'', 1)]) ''a'' = Some m \<and> 2 \<le> m \<and> m \<le> 7"
  using cms_estimate_sound [where w = 4 and d = 2 and digest = length and x = "''a''"
      and ops = "[(''a'', 1), (''bb'', 5), (''a'', 1)]"]
  by (auto simp: weight_def cms_add_def cms_init_def)

subsection \<open>Entropy\<close>

lemma plogp_0 [simp]: "plogp 0 = 0"
  by (simp add: plogp_def)

lemma plogp_nonpos: "0 \<le> p \<Longrightarrow> p \<le> 1 \<Longrightarrow> plogp p \<le> 0"
  by (cases "p = 0") (auto simp: plogp_def mult_le_0_iff)

lemma entropy_merge_cell:
  assumes "finite B" and pos: "\<And>x. x \<in> B \<Longrightarrow> 0 < p x"
  shows "(\<Sum>x\<in>B. plogp (p x)) \<le> plogp (\<Sum>x\<in>B. p x)"
proof -
  have "plogp (p x) \<le> p x * log 2 (\<Sum>x\<in>B. p x)" if "x \<in> B" for x
  proof -
    have "p x \<le> (\<Sum>x\<in>B. p x)"
      using assms that by (intro member_le_sum) (auto intro: less_imp_le)
    with pos [OF that] show ?thesis by (simp add: plogp_def)
  qed
  then have "(\<Sum>x\<in>B. plogp (p x)) \<le> (\<Sum>x\<in>B. p x * log 2 (\<Sum>x\<in>B. p x))"
    by (rule sum_mono)
  then show ?thesis by (simp add: plogp_def sum_distrib_right)
qed

text \<open>Merging outcomes (here: items that share a cell) can only lose entropy.\<close>

lemma entropy_merge:
  assumes "finite A" "finite J" "h ` A \<subseteq> J" and "\<And>x. x \<in> A \<Longrightarrow> 0 < p x"
  shows "(\<Sum>x\<in>A. plogp (p x)) \<le> (\<Sum>j\<in>J. plogp (\<Sum>x\<in>{x\<in>A. h x = j}. p x))"
proof -
  have "(\<Sum>x\<in>A. plogp (p x)) = (\<Sum>j\<in>J. \<Sum>x\<in>{x\<in>A. h x = j}. plogp (p x))"
    using assms(1-3) by (rule sum.group [symmetric])
  also have "\<dots> \<le> (\<Sum>j\<in>J. plogp (\<Sum>x\<in>{x\<in>A. h x = j}. p x))"
    using assms by (intro sum_mono entropy_merge_cell) auto
  finally show ?thesis .
qed

lemma entropy_le_log_card:
  assumes "finite J" "J \<noteq> {}" and nn: "\<And>j. j \<in> J \<Longrightarrow> 0 \<le> p j" and one: "(\<Sum>j\<in>J. p j) = 1"
  shows "- (\<Sum>j\<in>J. plogp (p j)) \<le> log 2 (real (card J))"
proof -
  define k where "k = real (card J)"
  have k: "0 < k" using assms(1,2) by (simp add: k_def card_gt_0_iff)
  have term_le: "- (p j * ln (p j)) - p j * ln k \<le> 1 / k - p j" if "j \<in> J" for j
  proof (cases "p j = 0")
    case True
    with k show ?thesis by simp
  next
    case False
    with nn [OF that] have p: "0 < p j" by simp
    have "ln (1 / (p j * k)) \<le> 1 / (p j * k) - 1"
      using p k by (intro ln_le_minus_one) simp
    then have "p j * ln (1 / (p j * k)) \<le> p j * (1 / (p j * k) - 1)"
      using p by (intro mult_left_mono) auto
    with p k show ?thesis by (simp add: ln_div ln_mult right_diff_distrib algebra_simps)
  qed
  have "(\<Sum>j\<in>J. - (p j * ln (p j)) - p j * ln k) \<le> (\<Sum>j\<in>J. 1 / k - p j)"
    by (rule sum_mono) (rule term_le)
  also have "\<dots> = 0" using k one by (simp add: sum_subtractf k_def)
  also have "(\<Sum>j\<in>J. - (p j * ln (p j)) - p j * ln k) = - (\<Sum>j\<in>J. p j * ln (p j)) - ln k"
    using one by (simp add: sum_subtractf sum_negf flip: sum_distrib_right)
  finally have "- (\<Sum>j\<in>J. p j * ln (p j)) \<le> ln k" by simp
  then have "- (\<Sum>j\<in>J. p j * ln (p j)) / ln 2 \<le> ln k / ln 2" by (rule divide_right_mono) simp
  then show ?thesis by (simp add: plogp_def log_def k_def sum_divide_distrib)
qed

text \<open>The Shannon entropy of the items of a stream, in bits.\<close>

definition stream_entropy :: "'a list \<Rightarrow> real" where
  "stream_entropy xs = - (\<Sum>x\<in>set xs. plogp (real (count_list xs x) / real (length xs)))"

lemma count_list_filter: "count_list (filter P xs) x = (if P x then count_list xs x else 0)"
  by (induction xs) auto

lemma length_filter_by_value:
  "real (length (filter P xs)) = (\<Sum>x\<in>{x\<in>set xs. P x}. real (count_list xs x))"
proof -
  have "length (filter P xs) = (\<Sum>x\<in>{x\<in>set xs. P x}. count_list (filter P xs) x)"
    by (rule sum_count_set [symmetric]) auto
  also have "\<dots> = (\<Sum>x\<in>{x\<in>set xs. P x}. count_list xs x)"
    by (rule sum.cong) (auto simp: count_list_filter)
  finally show ?thesis by simp
qed

lemma cell_weight_units:
  "cell_weight h j (map (\<lambda>x. (x, 1)) xs) = int (length (filter (\<lambda>x. h x = j) xs))"
  by (induction xs) (simp_all add: cell_weight_def)

lemma approximate_entropy_sum:
  assumes s: "cms_describes digest w d s (map (\<lambda>x. (x, 1)) xs)" and "0 < d" and "xs \<noteq> []"
  shows "approximate_entropy s
    = - (\<Sum>j<w. plogp (real (length (filter (\<lambda>x. cms_hash digest w x 0 = j) xs)) / real (length xs)))"
proof -
  define n where "n = real (length xs)"
  have total: "real_of_int (cms_total s) = n"
    using s by (simp add: cms_describes_def n_def comp_def sum_list_triv)
  have len: "length (cms_table s ! 0) = w"
    and row: "\<And>j. j < w \<Longrightarrow> cms_table s ! 0 ! j = int (length (filter (\<lambda>x. cms_hash digest w x 0 = j) xs))"
    using s \<open>0 < d\<close> by (simp_all add: cms_describes_def cell_weight_units)
  have nonneg: "\<forall>c\<in>set (cms_table s ! 0). 0 \<le> c"
    using len row by (auto simp: in_set_conv_nth)
  have "foldl (\<lambda>e c. if 0 < c then e - plogp (real_of_int c / n) else e) 0 (cms_table s ! 0)
      = foldl (\<lambda>e c. e - plogp (real_of_int c / n)) 0 (cms_table s ! 0)"
    using nonneg by (intro foldl_cong) (auto simp: order_le_less)
  also have "\<dots> = - (\<Sum>c\<leftarrow>cms_table s ! 0. plogp (real_of_int c / n))"
    by (simp add: foldl_minus_init)
  also have "\<dots> = - (\<Sum>j<w. plogp (real_of_int (cms_table s ! 0 ! j) / n))"
    by (simp add: sum_list_sum_nth len atLeast0LessThan)
  also have "\<dots> = - (\<Sum>j<w. plogp (real (length (filter (\<lambda>x. cms_hash digest w x 0 = j) xs)) / n))"
    using row by simp
  finally have "foldl (\<lambda>e c. if 0 < c then e - plogp (real_of_int c / n) else e) 0 (cms_table s ! 0)
      = - (\<Sum>j<w. plogp (real (length (filter (\<lambda>x. cms_hash digest w x 0 = j) xs)) / n))" .
  moreover have "cms_total s \<noteq> 0" using total \<open>xs \<noteq> []\<close> by (auto simp: n_def)
  ultimately show ?thesis
    unfolding approximate_entropy_def total by (simp add: n_def)
qed

lemma count_list_pos: "x \<in> set xs \<Longrightarrow> 0 < count_list xs x"
  by (induction xs) auto

lemma approximate_entropy_bounds:
  assumes s: "cms_describes digest w d s (map (\<lambda>x. (x, 1)) xs)" and "0 < w" "0 < d" "xs \<noteq> []"
  shows "0 \<le> approximate_entropy s" and "approximate_entropy s \<le> stream_entropy xs"
    and "approximate_entropy s \<le> log 2 (real w)"
proof -
  define n where "n = real (length xs)"
  define h where "h = (\<lambda>x. cms_hash digest w x 0)"
  define p where "p = (\<lambda>j. real (length (filter (\<lambda>x. h x = j) xs)) / n)"
  have n: "0 < n" using \<open>xs \<noteq> []\<close> by (simp add: n_def)
  have hw: "h x < w" for x using \<open>0 < w\<close> by (simp add: h_def cms_hash_def)
  have e: "approximate_entropy s = - (\<Sum>j<w. plogp (p j))"
    using approximate_entropy_sum [OF s \<open>0 < d\<close> \<open>xs \<noteq> []\<close>] by (simp add: p_def h_def n_def)
  have p01: "0 \<le> p j \<and> p j \<le> 1" for j
    using n by (simp add: p_def n_def length_filter_le)
  have cell: "p j = (\<Sum>x\<in>{x\<in>set xs. h x = j}. real (count_list xs x) / n)" for j
    by (simp add: p_def length_filter_by_value sum_divide_distrib)
  have one: "(\<Sum>j<w. p j) = 1"
  proof -
    have "(\<Sum>j<w. p j) = (\<Sum>x\<in>set xs. real (count_list xs x) / n)"
      unfolding cell using hw by (intro sum.group) auto
    also have "\<dots> = real (\<Sum>x\<in>set xs. count_list xs x) / n" by (simp add: sum_divide_distrib)
    also have "\<dots> = 1" using n sum_count_set [of xs "set xs"] by (simp add: n_def)
    finally show ?thesis .
  qed
  show "0 \<le> approximate_entropy s"
    unfolding e using p01 by (simp add: sum_nonpos plogp_nonpos)
  show "approximate_entropy s \<le> stream_entropy xs"
    unfolding e stream_entropy_def cell n_def [symmetric]
    using entropy_merge [of "set xs" "{..<w}" h "\<lambda>x. real (count_list xs x) / n"] hw n
    by (auto simp: count_list_pos)
  show "approximate_entropy s \<le> log 2 (real w)"
    unfolding e using entropy_le_log_card [of "{..<w}" p] p01 one \<open>0 < w\<close> by auto
qed

lemma cms_run_units:
  "cms_describes digest w d (foldl (\<lambda>s x. cms_add digest s x 1) (cms_init w d) xs) (map (\<lambda>x. (x, 1)) xs)"
  using cms_sum.run_describes [of digest w d "map (\<lambda>x. (x, 1)) xs"]
  by (simp add: foldl_map case_prod_beta comp_def)

text \<open>
  \<open>approximate_entropy\<close> of a sketch fed one unit per item is a lower bound of the
  Shannon entropy of the stream, for every digest: it is non-negative, at most the entropy
  of the items, and at most \<open>log 2 width\<close>.
\<close>

theorem approximate_entropy_lower_bound:
  fixes digest :: "string \<Rightarrow> nat"
  assumes "0 < w" and "0 < d" and "xs \<noteq> []"
  defines "s \<equiv> foldl (\<lambda>s x. cms_add digest s x 1) (cms_init w d) xs"
  shows "0 \<le> approximate_entropy s \<and> approximate_entropy s \<le> stream_entropy xs
    \<and> approximate_entropy s \<le> log 2 (real w)"
  using approximate_entropy_bounds [OF cms_run_units assms(1-3)] by (simp add: s_def)

theorem approximate_entropy_lower_bound_witness:
  "approximate_entropy (foldl (\<lambda>s x. cms_add length s x 1) (cms_init 1024 4) [''a'', ''bb''])
     \<le> log 2 1024"
  using approximate_entropy_lower_bound [where w = 1024 and d = 4 and digest = length
      and xs = "[''a'', ''bb'']"] by simp

lemma stream_entropy_distinct:
  assumes "distinct xs" "xs \<noteq> []"
  shows "stream_entropy xs = log 2 (real (length xs))"
proof -
  have c: "count_list xs x = 1" if "x \<in> set xs" for x
    using assms(1) that by (induction xs) auto
  have "(\<Sum>x\<in>set xs. plogp (real (count_list xs x) / real (length xs)))
      = real (card (set xs)) * plogp (1 / real (length xs))"
    using c by simp
  also have "\<dots> = - log 2 (real (length xs))"
    using assms by (simp add: distinct_card plogp_def log_divide)
  finally show ?thesis by (simp add: stream_entropy_def)
qed

text \<open>
  The docstring calls the value an upper-bound approximation. It is not, for any digest:
  as soon as the stream has more distinct items than the sketch has columns, the
  reported entropy is strictly below the true one.
\<close>

theorem approximate_entropy_not_upper_bound:
  fixes digest :: "string \<Rightarrow> nat"
  assumes "0 < w" and "0 < d" and "distinct xs" and "w < length xs"
  shows "approximate_entropy (foldl (\<lambda>s x. cms_add digest s x 1) (cms_init w d) xs) < stream_entropy xs"
proof -
  have "xs \<noteq> []" using assms(4) by auto
  have "log 2 (real w) < log 2 (real (length xs))" using assms(1,4) \<open>xs \<noteq> []\<close> by simp
  then have "log 2 (real w) < stream_entropy xs"
    by (simp only: stream_entropy_distinct [OF assms(3) \<open>xs \<noteq> []\<close>])
  with approximate_entropy_bounds(3) [OF cms_run_units assms(1,2) \<open>xs \<noteq> []\<close>]
  show ?thesis by (rule le_less_trans)
qed

theorem approximate_entropy_not_upper_bound_witness:
  "approximate_entropy (foldl (\<lambda>s x. cms_add length s x 1) (cms_init 2 1) [''a'', ''b'', ''c''])
     < stream_entropy [''a'', ''b'', ''c'']"
  using approximate_entropy_not_upper_bound [where w = 2 and d = 1 and digest = length
      and xs = "[''a'', ''b'', ''c'']"] by simp

section \<open>EWMA\<close>

record ewma =
  ew_alpha :: real
  ew_value :: "real option"

definition ewma_init :: "real \<Rightarrow> ewma" where
  "ewma_init alpha = \<lparr>ew_alpha = alpha, ew_value = None\<rparr>"

text \<open>\<^verbatim>\<open>update\<close> also returns the new value; no caller uses it, and \<open>ewma_get\<close> reads it.\<close>

definition ewma_update :: "ewma \<Rightarrow> real \<Rightarrow> ewma" where
  "ewma_update s v =
     s\<lparr>ew_value := Some (case ew_value s of None \<Rightarrow> v
         | Some old \<Rightarrow> ew_alpha s * v + (1 - ew_alpha s) * old)\<rparr>"

definition ewma_get :: "ewma \<Rightarrow> real" where
  "ewma_get s = (case ew_value s of None \<Rightarrow> 0 | Some v \<Rightarrow> v)"

text \<open>The value as a weighted sum of the stream: the first observation is the seed.\<close>

fun ewma_of :: "real \<Rightarrow> real list \<Rightarrow> real" where
  "ewma_of a [] = 0"
| "ewma_of a (x # xs) =
     (1 - a) ^ length xs * x + (\<Sum>i<length xs. a * (1 - a) ^ (length xs - 1 - i) * xs ! i)"

definition ewma_describes :: "real \<Rightarrow> ewma \<Rightarrow> real list \<Rightarrow> bool" where
  "ewma_describes a s xs \<longleftrightarrow>
     ew_alpha s = a \<and> ew_value s = (if xs = [] then None else Some (ewma_of a xs))"

lemma ewma_of_snoc: "xs \<noteq> [] \<Longrightarrow> ewma_of a (xs @ [v]) = a * v + (1 - a) * ewma_of a xs"
proof (cases xs)
  case (Cons y ys)
  have "(\<Sum>i<length ys. a * (1 - a) ^ (length ys - i) * ys ! i)
      = (1 - a) * (\<Sum>i<length ys. a * (1 - a) ^ (length ys - 1 - i) * ys ! i)"
    unfolding sum_distrib_left
  proof (rule sum.cong [OF refl])
    fix i assume "i \<in> {..<length ys}"
    then have "length ys - i = Suc (length ys - 1 - i)" by auto
    then show "a * (1 - a) ^ (length ys - i) * ys ! i
        = (1 - a) * (a * (1 - a) ^ (length ys - 1 - i) * ys ! i)" by simp
  qed
  moreover have "(\<Sum>i<length ys. a * (1 - a) ^ (length ys - i) * (ys @ [v]) ! i)
      = (\<Sum>i<length ys. a * (1 - a) ^ (length ys - i) * ys ! i)"
    by (rule sum.cong) (auto simp: nth_append)
  ultimately show ?thesis
    using Cons by (simp add: algebra_simps)
qed simp

lemma ewma_start: "ewma_describes a (ewma_init a) []"
  by (simp add: ewma_describes_def ewma_init_def)

lemma ewma_step: "ewma_describes a s xs \<Longrightarrow> ewma_describes a (ewma_update s x) (xs @ [x])"
  by (auto simp: ewma_describes_def ewma_update_def ewma_of_snoc)

interpretation ewma_sum: stream_summary "ewma_init a" ewma_update "ewma_describes a" for a
  by unfold_locales (fact ewma_start ewma_step)+

lemma ewma_get_in_range:
  assumes "0 \<le> ew_alpha s" "ew_alpha s \<le> 1" "lo \<le> v" "v \<le> hi"
    and "\<And>x. ew_value s = Some x \<Longrightarrow> lo \<le> x \<and> x \<le> hi"
  shows "ew_value (ewma_update s v) = Some y \<Longrightarrow> lo \<le> y \<and> y \<le> hi"
proof (cases "ew_value s")
  case None
  then show "ew_value (ewma_update s v) = Some y \<Longrightarrow> lo \<le> y \<and> y \<le> hi"
    using assms by (simp add: ewma_update_def)
next
  case (Some x)
  let ?a = "ew_alpha s"
  have x: "lo \<le> x" "x \<le> hi" using assms(5) [OF Some] by auto
  have "?a * lo + (1 - ?a) * lo \<le> ?a * v + (1 - ?a) * x"
    using assms x by (intro add_mono mult_left_mono) auto
  moreover have "?a * v + (1 - ?a) * x \<le> ?a * hi + (1 - ?a) * hi"
    using assms x by (intro add_mono mult_left_mono) auto
  ultimately show "ew_value (ewma_update s v) = Some y \<Longrightarrow> lo \<le> y \<and> y \<le> hi"
    using Some by (simp add: ewma_update_def algebra_simps)
qed

lemma ewma_run_in_range:
  assumes "0 \<le> a" "a \<le> 1" "\<forall>x\<in>set xs. lo \<le> x \<and> x \<le> hi"
  defines "s \<equiv> foldl ewma_update (ewma_init a) xs"
  shows "ew_value s = Some y \<Longrightarrow> lo \<le> y \<and> y \<le> hi"
proof -
  have "ew_alpha s = a \<and> (\<forall>y. ew_value s = Some y \<longrightarrow> lo \<le> y \<and> y \<le> hi)"
    unfolding s_def
  proof (rule foldl_invariant)
    show "ew_alpha (ewma_init a) = a \<and> (\<forall>y. ew_value (ewma_init a) = Some y \<longrightarrow> lo \<le> y \<and> y \<le> hi)"
      by (simp add: ewma_init_def)
    fix s :: ewma and x
    assume s: "ew_alpha s = a \<and> (\<forall>y. ew_value s = Some y \<longrightarrow> lo \<le> y \<and> y \<le> hi)" and "x \<in> set xs"
    then show "ew_alpha (ewma_update s x) = a
        \<and> (\<forall>y. ew_value (ewma_update s x) = Some y \<longrightarrow> lo \<le> y \<and> y \<le> hi)"
      using ewma_get_in_range [of s lo x hi] assms by (auto simp: ewma_update_def)
  qed
  then show "ew_value s = Some y \<Longrightarrow> lo \<le> y \<and> y \<le> hi" by blast
qed

text \<open>
  The moving average is the exponentially weighted sum of the stream with the first
  observation as its seed, and for a smoothing factor in \<open>[0, 1]\<close> it never leaves the range
  of the observations.
\<close>

theorem ewma_weighted_and_bounded:
  assumes "0 \<le> a" and "a \<le> 1" and "xs \<noteq> []" and "\<forall>x\<in>set xs. lo \<le> x \<and> x \<le> hi"
  shows "ewma_get (foldl ewma_update (ewma_init a) xs) = ewma_of a xs
    \<and> lo \<le> ewma_of a xs \<and> ewma_of a xs \<le> hi"
proof -
  have v: "ew_value (foldl ewma_update (ewma_init a) xs) = Some (ewma_of a xs)"
    using ewma_sum.run_describes [of a xs] assms(3) by (simp add: ewma_describes_def)
  with ewma_run_in_range [OF assms(1,2,4) v] show ?thesis by (simp add: ewma_get_def)
qed

theorem ewma_weighted_and_bounded_witness:
  "ewma_get (foldl ewma_update (ewma_init (1 / 10)) [10, 20, 30]) = 129 / 10"
  using ewma_weighted_and_bounded [of "1 / 10" "[10, 20, 30]" 10 30]
  by (simp add: lessThan_Suc numeral_2_eq_2)

end
