(* ===== verification/Features.thy ===== *)
theory Features
  imports OnlineStats Parsers
begin

text \<open>
  The seven feature extractors of \<^verbatim>\<open>features/*_features.py\<close>: DDoS, beaconing, DGA/DNS,
  DNS exfiltration, encrypted-traffic metadata, exfiltration and reconnaissance. Each is a
  record of its fields, an initial state, \<open>update\<close> and \<open>extract\<close>, and for DDoS and
  beaconing the sweep of stale entries, whose common contract is the locale \<open>stale_sweep\<close>.

  Feature vectors are dictionaries from feature name to number. The encrypted-traffic
  vector holds lists as well and has a record of its own; an absent key is \<open>None\<close>.
\<close>

type_synonym fvec = "(string, real) dict"

record enc_features =
  ef_packet_sizes :: "real list option"
  ef_packet_ipts :: "real list option"
  ef_sni_length_ewma :: "real option"

section \<open>Sweeping stale entries\<close>

locale stale_sweep =
  fixes entries :: "'s \<Rightarrow> (string, 'v) dict"
    and seen :: "'v \<Rightarrow> real"
    and sweep :: "'s \<Rightarrow> real \<Rightarrow> real \<Rightarrow> 's"
  assumes sweep_exact: "dict_wf (entries s) \<Longrightarrow>
    entries (sweep s now ttl) = filter (\<lambda>(k, v). \<not> ttl < now - seen v) (entries s)"
begin

lemma sweep_wf: "dict_wf (entries s) \<Longrightarrow> dict_wf (entries (sweep s now ttl))"
  by (simp add: sweep_exact)

lemma sweep_keeps_fresh:
  assumes "dict_wf (entries s)" and "map_of (entries s) k = Some v" and "now - seen v \<le> ttl"
  shows "map_of (entries (sweep s now ttl)) k = Some v"
proof -
  have "(k, v) \<in> set (entries (sweep s now ttl))"
    using assms map_of_SomeD [OF assms(2)] by (simp add: sweep_exact)
  moreover have "distinct (map fst (entries (sweep s now ttl)))"
    using sweep_wf [OF assms(1)] by (simp add: dict_wf_def)
  ultimately show ?thesis by simp
qed

lemma sweep_removes_stale:
  "dict_wf (entries s) \<Longrightarrow> (k, v) \<in> set (entries (sweep s now ttl)) \<Longrightarrow> now - seen v \<le> ttl"
  by (auto simp: sweep_exact)

lemma sweep_shrinks: "dict_wf (entries s) \<Longrightarrow> length (entries (sweep s now ttl)) \<le> length (entries s)"
  by (simp add: sweep_exact)

end

definition del_keys :: "'k list \<Rightarrow> ('k, 'v) dict \<Rightarrow> ('k, 'v) dict" where
  "del_keys ks d = foldl (\<lambda>d k. dict_del k d) d ks"

definition stale_keys :: "('v \<Rightarrow> real) \<Rightarrow> real \<Rightarrow> real \<Rightarrow> ('k, 'v) dict \<Rightarrow> 'k list" where
  "stale_keys seen now ttl d = map fst (filter (\<lambda>(k, v). ttl < now - seen v) d)"

lemma del_keys_filter: "del_keys ks d = filter (\<lambda>p. fst p \<notin> set ks) d"
  unfolding del_keys_def by (induction ks arbitrary: d) (simp_all add: dict_del_def)

lemma del_keys_by_value:
  assumes "dict_wf d"
  shows "del_keys (map fst (filter P d)) d = filter (\<lambda>p. \<not> P p) d"
proof -
  have "inj_on fst (set d)" using assms by (simp add: dict_wf_def distinct_map)
  then have "fst p \<in> set (map fst (filter P d)) \<longleftrightarrow> P p" if "p \<in> set d" for p
    using that by (auto dest: inj_onD)
  then show ?thesis unfolding del_keys_filter by (intro filter_cong) auto
qed

lemma del_stale_keys:
  "dict_wf d \<Longrightarrow> del_keys (stale_keys seen now ttl d) d = filter (\<lambda>(k, v). \<not> ttl < now - seen v) d"
  unfolding stale_keys_def by (subst del_keys_by_value) (auto intro: filter_cong)

section \<open>DDoS features\<close>

record dst_stat =
  pkt_ewma :: ewma
  byte_ewma :: ewma
  ds_last_time :: real

record ddos_features =
  src_ip_entropy_cms :: cms
  dst_state :: "(string, dst_stat) dict"
  dd_syn_count :: int
  dd_syn_ack_count :: int
  amp_req_bytes :: int
  amp_res_bytes :: int

definition ddos_init :: ddos_features where
  "ddos_init = \<lparr>src_ip_entropy_cms = cms_init 1024 4, dst_state = [], dd_syn_count = 0,
     dd_syn_ack_count = 0, amp_req_bytes = 0, amp_res_bytes = 0\<rparr>"

definition dst_stat_update :: "dst_stat option \<Rightarrow> packet_meta \<Rightarrow> real \<Rightarrow> dst_stat" where
  "dst_stat_update old meta now =
     (let st = (case old of
                  None \<Rightarrow> \<lparr>pkt_ewma = ewma_init (2 / 10), byte_ewma = ewma_init (2 / 10), ds_last_time = now\<rparr>
                | Some st \<Rightarrow> st\<lparr>ds_last_time := now\<rparr>);
          pkts = opt_get (orig_pkts meta) 1
      in st\<lparr>pkt_ewma := ewma_update (pkt_ewma st) (real_of_int pkts),
            byte_ewma := ewma_update (byte_ewma st) (real_of_int (opt_get (ip_len meta) 0))\<rparr>)"

definition ddos_count_syn :: "ddos_features \<Rightarrow> packet_meta \<Rightarrow> ddos_features" where
  "ddos_count_syn s meta =
     (if protocol meta = Some ''TCP'' then
        (let flags = opt_get (tcp_flags meta) 0
         in if flags = 2 then s\<lparr>dd_syn_count := dd_syn_count s + 1\<rparr>
            else if flags = 18 then s\<lparr>dd_syn_ack_count := dd_syn_ack_count s + 1\<rparr>
            else s)
      else s)"

definition ddos_count_amp :: "ddos_features \<Rightarrow> packet_meta \<Rightarrow> ddos_features" where
  "ddos_count_amp s meta =
     (if protocol meta = Some ''UDP'' then
        (if dst_port meta = 53 then s\<lparr>amp_req_bytes := amp_req_bytes s + opt_get (ip_len meta) 0\<rparr>
         else if src_port meta = 53 then s\<lparr>amp_res_bytes := amp_res_bytes s + opt_get (ip_len meta) 0\<rparr>
         else s)
      else s)"

definition ddos_update ::
    "(string \<Rightarrow> nat) \<Rightarrow> ddos_features \<Rightarrow> packet_meta \<Rightarrow> real \<Rightarrow> ddos_features" where
  "ddos_update digest s meta now =
     (let s = s\<lparr>src_ip_entropy_cms := cms_add digest (src_ip_entropy_cms s) (src_ip meta) 1\<rparr>;
          dst = dst_ip meta;
          s = s\<lparr>dst_state := dict_set dst (dst_stat_update (map_of (dst_state s) dst) meta now) (dst_state s)\<rparr>
      in ddos_count_amp (ddos_count_syn s meta) meta)"

definition ddos_extract :: "ddos_features \<Rightarrow> string \<Rightarrow> fvec" where
  "ddos_extract s dst =
     (let syn_ratio = real_of_int (dd_syn_count s) / real_of_int (max 1 (dd_syn_ack_count s));
          amp_ratio = real_of_int (amp_res_bytes s) / real_of_int (max 1 (amp_req_bytes s));
          state = map_of (dst_state s) dst;
          pkt_rate = (case state of None \<Rightarrow> 0 | Some st \<Rightarrow> ewma_get (pkt_ewma st));
          byte_rate = (case state of None \<Rightarrow> 0 | Some st \<Rightarrow> ewma_get (byte_ewma st))
      in [(''src_ip_entropy'', approximate_entropy (src_ip_entropy_cms s)),
          (''dst_pkt_ewma'', pkt_rate), (''dst_byte_ewma'', byte_rate),
          (''syn_synack_ratio'', syn_ratio), (''amp_byte_ratio'', amp_ratio)])"

definition ddos_reset_window_counters :: "ddos_features \<Rightarrow> ddos_features" where
  "ddos_reset_window_counters s =
     s\<lparr>dd_syn_count := 0, dd_syn_ack_count := 0, amp_req_bytes := 0, amp_res_bytes := 0\<rparr>"

definition ddos_sweep_stale_state :: "ddos_features \<Rightarrow> real \<Rightarrow> real \<Rightarrow> ddos_features" where
  "ddos_sweep_stale_state s now ttl =
     s\<lparr>dst_state := del_keys (stale_keys ds_last_time now ttl (dst_state s)) (dst_state s)\<rparr>"

interpretation ddos_sweep: stale_sweep dst_state ds_last_time ddos_sweep_stale_state
  by unfold_locales (simp add: ddos_sweep_stale_state_def del_stale_keys)

section \<open>Beaconing features\<close>

record iat_stat =
  ia_last_time :: real
  ia_welford :: welford

record beaconing_features =
  flow_iats :: "(string, iat_stat) dict"
  dst_fan_in_cms :: cms

definition beaconing_init :: beaconing_features where
  "beaconing_init = \<lparr>flow_iats = [], dst_fan_in_cms = cms_init 512 3\<rparr>"

definition pair_key :: "string \<Rightarrow> string \<Rightarrow> string" where
  "pair_key src dst = src @ ''->'' @ dst"

definition iat_stat_update :: "iat_stat option \<Rightarrow> real \<Rightarrow> iat_stat" where
  "iat_stat_update old now =
     (case old of
        None \<Rightarrow> \<lparr>ia_last_time = now, ia_welford = welford_init\<rparr>
      | Some st \<Rightarrow>
          (let iat = now - ia_last_time st
           in \<lparr>ia_last_time = now,
               ia_welford = (if 0 < iat then welford_update (ia_welford st) iat else ia_welford st)\<rparr>))"

definition beaconing_update ::
    "(string \<Rightarrow> nat) \<Rightarrow> beaconing_features \<Rightarrow> packet_meta \<Rightarrow> real \<Rightarrow> beaconing_features" where
  "beaconing_update digest s meta now =
     (let pair = pair_key (src_ip meta) (dst_ip meta)
      in s\<lparr>flow_iats := dict_set pair (iat_stat_update (map_of (flow_iats s) pair) now) (flow_iats s),
           dst_fan_in_cms := cms_add digest (dst_fan_in_cms s) (dst_ip meta) 1\<rparr>)"

text \<open>
  The sketch has three rows, so \<open>cms_get\<close> never returns the infinity it starts from
  (lemma \<open>beaconing_fan_in_finite\<close> below); the branch for it is never taken.
\<close>

definition beaconing_extract ::
    "(string \<Rightarrow> nat) \<Rightarrow> beaconing_features \<Rightarrow> string \<Rightarrow> string \<Rightarrow> fvec" where
  "beaconing_extract digest s src dst =
     (let (mean_iat, cv) =
        (case map_of (flow_iats s) (pair_key src dst) of
           None \<Rightarrow> (0, 0)
         | Some stat \<Rightarrow>
             (if 1 < w_count (ia_welford stat) then
                (let mean_iat = w_mean (ia_welford stat); stddev = get_stddev (ia_welford stat)
                 in (mean_iat, if 0 < mean_iat then stddev / mean_iat else 0))
              else (0, 0)));
          fan_in = (case cms_get digest (dst_fan_in_cms s) dst of None \<Rightarrow> 0 | Some c \<Rightarrow> real_of_int c)
      in [(''mean_iat'', mean_iat), (''iat_cv'', cv), (''dst_fan_in'', fan_in)])"

definition beaconing_sweep_stale_state :: "beaconing_features \<Rightarrow> real \<Rightarrow> real \<Rightarrow> beaconing_features" where
  "beaconing_sweep_stale_state s now ttl =
     s\<lparr>flow_iats := del_keys (stale_keys ia_last_time now ttl (flow_iats s)) (flow_iats s)\<rparr>"

interpretation beaconing_sweep: stale_sweep flow_iats ia_last_time beaconing_sweep_stale_state
  by unfold_locales (simp add: beaconing_sweep_stale_state_def del_stale_keys)

section \<open>DGA and DNS features\<close>

definition char_freqs :: "string \<Rightarrow> (char, int) dict" where
  "char_freqs s = foldl (\<lambda>freqs c. dict_set c (dict_get freqs c 0 + 1) freqs) [] s"

definition shannon_entropy :: "string \<Rightarrow> real" where
  "shannon_entropy s =
     (if s = [] then 0
      else foldl (\<lambda>ent count. ent - plogp (real_of_int count / real (length s))) 0
             (map snd (char_freqs s)))"

record dga_features =
  nxdomain_ewma :: ewma
  query_length_ewma :: ewma
  query_entropy_ewma :: ewma

definition dga_init :: dga_features where
  "dga_init = \<lparr>nxdomain_ewma = ewma_init (1 / 10), query_length_ewma = ewma_init (1 / 10),
     query_entropy_ewma = ewma_init (1 / 10)\<rparr>"

definition dga_query :: "dga_features \<Rightarrow> dns_query \<Rightarrow> dga_features" where
  "dga_query s q =
     (let name = opt_get (q_name q) []
      in if name = [] then s
         else s\<lparr>query_length_ewma := ewma_update (query_length_ewma s) (real (length name)),
                query_entropy_ewma := ewma_update (query_entropy_ewma s) (shannon_entropy name)\<rparr>)"

definition dga_update :: "dga_features \<Rightarrow> dns_parsed option \<Rightarrow> dga_features" where
  "dga_update s dns =
     (case dns of None \<Rightarrow> s
      | Some d \<Rightarrow>
          (let s = foldl dga_query s (queries d);
               is_nxdomain = opt_get (nxdomain d) False
           in s\<lparr>nxdomain_ewma := ewma_update (nxdomain_ewma s) (if is_nxdomain then 1 else 0)\<rparr>))"

definition dga_extract :: "dga_features \<Rightarrow> fvec" where
  "dga_extract s =
     [(''avg_query_length'', ewma_get (query_length_ewma s)),
      (''avg_query_entropy'', ewma_get (query_entropy_ewma s)),
      (''nxdomain_rate'', ewma_get (nxdomain_ewma s))]"

section \<open>DNS exfiltration features\<close>

record dns_exfil_features =
  txt_cname_queries :: int
  total_query_len :: int
  total_entropy :: real

definition dns_exfil_init :: dns_exfil_features where
  "dns_exfil_init = \<lparr>txt_cname_queries = 0, total_query_len = 0, total_entropy = 0\<rparr>"

text \<open>\<^verbatim>\<open>dict.fromkeys(list(s))\<close>: the distinct characters in order of first occurrence.\<close>

definition fromkeys :: "'a list \<Rightarrow> 'a list" where
  "fromkeys s = foldl (\<lambda>d c. if c \<in> set d then d else d @ [c]) [] s"

definition exfil_entropy :: "string \<Rightarrow> real" where
  "exfil_entropy s =
     (if s = [] then 0
      else (let prob = map (\<lambda>c. real (count_list s c) / real (length s)) (fromkeys s)
            in - (\<Sum>p\<leftarrow>prob. p * log 2 p)))"

definition txt_or_cname :: "qtype option \<Rightarrow> bool" where
  "txt_or_cname t \<longleftrightarrow>
     (case t of None \<Rightarrow> False | Some q \<Rightarrow> q \<in> set [QInt 16, QInt 5, QStr ''TXT'', QStr ''CNAME''])"

definition dns_exfil_query :: "dns_exfil_features \<Rightarrow> dns_query \<Rightarrow> dns_exfil_features" where
  "dns_exfil_query s q =
     (if txt_or_cname (q_type q) then
        (let qname = opt_get (q_name q) []
         in \<lparr>txt_cname_queries = txt_cname_queries s + 1,
             total_query_len = total_query_len s + int (length qname),
             total_entropy = total_entropy s + exfil_entropy qname\<rparr>)
      else s)"

definition dns_exfil_update ::
    "dns_exfil_features \<Rightarrow> dns_parsed option \<Rightarrow> bool \<Rightarrow> dns_exfil_features" where
  "dns_exfil_update s dns is_new_minute =
     (let s = (if is_new_minute then dns_exfil_init else s)
      in case dns of None \<Rightarrow> s | Some d \<Rightarrow> foldl dns_exfil_query s (queries d))"

definition dns_exfil_extract :: "dns_exfil_features \<Rightarrow> fvec" where
  "dns_exfil_extract s =
     (let (avg_len, avg_ent) =
        (if 0 < txt_cname_queries s
         then (real_of_int (total_query_len s) / real_of_int (txt_cname_queries s),
               total_entropy s / real_of_int (txt_cname_queries s))
         else (0, 0))
      in [(''txt_cname_rate'', real_of_int (txt_cname_queries s)),
          (''txt_cname_avg_len'', avg_len), (''txt_cname_avg_entropy'', avg_ent)])"

section \<open>Encrypted-traffic metadata\<close>

record encrypted_features =
  packet_sizes :: "int list"
  packet_timings :: "real list"
  max_packet_history :: nat
  sni_entropy_ewma :: ewma

definition encrypted_init :: "nat \<Rightarrow> encrypted_features" where
  "encrypted_init mx = \<lparr>packet_sizes = [], packet_timings = [], max_packet_history = mx,
     sni_entropy_ewma = ewma_init (2 / 10)\<rparr>"

definition encrypted_update ::
    "encrypted_features \<Rightarrow> packet_meta \<Rightarrow> tls_parsed option \<Rightarrow> real \<Rightarrow> encrypted_features" where
  "encrypted_update s meta tls now =
     (let s = (if length (packet_sizes s) < max_packet_history s
               then s\<lparr>packet_sizes := packet_sizes s @ [opt_get (ip_len meta) 0],
                      packet_timings := packet_timings s @ [now]\<rparr>
               else s)
      in case tls of None \<Rightarrow> s
         | Some t \<Rightarrow>
             (case sni t of None \<Rightarrow> s
              | Some n \<Rightarrow> if n = [] then s
                          else s\<lparr>sni_entropy_ewma := ewma_update (sni_entropy_ewma s) (real (length n))\<rparr>))"

definition gaps :: "real list \<Rightarrow> real list" where
  "gaps ts = map (\<lambda>i. ts ! i - ts ! (i - 1)) [1..<length ts]"

definition encrypted_extract :: "encrypted_features \<Rightarrow> enc_features" where
  "encrypted_extract s =
     \<lparr>ef_packet_sizes = Some (map real_of_int (packet_sizes s)),
      ef_packet_ipts = Some (gaps (packet_timings s)),
      ef_sni_length_ewma = Some (ewma_get (sni_entropy_ewma s))\<rparr>"

section \<open>Exfiltration features\<close>

record exfil_features =
  outbound_bytes_ewma :: ewma
  inbound_bytes_ewma :: ewma

definition exfil_init :: exfil_features where
  "exfil_init = \<lparr>outbound_bytes_ewma = ewma_init (1 / 10), inbound_bytes_ewma = ewma_init (1 / 10)\<rparr>"

definition exfil_update :: "exfil_features \<Rightarrow> packet_meta \<Rightarrow> bool \<Rightarrow> exfil_features" where
  "exfil_update s meta is_outbound =
     (let len = real_of_int (opt_get (ip_len meta) 0)
      in if is_outbound then s\<lparr>outbound_bytes_ewma := ewma_update (outbound_bytes_ewma s) len\<rparr>
         else s\<lparr>inbound_bytes_ewma := ewma_update (inbound_bytes_ewma s) len\<rparr>)"

definition exfil_extract :: "exfil_features \<Rightarrow> fvec" where
  "exfil_extract s =
     (let out_b = ewma_get (outbound_bytes_ewma s); in_b = ewma_get (inbound_bytes_ewma s)
      in [(''outbound_bytes_ewma'', out_b), (''inbound_bytes_ewma'', in_b),
          (''outbound_inbound_ratio'', out_b / max 1 in_b)])"

section \<open>Reconnaissance features\<close>

record recon_features =
  distinct_ports_cms :: cms
  distinct_hosts_cms :: cms
  rc_syn_count :: int
  total_tcp_count :: int

definition recon_init :: recon_features where
  "recon_init = \<lparr>distinct_ports_cms = cms_init 1024 4, distinct_hosts_cms = cms_init 1024 4,
     rc_syn_count = 0, total_tcp_count = 0\<rparr>"

definition recon_update :: "(string \<Rightarrow> nat) \<Rightarrow> recon_features \<Rightarrow> packet_meta \<Rightarrow> recon_features" where
  "recon_update digest s meta =
     (let s = s\<lparr>distinct_ports_cms := cms_add digest (distinct_ports_cms s)
                   (src_ip meta @ '':'' @ int_str (dst_port meta)) 1,
                distinct_hosts_cms := cms_add digest (distinct_hosts_cms s)
                   (src_ip meta @ '':'' @ dst_ip meta) 1\<rparr>
      in if protocol meta = Some ''TCP'' then
           s\<lparr>total_tcp_count := total_tcp_count s + 1,
             rc_syn_count := (if opt_get (tcp_flags meta) 0 = 2 then rc_syn_count s + 1 else rc_syn_count s)\<rparr>
         else s)"

definition recon_extract :: "recon_features \<Rightarrow> string \<Rightarrow> fvec" where
  "recon_extract s src =
     (let syn_ratio = real_of_int (rc_syn_count s) / real_of_int (max 1 (total_tcp_count s))
      in [(''syn_only_ratio'', syn_ratio),
          (''scan_activity_score'', syn_ratio * real_of_int (rc_syn_count s))])"

section \<open>The two entropy routines\<close>

lemma char_freqs_snoc: "char_freqs (s @ [c]) = dict_set c (dict_get (char_freqs s) c 0 + 1) (char_freqs s)"
  by (simp add: char_freqs_def)

lemma char_freqs_dict:
  "dict_wf (char_freqs s)
   \<and> map_of (char_freqs s) = (\<lambda>c. if c \<in> set s then Some (int (count_list s c)) else None)"
proof (induction s rule: rev_induct)
  case Nil
  then show ?case by (simp add: char_freqs_def fun_eq_iff)
next
  case (snoc c s)
  then show ?case
    by (auto simp: char_freqs_snoc map_of_dict_set dict_get_def fun_eq_iff)
qed

lemma fromkeys_snoc: "fromkeys (xs @ [x]) = (if x \<in> set (fromkeys xs) then fromkeys xs else fromkeys xs @ [x])"
  by (simp add: fromkeys_def)

lemma fromkeys_distinct_set: "distinct (fromkeys xs) \<and> set (fromkeys xs) = set xs"
proof (induction xs rule: rev_induct)
  case Nil
  then show ?case by (simp add: fromkeys_def)
next
  case (snoc x xs)
  then show ?case by (auto simp: fromkeys_snoc)
qed

lemma dict_sum_values:
  assumes "dict_wf d"
  shows "(\<Sum>v\<leftarrow>map snd d. f v) = (\<Sum>k\<in>fst ` set d. f (the (map_of d k)) :: real)"
proof -
  have "(\<Sum>v\<leftarrow>map snd d. f v) = (\<Sum>p\<leftarrow>d. f (the (map_of d (fst p))))"
    using assms by (intro arg_cong [where f = sum_list])
      (auto simp: dict_wf_def comp_def intro!: map_cong)
  also have "\<dots> = (\<Sum>k\<leftarrow>map fst d. f (the (map_of d k)))"
    by (simp add: comp_def)
  also have "\<dots> = (\<Sum>k\<in>set (map fst d). f (the (map_of d k)))"
    using assms by (subst sum_list_distinct_conv_sum_set) (auto simp: dict_wf_def)
  finally show ?thesis by simp
qed

lemma shannon_entropy_stream: "s \<noteq> [] \<Longrightarrow> shannon_entropy s = stream_entropy s"
proof -
  assume "s \<noteq> []"
  have "dom (map_of (char_freqs s)) = set s"
    using char_freqs_dict [of s] by (auto split: if_splits)
  then have keys: "fst ` set (char_freqs s) = set s" by (simp add: dom_map_of_conv_image_fst)
  have "(\<Sum>v\<leftarrow>map snd (char_freqs s). plogp (real_of_int v / real (length s)))
      = (\<Sum>k\<in>set s. plogp (real (count_list s k) / real (length s)))"
    unfolding dict_sum_values [OF conjunct1 [OF char_freqs_dict]] keys
    by (rule sum.cong) (simp_all add: char_freqs_dict)
  with \<open>s \<noteq> []\<close> show ?thesis
    by (simp add: shannon_entropy_def foldl_minus_init stream_entropy_def)
qed

lemma exfil_entropy_stream: "s \<noteq> [] \<Longrightarrow> exfil_entropy s = stream_entropy s"
  using sum_list_distinct_conv_sum_set [of "fromkeys s" "\<lambda>c. plogp (real (count_list s c) / real (length s))"]
  by (simp add: exfil_entropy_def stream_entropy_def plogp_def Let_def comp_def fromkeys_distinct_set)

lemma stream_entropy_bounds:
  assumes "s \<noteq> []"
  shows "0 \<le> stream_entropy s" and "stream_entropy s \<le> log 2 (real (card (set s)))"
proof -
  let ?p = "\<lambda>x. real (count_list s x) / real (length s)"
  have le: "count_list s x \<le> length s" for x by (rule count_le_length)
  have "plogp (?p x) \<le> 0" for x
    using le [of x] assms by (intro plogp_nonpos) (simp_all add: divide_le_eq)
  then show "0 \<le> stream_entropy s" by (simp add: stream_entropy_def sum_nonpos)
  have "(\<Sum>x\<in>set s. ?p x) = (\<Sum>x\<in>set s. real (count_list s x)) / real (length s)"
    by (simp add: sum_divide_distrib)
  also have "(\<Sum>x\<in>set s. real (count_list s x)) = real (length s)"
    using length_filter_by_value [of "\<lambda>_. True" s] by simp
  finally have "(\<Sum>x\<in>set s. ?p x) = 1" using assms by simp
  then show "stream_entropy s \<le> log 2 (real (card (set s)))"
    unfolding stream_entropy_def using assms by (intro entropy_le_log_card) auto
qed

text \<open>
  The repository computes the entropy of a name in two places with different loops, once
  from a frequency dictionary and once by counting every distinct character. Both return the
  Shannon entropy of the character distribution, so they agree on every string, and the
  value lies between 0 and the logarithm of the number of distinct characters.
\<close>

theorem entropy_routines_agree:
  "shannon_entropy s = exfil_entropy s
   \<and> shannon_entropy s = (if s = [] then 0 else stream_entropy s)
   \<and> 0 \<le> shannon_entropy s \<and> shannon_entropy s \<le> log 2 (real (max 1 (card (set s))))"
proof (cases "s = []")
  case True
  then show ?thesis by (simp add: shannon_entropy_def exfil_entropy_def)
next
  case False
  then have "1 \<le> card (set s)" by (simp add: Suc_le_eq card_gt_0_iff)
  then have "max 1 (card (set s)) = card (set s)" by simp
  with False stream_entropy_bounds [OF False] show ?thesis
    by (simp add: shannon_entropy_stream exfil_entropy_stream)
qed

section \<open>What the beaconing features say about a pair\<close>

definition beaconing_run ::
    "(string \<Rightarrow> nat) \<Rightarrow> (packet_meta \<times> real) list \<Rightarrow> beaconing_features" where
  "beaconing_run digest ops = foldl (\<lambda>s (m, t). beaconing_update digest s m t) beaconing_init ops"

definition pair_times :: "string \<Rightarrow> string \<Rightarrow> (packet_meta \<times> real) list \<Rightarrow> real list" where
  "pair_times src dst ops =
     map snd (filter (\<lambda>(m, t). pair_key (src_ip m) (dst_ip m) = pair_key src dst) ops)"

definition pos_gaps :: "real list \<Rightarrow> real list" where
  "pos_gaps ts = filter (\<lambda>d. 0 < d) (gaps ts)"

definition iat_describes :: "iat_stat option \<Rightarrow> real list \<Rightarrow> bool" where
  "iat_describes x ts \<longleftrightarrow>
     (case x of None \<Rightarrow> ts = []
      | Some st \<Rightarrow> ts \<noteq> [] \<and> ia_last_time st = last ts \<and> welford_describes (ia_welford st) (pos_gaps ts))"

lemma gaps_snoc: "ts \<noteq> [] \<Longrightarrow> gaps (ts @ [t]) = gaps ts @ [t - last ts]"
  by (auto simp: gaps_def nth_append last_conv_nth Suc_le_eq)

lemma iat_step: "iat_describes x ts \<Longrightarrow> iat_describes (Some (iat_stat_update x t)) (ts @ [t])"
proof (cases x)
  case None
  then show "iat_describes x ts \<Longrightarrow> ?thesis"
    using welford_start by (simp add: iat_describes_def iat_stat_update_def pos_gaps_def gaps_def)
next
  case (Some st)
  then show "iat_describes x ts \<Longrightarrow> ?thesis"
    using welford_step [of "ia_welford st" "pos_gaps ts" "t - last ts"]
    by (auto simp: iat_describes_def iat_stat_update_def pos_gaps_def gaps_snoc)
qed

interpretation iat_sum: stream_summary None "\<lambda>x t. Some (iat_stat_update x t)" iat_describes
  by unfold_locales (simp_all add: iat_describes_def [of None] iat_step)

lemma beaconing_run_snoc:
  "beaconing_run digest (ops @ [(m, t)]) = beaconing_update digest (beaconing_run digest ops) m t"
  by (simp add: beaconing_run_def)

lemma beaconing_run_entry:
  "map_of (flow_iats (beaconing_run digest ops)) (pair_key src dst)
     = foldl (\<lambda>x t. Some (iat_stat_update x t)) None (pair_times src dst ops)"
proof (induction ops rule: rev_induct)
  case Nil
  then show ?case by (simp add: beaconing_run_def beaconing_init_def pair_times_def)
next
  case (snoc p ops)
  obtain m t where p: "p = (m, t)" by (cases p)
  from snoc show ?case
    by (cases "pair_key src dst = pair_key (src_ip m) (dst_ip m)")
      (simp_all add: p beaconing_run_snoc beaconing_update_def Let_def map_of_dict_set pair_times_def)
qed

lemma beaconing_run_iat: "iat_describes (map_of (flow_iats (beaconing_run digest ops)) (pair_key src dst))
    (pair_times src dst ops)"
  unfolding beaconing_run_entry by (rule iat_sum.run_describes)

lemma beaconing_run_fan_in:
  "cms_describes digest 512 3 (dst_fan_in_cms (beaconing_run digest ops)) (map (\<lambda>(m, t). (dst_ip m, 1)) ops)"
proof (induction ops rule: rev_induct)
  case Nil
  then show ?case using cms_start by (simp add: beaconing_run_def beaconing_init_def)
next
  case (snoc p ops)
  obtain m t where p: "p = (m, t)" by (cases p)
  from cms_step [OF snoc, of "(dst_ip m, 1)"] show ?case
    by (simp add: p beaconing_run_snoc beaconing_update_def Let_def case_prod_unfold)
qed

lemma weight_units: "weight x (map (\<lambda>p. (f p, 1)) ps) = int (length (filter (\<lambda>p. f p = x) ps))"
  by (induction ps) (simp_all add: weight_def)

lemma beaconing_fan_in_finite:
  "\<exists>c. cms_get digest (dst_fan_in_cms (beaconing_run digest ops)) dst = Some c
     \<and> int (length (filter (\<lambda>(m, t). dst_ip m = dst) ops)) \<le> c \<and> c \<le> int (length ops)"
proof -
  have "(\<Sum>(y, c)\<leftarrow>map (\<lambda>(m, t). (dst_ip m, 1)) ops. c) = int (length ops)"
    by (induction ops) auto
  then show ?thesis
    using cms_get_bounds [OF beaconing_run_fan_in, of ops digest dst]
      weight_units [of dst "\<lambda>(m, t). dst_ip m" ops]
    by (auto simp: case_prod_unfold)
qed

lemma pos_gaps_pos: "d \<in> set (pos_gaps ts) \<Longrightarrow> 0 < d"
  by (simp add: pos_gaps_def)

lemma mean_of_pos: "xs \<noteq> [] \<Longrightarrow> \<forall>x\<in>set xs. 0 < x \<Longrightarrow> 0 < mean_of xs"
proof (induction xs)
  case (Cons x xs)
  then show ?case
    by (cases "xs = []") (auto simp: mean_of_def zero_less_divide_iff)
qed simp

lemma mean_of_const: "xs \<noteq> [] \<Longrightarrow> \<forall>x\<in>set xs. x = c \<Longrightarrow> mean_of xs = c"
proof -
  assume "xs \<noteq> []" "\<forall>x\<in>set xs. x = c"
  then have "xs = replicate (length xs) c" by (simp add: replicate_length_same)
  then have "sum_list xs = real (length xs) * c" by (metis sum_list_replicate)
  with \<open>xs \<noteq> []\<close> show "mean_of xs = c" by (simp add: mean_of_def)
qed

lemma beaconing_pair_vector:
  assumes "2 \<le> length (pos_gaps (pair_times src dst ops))"
  obtains w :: welford and c where "welford_describes w (pos_gaps (pair_times src dst ops))"
    and "0 < mean_of (pos_gaps (pair_times src dst ops))"
    and "int (length (filter (\<lambda>(m, t). dst_ip m = dst) ops)) \<le> c" and "c \<le> int (length ops)"
    and "beaconing_extract digest (beaconing_run digest ops) src dst
      = [(''mean_iat'', mean_of (pos_gaps (pair_times src dst ops))),
         (''iat_cv'', get_stddev w / mean_of (pos_gaps (pair_times src dst ops))),
         (''dst_fan_in'', real_of_int c)]"
proof -
  define ds where "ds = pos_gaps (pair_times src dst ops)"
  have ne: "ds \<noteq> []" using assms(1) by (auto simp: ds_def)
  obtain st where st: "map_of (flow_iats (beaconing_run digest ops)) (pair_key src dst) = Some st"
    and w: "welford_describes (ia_welford st) ds"
    using beaconing_run_iat [of digest ops src dst] assms(1)
    by (auto simp: iat_describes_def ds_def pos_gaps_def gaps_def split: option.splits)
  have mean: "w_mean (ia_welford st) = mean_of ds" by (rule welford_describes_mean [OF w ne])
  have pos: "0 < mean_of ds" using ne by (intro mean_of_pos) (auto simp: ds_def pos_gaps_pos)
  have count: "w_count (ia_welford st) = length ds" using w by (simp add: welford_describes_def)
  obtain c where c: "cms_get digest (dst_fan_in_cms (beaconing_run digest ops)) dst = Some c"
    "int (length (filter (\<lambda>(m, t). dst_ip m = dst) ops)) \<le> c" "c \<le> int (length ops)"
    using beaconing_fan_in_finite by blast
  have "beaconing_extract digest (beaconing_run digest ops) src dst
      = [(''mean_iat'', mean_of ds), (''iat_cv'', get_stddev (ia_welford st) / mean_of ds),
         (''dst_fan_in'', real_of_int c)]"
    using assms(1) pos by (simp add: beaconing_extract_def Let_def st mean count c ds_def)
  from that [OF w [unfolded ds_def] pos [unfolded ds_def] c(2,3) this [unfolded ds_def]]
  show ?thesis .
qed

lemma constant_gaps_iff:
  assumes "welford_describes w ds" and "2 \<le> length ds"
  shows "get_stddev w = 0 \<longleftrightarrow> (\<exists>T. \<forall>d\<in>set ds. d = T)" and "0 \<le> get_stddev w"
proof -
  have "ds \<noteq> []" using assms(2) by auto
  then have "(\<forall>d\<in>set ds. d = mean_of ds) \<longleftrightarrow> (\<exists>T. \<forall>d\<in>set ds. d = T)"
    using mean_of_const by metis
  then show "get_stddev w = 0 \<longleftrightarrow> (\<exists>T. \<forall>d\<in>set ds. d = T)"
    using welford_describes_variance_zero [OF assms] by (simp add: get_stddev_def)
  show "0 \<le> get_stddev w"
    using welford_describes_variance_nonneg [OF assms(1)] by (simp add: get_stddev_def)
qed

text \<open>
  The beaconing features of a pair depend only on that pair's packets: once it has shown
  at least two positive inter-arrival times, \<open>mean_iat\<close> is their mean, and \<open>iat_cv\<close> is
  never negative and is 0 exactly when the pair is perfectly periodic, whatever other
  traffic is interleaved. \<open>dst_fan_in\<close> is at least the number of packets to the
  destination and at most the number of packets seen.
\<close>

theorem beaconing_features_of_pair:
  fixes digest :: "string \<Rightarrow> nat"
  assumes "2 \<le> length (pos_gaps (pair_times src dst ops))"
  defines "ds \<equiv> pos_gaps (pair_times src dst ops)"
    and "v \<equiv> beaconing_extract digest (beaconing_run digest ops) src dst"
  shows "dict_get v ''mean_iat'' 0 = mean_of ds \<and> 0 < mean_of ds
    \<and> 0 \<le> dict_get v ''iat_cv'' 0
    \<and> (dict_get v ''iat_cv'' 0 = 0 \<longleftrightarrow> (\<exists>T. \<forall>d\<in>set ds. d = T))
    \<and> real (length (filter (\<lambda>(m, t). dst_ip m = dst) ops)) \<le> dict_get v ''dst_fan_in'' 0
    \<and> dict_get v ''dst_fan_in'' 0 \<le> real (length ops)"
proof -
  obtain w :: welford and c where w: "welford_describes w ds" and pos: "0 < mean_of ds"
    and c: "int (length (filter (\<lambda>(m, t). dst_ip m = dst) ops)) \<le> c" "c \<le> int (length ops)"
    and v: "v = [(''mean_iat'', mean_of ds), (''iat_cv'', get_stddev w / mean_of ds),
      (''dst_fan_in'', real_of_int c)]"
    unfolding ds_def v_def by (rule beaconing_pair_vector [OF assms(1), of digest])
  have "2 \<le> length ds" using assms(1) by (simp add: ds_def)
  with pos c constant_gaps_iff [OF w this] show ?thesis by (simp add: v dict_get_def)
qed

definition sample_meta :: packet_meta where
  "sample_meta = \<lparr>src_ip = ''10.0.0.1'', dst_ip = ''8.8.8.8'', ip_len = Some 60, protocol = Some ''TCP'',
     src_port = 4000, dst_port = 443, tcp_flags = Some 2, orig_pkts = None, payload = []\<rparr>"

theorem beaconing_features_of_pair_witness:
  "let ops = map (\<lambda>t. (sample_meta, t)) [0, 30, 60, 90];
       v = beaconing_extract length (beaconing_run length ops) ''10.0.0.1'' ''8.8.8.8''
   in dict_get v ''mean_iat'' 0 = 30 \<and> dict_get v ''iat_cv'' 0 = 0"
proof -
  have "pos_gaps (pair_times ''10.0.0.1'' ''8.8.8.8'' (map (\<lambda>t. (sample_meta, t)) [0, 30, 60, 90]))
      = [30, 30, 30]"
    by (simp add: pair_times_def sample_meta_def pos_gaps_def gaps_def upt_rec)
  then show ?thesis
    using beaconing_features_of_pair [of "''10.0.0.1''" "''8.8.8.8''"
        "map (\<lambda>t. (sample_meta, t)) [0, 30, 60, 90]" length]
    by (simp add: Let_def mean_of_def)
qed

section \<open>Counters\<close>

definition is_tcp_flag :: "int \<Rightarrow> packet_meta \<Rightarrow> bool" where
  "is_tcp_flag f m \<longleftrightarrow> protocol m = Some ''TCP'' \<and> opt_get (tcp_flags m) 0 = f"

definition amp_request :: "packet_meta \<Rightarrow> bool" where
  "amp_request m \<longleftrightarrow> protocol m = Some ''UDP'' \<and> dst_port m = 53"

definition amp_response :: "packet_meta \<Rightarrow> bool" where
  "amp_response m \<longleftrightarrow> protocol m = Some ''UDP'' \<and> dst_port m \<noteq> 53 \<and> src_port m = 53"

definition count_of :: "('a \<Rightarrow> bool) \<Rightarrow> 'a list \<Rightarrow> int" where
  "count_of P xs = int (length (filter P xs))"

definition len_of :: "(packet_meta \<Rightarrow> bool) \<Rightarrow> packet_meta list \<Rightarrow> int" where
  "len_of P ms = (\<Sum>m\<leftarrow>filter P ms. opt_get (ip_len m) 0)"

definition ddos_run ::
    "(string \<Rightarrow> nat) \<Rightarrow> ddos_features \<Rightarrow> (packet_meta \<times> real) list \<Rightarrow> ddos_features" where
  "ddos_run digest s ops = foldl (\<lambda>s (m, t). ddos_update digest s m t) s ops"

lemma count_of_simps [simp]:
  "count_of P [] = 0" "count_of P (x # xs) = (if P x then 1 else 0) + count_of P xs"
  by (simp_all add: count_of_def)

lemma len_of_simps [simp]:
  "len_of P [] = 0" "len_of P (m # ms) = (if P m then opt_get (ip_len m) 0 else 0) + len_of P ms"
  by (simp_all add: len_of_def)

lemma count_of_bounds: "0 \<le> count_of P xs" "count_of P xs \<le> int (length xs)"
  by (simp_all add: count_of_def)

lemma count_of_mono: "(\<And>x. P x \<Longrightarrow> Q x) \<Longrightarrow> count_of P xs \<le> count_of Q xs"
  by (induction xs) auto

lemma ddos_update_counters:
  fixes digest :: "string \<Rightarrow> nat"
  defines "u \<equiv> ddos_update digest"
  shows "dd_syn_count (u s m t) = dd_syn_count s + (if is_tcp_flag 2 m then 1 else 0)"
    "dd_syn_ack_count (u s m t) = dd_syn_ack_count s + (if is_tcp_flag 18 m then 1 else 0)"
    "amp_req_bytes (u s m t) = amp_req_bytes s + (if amp_request m then opt_get (ip_len m) 0 else 0)"
    "amp_res_bytes (u s m t) = amp_res_bytes s + (if amp_response m then opt_get (ip_len m) 0 else 0)"
    "src_ip_entropy_cms (u s m t) = cms_add digest (src_ip_entropy_cms s) (src_ip m) 1"
    "dst_state (u s m t)
       = dict_set (dst_ip m) (dst_stat_update (map_of (dst_state s) (dst_ip m)) m t) (dst_state s)"
  by (simp_all add: u_def ddos_update_def Let_def ddos_count_syn_def ddos_count_amp_def
      is_tcp_flag_def amp_request_def amp_response_def)

lemma ddos_run_Cons [simp]: "ddos_run digest s ((m, t) # ops) = ddos_run digest (ddos_update digest s m t) ops"
  and ddos_run_Nil [simp]: "ddos_run digest s [] = s"
  by (simp_all add: ddos_run_def)

lemma ddos_run_counters:
  fixes digest :: "string \<Rightarrow> nat" and s :: ddos_features and ops :: "(packet_meta \<times> real) list"
  defines "r \<equiv> ddos_run digest s ops" and "ms \<equiv> map fst ops"
  shows "dd_syn_count r = dd_syn_count s + count_of (is_tcp_flag 2) ms
    \<and> dd_syn_ack_count r = dd_syn_ack_count s + count_of (is_tcp_flag 18) ms
    \<and> amp_req_bytes r = amp_req_bytes s + len_of amp_request ms
    \<and> amp_res_bytes r = amp_res_bytes s + len_of amp_response ms"
  unfolding r_def ms_def
proof (induction ops arbitrary: s)
  case Nil
  then show ?case by simp
next
  case (Cons p ops)
  then show ?case by (cases p) (simp add: ddos_update_counters)
qed

text \<open>
  The DDoS ratios are per window: after a reset and any traffic, \<open>syn_synack_ratio\<close>
  is the number of SYN segments over the number of SYN-ACK segments of that traffic, and
  \<open>amp_byte_ratio\<close> the bytes from port 53 over the bytes to port 53, each
  denominator at least 1. The reset loses no other state: the sketch and the destination
  table are untouched.
\<close>

theorem ddos_window_ratios:
  fixes digest :: "string \<Rightarrow> nat" and s :: ddos_features
  defines "r \<equiv> ddos_reset_window_counters s"
  shows "dst_state r = dst_state s \<and> src_ip_entropy_cms r = src_ip_entropy_cms s
    \<and> dict_get (ddos_extract (ddos_run digest r ops) dst) ''syn_synack_ratio'' 0
        = real_of_int (count_of (is_tcp_flag 2) (map fst ops))
          / real_of_int (max 1 (count_of (is_tcp_flag 18) (map fst ops)))
    \<and> dict_get (ddos_extract (ddos_run digest r ops) dst) ''amp_byte_ratio'' 0
        = real_of_int (len_of amp_response (map fst ops))
          / real_of_int (max 1 (len_of amp_request (map fst ops)))"
  using ddos_run_counters [of digest r ops]
  by (simp add: r_def ddos_reset_window_counters_def ddos_extract_def Let_def dict_get_def)

definition recon_run :: "(string \<Rightarrow> nat) \<Rightarrow> packet_meta list \<Rightarrow> recon_features" where
  "recon_run digest ms = foldl (recon_update digest) recon_init ms"

lemma recon_run_counters:
  "rc_syn_count (recon_run digest ms) = count_of (is_tcp_flag 2) ms
   \<and> total_tcp_count (recon_run digest ms) = count_of (\<lambda>m. protocol m = Some ''TCP'') ms"
proof (induction ms rule: rev_induct)
  case Nil
  then show ?case by (simp add: recon_run_def recon_init_def)
next
  case (snoc m ms)
  then show ?case
    by (simp add: recon_run_def recon_update_def Let_def is_tcp_flag_def count_of_def)
qed

text \<open>
  The reconnaissance features are bounded whatever the traffic: \<open>syn_only_ratio\<close> is
  the share of bare SYNs among the TCP packets, a number in [0, 1], and
  \<open>scan_activity_score\<close> is at most the number of bare SYNs, with equality when every TCP
  packet is one.
\<close>

theorem recon_features_bounded:
  fixes digest :: "string \<Rightarrow> nat" and ms :: "packet_meta list" and src :: string
  defines "v \<equiv> recon_extract (recon_run digest ms) src"
    and "syns \<equiv> real_of_int (count_of (is_tcp_flag 2) ms)"
  shows "0 \<le> dict_get v ''syn_only_ratio'' 0 \<and> dict_get v ''syn_only_ratio'' 0 \<le> 1
    \<and> dict_get v ''scan_activity_score'' 0 = dict_get v ''syn_only_ratio'' 0 * syns
    \<and> dict_get v ''scan_activity_score'' 0 \<le> syns
    \<and> (dict_get v ''syn_only_ratio'' 0 = 1 \<longleftrightarrow>
         0 < syns \<and> syns = real_of_int (count_of (\<lambda>m. protocol m = Some ''TCP'') ms))"
proof -
  define tcps where "tcps = count_of (\<lambda>m. protocol m = Some ''TCP'') ms"
  define n where "n = count_of (is_tcp_flag 2) ms"
  have le: "0 \<le> n" "0 \<le> tcps" by (simp_all add: n_def tcps_def count_of_bounds)
  have "n \<le> tcps" unfolding n_def tcps_def by (rule count_of_mono) (simp add: is_tcp_flag_def)
  note le = le this
  have r: "0 \<le> real_of_int n / real_of_int (max 1 tcps)" "real_of_int n / real_of_int (max 1 tcps) \<le> 1"
    using le by (auto simp: divide_le_eq max_def)
  have one: "real_of_int n / real_of_int (max 1 tcps) = 1 \<longleftrightarrow> 0 < n \<and> n = tcps"
    using le by (auto simp: max_def divide_eq_1_iff)
  have "real_of_int n / real_of_int (max 1 tcps) * real_of_int n \<le> 1 * real_of_int n"
    using r le by (intro mult_right_mono) simp_all
  with r one show ?thesis
    using recon_run_counters [of digest ms]
    by (simp add: v_def syns_def recon_extract_def Let_def dict_get_def flip: n_def tcps_def)
qed

section \<open>DNS exfiltration averages\<close>

definition carrier_names :: "dns_parsed list \<Rightarrow> string list" where
  "carrier_names ds = concat (map (\<lambda>d. map (\<lambda>q. opt_get (q_name q) []) (filter (\<lambda>q. txt_or_cname (q_type q)) (queries d))) ds)"

definition dns_exfil_run :: "dns_exfil_features \<Rightarrow> dns_parsed list \<Rightarrow> dns_exfil_features" where
  "dns_exfil_run s ds = foldl (\<lambda>s d. dns_exfil_update s (Some d) False) s ds"

lemma dns_exfil_queries:
  "foldl dns_exfil_query s qs =
     (let ns = map (\<lambda>q. opt_get (q_name q) []) (filter (\<lambda>q. txt_or_cname (q_type q)) qs)
      in \<lparr>txt_cname_queries = txt_cname_queries s + int (length ns),
          total_query_len = total_query_len s + (\<Sum>n\<leftarrow>ns. int (length n)),
          total_entropy = total_entropy s + (\<Sum>n\<leftarrow>ns. exfil_entropy n)\<rparr>)"
  by (induction qs arbitrary: s) (simp_all add: dns_exfil_query_def Let_def)

lemma dns_exfil_run_totals:
  "dns_exfil_run s ds =
     \<lparr>txt_cname_queries = txt_cname_queries s + int (length (carrier_names ds)),
      total_query_len = total_query_len s + (\<Sum>n\<leftarrow>carrier_names ds. int (length n)),
      total_entropy = total_entropy s + (\<Sum>n\<leftarrow>carrier_names ds. exfil_entropy n)\<rparr>"
proof (induction ds arbitrary: s)
  case Nil
  then show ?case by (simp add: dns_exfil_run_def carrier_names_def)
next
  case (Cons d ds)
  have "dns_exfil_run s (d # ds) = dns_exfil_run (foldl dns_exfil_query s (queries d)) ds"
    by (simp add: dns_exfil_run_def dns_exfil_update_def)
  then show ?case
    by (simp add: Cons.IH dns_exfil_queries Let_def) (simp add: carrier_names_def)
qed

text \<open>
  Within a minute the DNS-exfiltration vector reports exactly the TXT and CNAME queries
  seen since the reset: their number, the mean length of their names and the mean entropy of
  their names, and zeros when there were none. The reset message itself is counted.
\<close>

theorem dns_exfil_minute_averages:
  defines "ns d ds \<equiv> carrier_names (d # ds)"
    and "v s d ds \<equiv> dns_exfil_extract (dns_exfil_run (dns_exfil_update s (Some d) True) ds)"
  shows "dict_get (v s d ds) ''txt_cname_rate'' 0 = real (length (ns d ds))
    \<and> dict_get (v s d ds) ''txt_cname_avg_len'' 0
        = (if ns d ds = [] then 0 else mean_of (map (\<lambda>n. real (length n)) (ns d ds)))
    \<and> dict_get (v s d ds) ''txt_cname_avg_entropy'' 0
        = (if ns d ds = [] then 0 else mean_of (map exfil_entropy (ns d ds)))"
proof -
  have "dns_exfil_run (dns_exfil_update s (Some d) True) ds = dns_exfil_run dns_exfil_init (d # ds)"
    by (simp add: dns_exfil_run_def dns_exfil_update_def)
  moreover have "real_of_int (\<Sum>n\<leftarrow>xs. int (length n)) = (\<Sum>n\<leftarrow>xs. real (length n))" for xs :: "string list"
    by (induction xs) simp_all
  ultimately show ?thesis
    by (simp add: v_def ns_def dns_exfil_run_totals dns_exfil_extract_def dns_exfil_init_def
        dict_get_def mean_of_def)
qed

section \<open>Packet history and the NXDOMAIN rate\<close>

definition encrypted_run ::
    "nat \<Rightarrow> (packet_meta \<times> tls_parsed option \<times> real) list \<Rightarrow> encrypted_features" where
  "encrypted_run mx ops = foldl (\<lambda>s (m, tls, t). encrypted_update s m tls t) (encrypted_init mx) ops"

lemma encrypted_update_fields:
  "max_packet_history (encrypted_update s m tls t) = max_packet_history s"
  "packet_sizes (encrypted_update s m tls t) = (if length (packet_sizes s) < max_packet_history s
     then packet_sizes s @ [opt_get (ip_len m) 0] else packet_sizes s)"
  "packet_timings (encrypted_update s m tls t) = (if length (packet_sizes s) < max_packet_history s
     then packet_timings s @ [t] else packet_timings s)"
  by (simp_all add: encrypted_update_def Let_def split: option.splits)

lemma take_snoc_eq: "take n (xs @ [x]) = (if length xs < n then xs @ [x] else take n xs)"
  by simp

lemma encrypted_run_history:
  "max_packet_history (encrypted_run mx ops) = mx
   \<and> packet_sizes (encrypted_run mx ops) = take mx (map (\<lambda>(m, _). opt_get (ip_len m) 0) ops)
   \<and> packet_timings (encrypted_run mx ops) = take mx (map (\<lambda>(_, _, t). t) ops)"
proof (induction ops rule: rev_induct)
  case Nil
  then show ?case by (simp add: encrypted_run_def encrypted_init_def)
next
  case (snoc p ops)
  obtain m tls t where p: "p = (m, tls, t)" by (cases p)
  have "encrypted_run mx (ops @ [p]) = encrypted_update (encrypted_run mx ops) m tls t"
    by (simp add: encrypted_run_def p)
  with snoc show ?case by (simp add: p encrypted_update_fields min_def take_snoc_eq)
qed

text \<open>
  The encrypted-traffic history holds the first \<open>max_packet_history\<close> packets and never
  more: the reported sizes are those packets' lengths in order, and there is one fewer
  inter-packet time than sizes, each the difference of two consecutive arrival times.
\<close>

theorem encrypted_history_is_prefix:
  "let n = min mx (length ops); f = encrypted_extract (encrypted_run mx ops)
   in ef_packet_sizes f = Some (map (\<lambda>(m, _). real_of_int (opt_get (ip_len m) 0)) (take n ops))
    \<and> (\<exists>ipts. ef_packet_ipts f = Some ipts \<and> length ipts = n - 1
        \<and> (\<forall>i<n - 1. ipts ! i = snd (snd (ops ! Suc i)) - snd (snd (ops ! i))))"
proof -
  define n where "n = min mx (length ops)"
  have "take mx ops = take n ops" by (simp add: n_def min_def)
  then have "packet_sizes (encrypted_run mx ops) = map (\<lambda>(m, _). opt_get (ip_len m) 0) (take n ops)"
    and "packet_timings (encrypted_run mx ops) = map (\<lambda>(_, _, t). t) (take n ops)"
    using encrypted_run_history [of mx ops] by (simp_all add: take_map)
  moreover have "length (take n ops) = n" by (simp add: n_def)
  ultimately show ?thesis
    by (auto simp: encrypted_extract_def gaps_def case_prod_unfold simp flip: n_def)
qed

lemma ewma_zeros: "ew_value s = None \<or> ew_value s = Some 0 \<Longrightarrow> ew_value (ewma_update s 0) = Some 0"
  by (auto simp: ewma_update_def)

lemma dga_queries_nxdomain: "nxdomain_ewma (foldl dga_query s qs) = nxdomain_ewma s"
  by (induction qs arbitrary: s) (simp_all add: dga_query_def Let_def)

text \<open>
  \<open>parse_dns\<close> never reports the response code, so the \<open>nxdomain_rate\<close> the DGA features
  derive from its output is 0 after any sequence of DNS messages, NXDOMAIN responses
  included: the documented NXDOMAIN signal does not exist in the pipeline.
\<close>

theorem nxdomain_rate_never_rises:
  assumes "\<forall>d\<in>set ds. \<exists>p. parse_dns dpkt_dns p = Inr (Some d)"
  shows "dict_get (dga_extract (foldl (\<lambda>s d. dga_update s (Some d)) dga_init ds)) ''nxdomain_rate'' 0 = 0"
proof -
  let ?ok = "\<lambda>s. ew_value (nxdomain_ewma s) = None \<or> ew_value (nxdomain_ewma s) = Some 0"
  have nx: "nxdomain d = None" if "d \<in> set ds" for d
    using assms that by (fastforce simp: parse_dns_def split: if_splits sum.splits dpkt_exc.splits)
  have "?ok (foldl (\<lambda>s d. dga_update s (Some d)) dga_init ds)"
  proof (rule foldl_invariant)
    show "?ok dga_init" by (simp add: dga_init_def ewma_init_def)
    show "?ok (dga_update s (Some d))" if "?ok s" and "d \<in> set ds" for s d
      using ewma_zeros [of "nxdomain_ewma s"] that nx [of d]
      by (simp add: dga_update_def Let_def dga_queries_nxdomain)
  qed
  then show ?thesis by (auto simp: dga_extract_def dict_get_def ewma_get_def)
qed

theorem nxdomain_rate_never_rises_witness:
  "dict_get (dga_extract (foldl (\<lambda>s d. dga_update s (Some d)) dga_init
     [\<lparr>queries = [], answers = [], nxdomain = None\<rparr>])) ''nxdomain_rate'' 0 = 0"
proof (rule nxdomain_rate_never_rises
    [where dpkt_dns = "\<lambda>_. Inr \<lparr>dm_qd = [], dm_an = []\<rparr>"], intro ballI exI)
  show "parse_dns (\<lambda>_. Inr \<lparr>dm_qd = [], dm_an = []\<rparr>) [0] = Inr (Some d)"
    if "d \<in> set [\<lparr>queries = [], answers = [], nxdomain = None\<rparr>]" for d
    using that by (simp add: parse_dns_def)
qed

end
