(* ===== verification/PyText.thy ===== *)
theory PyText
  imports Prelude
begin

text \<open>
  Python's text operations and JSON values as the data sources use them: upper-casing,
  substring tests, \<^verbatim>\<open>float\<close> and \<^verbatim>\<open>int\<close> of text, and the conversions of a parsed JSON value. Text is
  ASCII; \<^verbatim>\<open>inf\<close> and \<^verbatim>\<open>nan\<close> have no value in the model and are refused like malformed numbers.
\<close>

section \<open>Strings\<close>

definition upper_char :: "char \<Rightarrow> char" where
  "upper_char c = (let n = of_char c :: nat in if 97 \<le> n \<and> n \<le> 122 then char_of (n - 32) else c)"

definition upper :: "string \<Rightarrow> string" where
  "upper s = map upper_char s"

definition spaces_to_underscores :: "string \<Rightarrow> string" where
  "spaces_to_underscores s = map (\<lambda>c. if c = CHR '' '' then CHR ''_'' else c) s"

fun str_contains :: "string \<Rightarrow> string \<Rightarrow> bool" where
  "str_contains pat [] = (pat = [])"
| "str_contains pat (c # s) = (starts_with pat (c # s) \<or> str_contains pat s)"

section \<open>Numbers from text\<close>

definition is_space :: "char \<Rightarrow> bool" where
  "is_space c \<longleftrightarrow> c \<in> set [CHR '' '', CHR 0x09, CHR 0x0A, CHR 0x0B, CHR 0x0C, CHR 0x0D]"

definition strip :: "string \<Rightarrow> string" where
  "strip s = rev (dropWhile is_space (rev (dropWhile is_space s)))"

definition is_digit :: "char \<Rightarrow> bool" where
  "is_digit c \<longleftrightarrow> 48 \<le> (of_char c :: nat) \<and> (of_char c :: nat) \<le> 57"

definition take_sign :: "string \<Rightarrow> int \<times> string" where
  "take_sign s = (case s of [] \<Rightarrow> (1, [])
     | c # r \<Rightarrow> if c = CHR ''-'' then (-1, r) else if c = CHR ''+'' then (1, r) else (1, s))"

definition int_text :: "string \<Rightarrow> int result" where
  "int_text s = (let (sg, ds) = take_sign (strip s)
     in if ds \<noteq> [] \<and> list_all is_digit ds then Inr (sg * int (str_nat ds)) else Inl ValueError)"

definition exponent_text :: "string \<Rightarrow> int result" where
  "exponent_text s = (case s of [] \<Rightarrow> Inr 0
     | c # r \<Rightarrow> if c \<in> set [CHR ''e'', CHR ''E''] \<and> r \<noteq> [] \<and> \<not> is_space (hd r) \<and> \<not> is_space (last r)
                then int_text r else Inl ValueError)"

definition fraction_text :: "string \<Rightarrow> string \<times> string" where
  "fraction_text s = (case s of [] \<Rightarrow> ([], [])
     | c # r \<Rightarrow> if c = CHR ''.'' then (takeWhile is_digit r, dropWhile is_digit r) else ([], s))"

definition float_text :: "string \<Rightarrow> real result" where
  "float_text s =
     (let (sg, t) = take_sign (strip s);
          whole = takeWhile is_digit t;
          (frac, rest) = fraction_text (dropWhile is_digit t)
      in if whole = [] \<and> frac = [] then Inl ValueError
         else bind_result (exponent_text rest) (\<lambda>e.
           Inr (of_int sg * real (str_nat (whole @ frac)) * (10 powr (of_int e - real (length frac))))))"

section \<open>JSON values\<close>

datatype jval = JNull | JBool bool | JNum real | JStr string | JArr "jval list" | JObj "(string \<times> jval) list"

type_synonym jobj = "(string \<times> jval) list"

text \<open>\<open>render\<close> is Python's text of numbers, lists and dictionaries.\<close>

fun jstr :: "(jval \<Rightarrow> string) \<Rightarrow> jval \<Rightarrow> string" where
  "jstr render (JStr s) = s"
| "jstr render JNull = ''None''"
| "jstr render (JBool b) = (if b then ''True'' else ''False'')"
| "jstr render v = render v"

fun jint :: "jval \<Rightarrow> int result" where
  "jint (JNum x) = Inr (py_int x)"
| "jint (JBool b) = Inr (if b then 1 else 0)"
| "jint (JStr s) = int_text s"
| "jint v = Inl TypeError"

fun jfloat :: "jval \<Rightarrow> real result" where
  "jfloat (JNum x) = Inr x"
| "jfloat (JBool b) = Inr (if b then 1 else 0)"
| "jfloat (JStr s) = float_text s"
| "jfloat v = Inl TypeError"

fun jobject :: "jval \<Rightarrow> jobj result" where
  "jobject (JObj d) = Inr d"
| "jobject v = Inl TypeError"

fun jtrue :: "jval \<Rightarrow> bool" where
  "jtrue JNull = False"
| "jtrue (JBool b) = b"
| "jtrue (JNum x) = (x \<noteq> 0)"
| "jtrue (JStr s) = (s \<noteq> [])"
| "jtrue (JArr xs) = (xs \<noteq> [])"
| "jtrue (JObj d) = (d \<noteq> [])"

section \<open>Decimal text of counters is read back\<close>

lemma nat_str_all_digits: "list_all is_digit (nat_str n)"
  using nat_str_digits by (auto simp: list_all_iff is_digit_def)

lemma digit_not_space: "is_digit c \<Longrightarrow> \<not> is_space c"
  by (auto simp: is_digit_def is_space_def)

lemma strip_digits: "list_all is_digit s \<Longrightarrow> strip s = s"
proof -
  assume s: "list_all is_digit s"
  then have "\<forall>c\<in>set s. \<not> is_space c" using digit_not_space by (auto simp: list_all_iff)
  then have "dropWhile is_space s = s" "dropWhile is_space (rev s) = rev s"
    by (auto simp: dropWhile_eq_self_iff) (metis hd_in_set rev_is_Nil_conv set_rev)
  then show ?thesis by (simp add: strip_def)
qed

lemma take_sign_digits: "list_all is_digit s \<Longrightarrow> take_sign s = (1, s)"
  by (cases s) (auto simp: take_sign_def is_digit_def)

lemma int_text_nat_str: "int_text (nat_str n) = Inr (int n)"
  using nat_str_all_digits [of n]
  by (simp add: int_text_def strip_digits take_sign_digits str_nat_nat_str)

lemma float_text_nat_str: "float_text (nat_str n) = Inr (real n)"
proof -
  have d: "list_all is_digit (nat_str n)" by (rule nat_str_all_digits)
  then have w: "takeWhile is_digit (nat_str n) = nat_str n" "dropWhile is_digit (nat_str n) = []"
    by (simp_all add: list_all_iff takeWhile_eq_all_conv dropWhile_eq_Nil_conv)
  show ?thesis
    unfolding float_text_def strip_digits [OF d] take_sign_digits [OF d] Let_def prod.case w
    by (simp add: fraction_text_def exponent_text_def str_nat_nat_str)
qed

end
