(* ===== verification/Alerts.thy ===== *)
theory Alerts
  imports Features PyText
begin

text \<open>
  Alert records and their first two consumers: \<^verbatim>\<open>alerting/schema.py\<close>,
  \<^verbatim>\<open>alerting/normalizer.py\<close> (calibration, clamping, severity) and \<^verbatim>\<open>alerting/webhook.py\<close>
  (notification of the severe ones). A fitted calibrator and the HTTP client are third-party
  code and enter as parameters. The severities form a linear order, and the theorems show
  that a normalized alert is always well-formed, that severity grows with the calibrated
  score, and exactly when normalization is refused and when the webhook is called.
\<close>

section \<open>Schema\<close>

datatype severity = LOW | MEDIUM | HIGH | CRITICAL

primrec severity_rank :: "severity \<Rightarrow> nat" where
  "severity_rank LOW = 0"
| "severity_rank MEDIUM = 1"
| "severity_rank HIGH = 2"
| "severity_rank CRITICAL = 3"

primrec severity_str :: "severity \<Rightarrow> string" where
  "severity_str LOW = ''LOW''"
| "severity_str MEDIUM = ''MEDIUM''"
| "severity_str HIGH = ''HIGH''"
| "severity_str CRITICAL = ''CRITICAL''"

instantiation severity :: linorder
begin

definition less_eq_severity :: "severity \<Rightarrow> severity \<Rightarrow> bool" where
  "less_eq_severity a b \<longleftrightarrow> severity_rank a \<le> severity_rank b"

definition less_severity :: "severity \<Rightarrow> severity \<Rightarrow> bool" where
  "less_severity a b \<longleftrightarrow> severity_rank a < severity_rank b"

instance
proof
  fix a b c :: severity
  show "a < b \<longleftrightarrow> a \<le> b \<and> \<not> b \<le> a" "a \<le> a" "a \<le> b \<or> b \<le> a"
    by (auto simp: less_eq_severity_def less_severity_def)
  show "a \<le> b \<Longrightarrow> b \<le> c \<Longrightarrow> a \<le> c" by (simp add: less_eq_severity_def)
  show "a \<le> b \<Longrightarrow> b \<le> a \<Longrightarrow> a = b"
    by (cases a; cases b) (simp_all add: less_eq_severity_def)
qed

end

record flow_id =
  fid_src_ip :: string
  fid_dst_ip :: string
  fid_src_port :: "int option"
  fid_dst_port :: "int option"
  fid_protocol :: string

record evidence =
  ev_features :: fvec
  ev_explanation :: string
  ev_window_start :: "real option"
  ev_window_end :: "real option"

record alert =
  al_id :: string
  al_timestamp :: real
  al_detector :: string
  al_flow :: flow_id
  al_threat_class :: string
  al_severity :: severity
  al_confidence :: real
  al_evidence :: evidence
  al_related :: "string list"

section \<open>Normalizer\<close>

text \<open>
  The flow dictionary a caller passes: \<open>None\<close> for an absent key, \<open>Some None\<close> for a key whose
  value is the Python \<^verbatim>\<open>None\<close>. Ports are read with no default, so both cases are \<open>None\<close>.
\<close>

record flow_info =
  fi_src_ip :: "string option option"
  fi_dst_ip :: "string option option"
  fi_src_port :: "int option"
  fi_dst_port :: "int option"
  fi_protocol :: "string option option"

type_synonym calibrator = "real \<Rightarrow> real result"
type_synonym normalizer = "(string, calibrator) dict"

fun load_calibrators ::
    "(string \<Rightarrow> bool) \<Rightarrow> (string \<Rightarrow> calibrator result) \<Rightarrow> string list \<Rightarrow> normalizer \<Rightarrow> normalizer result" where
  "load_calibrators path_exists joblib_load [] cals = Inr cals"
| "load_calibrators path_exists joblib_load (det # dets) cals =
     (let path = ''calibrators/'' @ det @ ''_calibrator.pkl''
      in if path_exists path then
           (case joblib_load path of Inl e \<Rightarrow> Inl e
            | Inr c \<Rightarrow> load_calibrators path_exists joblib_load dets (dict_set det c cals))
         else load_calibrators path_exists joblib_load dets cals)"

definition normalizer_init ::
    "(string \<Rightarrow> bool) \<Rightarrow> (string \<Rightarrow> calibrator result) \<Rightarrow> normalizer result" where
  "normalizer_init path_exists joblib_load =
     load_calibrators path_exists joblib_load
       [''ddos'', ''beaconing'', ''dga'', ''encrypted'', ''recon'', ''exfil''] []"

definition get_severity :: "real \<Rightarrow> severity" where
  "get_severity confidence =
     (if 9 / 10 \<le> confidence then CRITICAL
      else if 75 / 100 \<le> confidence then HIGH
      else if 5 / 10 \<le> confidence then MEDIUM else LOW)"

definition calibrated :: "normalizer \<Rightarrow> string \<Rightarrow> real \<Rightarrow> real" where
  "calibrated cals detector raw_score =
     (case map_of cals detector of None \<Rightarrow> raw_score
      | Some cal \<Rightarrow> (case cal raw_score of Inr c \<Rightarrow> c | Inl _ \<Rightarrow> raw_score))"

text \<open>A required string field of the schema: an absent key takes the default, \<^verbatim>\<open>None\<close> is refused.\<close>

definition str_field :: "string option option \<Rightarrow> string \<Rightarrow> string result" where
  "str_field v d = (case v of None \<Rightarrow> Inr d | Some None \<Rightarrow> Inl ValidationError | Some (Some s) \<Rightarrow> Inr s)"

definition make_flow_id :: "flow_info \<Rightarrow> flow_id result" where
  "make_flow_id fi =
     (case (str_field (fi_src_ip fi) [], str_field (fi_dst_ip fi) [], str_field (fi_protocol fi) ''UNKNOWN'') of
        (Inr s, Inr t, Inr p) \<Rightarrow>
          Inr \<lparr>fid_src_ip = s, fid_dst_ip = t, fid_src_port = fi_src_port fi,
               fid_dst_port = fi_dst_port fi, fid_protocol = p\<rparr>
      | _ \<Rightarrow> Inl ValidationError)"

text \<open>
  \<open>new_id\<close> is the \<^verbatim>\<open>uuid4\<close> string the record's \<open>alert_id\<close> defaults to. Detector names are
  ASCII, so \<^verbatim>\<open>upper()\<close> is the ASCII one.
\<close>

definition normalize ::
    "normalizer \<Rightarrow> string \<Rightarrow> string \<Rightarrow> real \<Rightarrow> fvec \<Rightarrow> string \<Rightarrow> flow_info \<Rightarrow> real
      \<Rightarrow> real option \<Rightarrow> real option \<Rightarrow> alert result" where
  "normalize cals new_id detector raw_score feature_values explanation fi timestamp w_start w_end =
     (let confidence = max 0 (min 1 (calibrated cals detector raw_score))
      in case make_flow_id fi of Inl e \<Rightarrow> Inl e
         | Inr fid \<Rightarrow>
             Inr \<lparr>al_id = new_id, al_timestamp = timestamp, al_detector = detector, al_flow = fid,
                  al_threat_class = upper detector, al_severity = get_severity confidence,
                  al_confidence = confidence,
                  al_evidence = \<lparr>ev_features = feature_values, ev_explanation = explanation,
                                 ev_window_start = w_start, ev_window_end = w_end\<rparr>,
                  al_related = []\<rparr>)"

section \<open>Webhook\<close>

record webhook_payload =
  wp_text :: string
  wp_summary :: string
  wp_explanation :: string

definition webhook_init :: "string option \<Rightarrow> string option \<Rightarrow> string option" where
  "webhook_init webhook_url env =
     (case webhook_url of None \<Rightarrow> env | Some u \<Rightarrow> if u = [] then env else Some u)"

definition port_str :: "int option \<Rightarrow> string" where
  "port_str p = (case p of None \<Rightarrow> ''None'' | Some n \<Rightarrow> int_str n)"

definition newline :: string where
  "newline = [CHR 0x0A]"

definition siren :: string where
  "siren = [CHR 0xF0, CHR 0x9F, CHR 0x9A, CHR 0xA8]"

definition webhook_payload_of :: "alert \<Rightarrow> webhook_payload" where
  "webhook_payload_of a =
     \<lparr>wp_text = siren @ '' *'' @ severity_str (al_severity a) @ '' Alert*: '' @ al_threat_class a,
      wp_summary = ''*Detector:* '' @ al_detector a @ newline @ ''*Flow:* '' @ fid_src_ip (al_flow a) @ '':''
        @ port_str (fid_src_port (al_flow a)) @ '' -> '' @ fid_dst_ip (al_flow a) @ '':''
        @ port_str (fid_dst_port (al_flow a)) @ newline @ ''*Confidence:* '' @ fmt_fixed 2 (al_confidence a),
      wp_explanation = ''*Explanation:* '' @ ev_explanation (al_evidence a)\<rparr>"

text \<open>
  The request the notifier attempts, if any, and whether it logged a failure; \<open>post\<close> is
  \<^verbatim>\<open>requests.post\<close>, which may raise.
\<close>

definition webhook_notify ::
    "(string \<Rightarrow> webhook_payload \<Rightarrow> unit result) \<Rightarrow> string option \<Rightarrow> alert
      \<Rightarrow> (string \<times> webhook_payload) option \<times> bool" where
  "webhook_notify post url a =
     (case url of None \<Rightarrow> (None, False)
      | Some u \<Rightarrow>
          if u = [] then (None, False)
          else if al_severity a \<notin> set [HIGH, CRITICAL] then (None, False)
          else (let payload = webhook_payload_of a
                in (Some (u, payload), case post u payload of Inr _ \<Rightarrow> False | Inl _ \<Rightarrow> True)))"

section \<open>Properties\<close>

lemma get_severity_mono: "a \<le> b \<Longrightarrow> get_severity a \<le> get_severity b"
  by (simp add: get_severity_def less_eq_severity_def)

lemma get_severity_cases:
  "get_severity c = CRITICAL \<longleftrightarrow> 9 / 10 \<le> c"
  "HIGH \<le> get_severity c \<longleftrightarrow> 75 / 100 \<le> c"
  "MEDIUM \<le> get_severity c \<longleftrightarrow> 5 / 10 \<le> c"
  by (simp_all add: get_severity_def less_eq_severity_def)

lemma normalize_Inr:
  "normalize cals i det raw fv expl fi ts ws we = Inr a \<longleftrightarrow>
     (\<exists>fid. make_flow_id fi = Inr fid \<and>
        a = \<lparr>al_id = i, al_timestamp = ts, al_detector = det, al_flow = fid,
             al_threat_class = upper det,
             al_severity = get_severity (max 0 (min 1 (calibrated cals det raw))),
             al_confidence = max 0 (min 1 (calibrated cals det raw)),
             al_evidence = \<lparr>ev_features = fv, ev_explanation = expl,
                            ev_window_start = ws, ev_window_end = we\<rparr>,
             al_related = []\<rparr>)"
  by (auto simp: normalize_def Let_def split: sum.splits)

lemma make_flow_id_error:
  "isl (make_flow_id fi) \<longleftrightarrow> fi_src_ip fi = Some None \<or> fi_dst_ip fi = Some None \<or> fi_protocol fi = Some None"
  by (auto simp: make_flow_id_def str_field_def split: option.splits)

text \<open>
  C39. Normalization keeps the alert schema's invariants and orders alerts by score: the
  confidence is in [0, 1], the severity is the one of the confidence, and for a monotone
  (isotonic) calibrator, or none, or one that fails on every score, a higher raw score never
  gives a lower confidence or a lower severity.
\<close>

theorem normalize_bounded_and_monotone:
  assumes "normalize cals i det raw fv expl fi ts ws we = Inr a"
    and "normalize cals i' det raw' fv' expl' fi' ts' ws' we' = Inr a'"
    and "raw \<le> raw'"
    and "map_of cals det = None
      \<or> (\<exists>cal. map_of cals det = Some cal \<and> (\<forall>x. isl (cal x)))
      \<or> (\<exists>f. map_of cals det = Some (\<lambda>x. Inr (f x)) \<and> mono f)"
  shows "0 \<le> al_confidence a \<and> al_confidence a \<le> 1 \<and> al_severity a = get_severity (al_confidence a)
    \<and> al_confidence a \<le> al_confidence a' \<and> al_severity a \<le> al_severity a'"
proof -
  have "calibrated cals det raw \<le> calibrated cals det raw'"
    using assms(4)
  proof (elim disjE exE conjE)
    show ?thesis if "map_of cals det = None" using that assms(3) by (simp add: calibrated_def)
    show ?thesis if "map_of cals det = Some cal" "\<forall>x. isl (cal x)" for cal
      using that assms(3) by (auto simp: calibrated_def split: sum.splits) (metis sum.disc(2))+
    show ?thesis if "map_of cals det = Some (\<lambda>x. Inr (f x))" "mono f" for f
      using that assms(3) by (simp add: calibrated_def monoD)
  qed
  then have le: "max 0 (min 1 (calibrated cals det raw)) \<le> max 0 (min 1 (calibrated cals det raw'))"
    by (auto simp: max_def min_def)
  with get_severity_mono [OF le] assms(1,2) show ?thesis by (auto simp: normalize_Inr)
qed

definition sample_flow :: flow_info where
  "sample_flow = \<lparr>fi_src_ip = Some (Some ''10.0.0.1''), fi_dst_ip = Some (Some ''8.8.8.8''),
     fi_src_port = Some 4000, fi_dst_port = Some 443, fi_protocol = Some (Some ''TCP'')\<rparr>"

theorem normalize_bounded_and_monotone_witness:
  "\<exists>a a'. normalize [] ''x'' ''ddos'' (95 / 100) [] ''e'' sample_flow 1 None None = Inr a
     \<and> normalize [] ''y'' ''ddos'' 3 [] ''e'' sample_flow 1 None None = Inr a'
     \<and> al_severity a \<le> al_severity a' \<and> al_confidence a' \<le> 1"
proof -
  obtain a where a: "normalize [] ''x'' ''ddos'' (95 / 100) [] ''e'' sample_flow 1 None None = Inr a"
    by (simp add: normalize_def Let_def make_flow_id_def str_field_def sample_flow_def)
  obtain a' where a': "normalize [] ''y'' ''ddos'' 3 [] ''e'' sample_flow 1 None None = Inr a'"
    by (simp add: normalize_def Let_def make_flow_id_def str_field_def sample_flow_def)
  show ?thesis
    using normalize_bounded_and_monotone [OF a a'] normalize_bounded_and_monotone [OF a' a'] a a' by auto
qed

text \<open>
  The webhook is called exactly for the alerts worth it: for an alert the normalizer
  produced and a configured URL, a request is attempted if and only if the confidence is at
  least 0.75; it carries the alert's threat class, flow and explanation, and a failing HTTP
  client is logged and never raised.
\<close>

theorem webhook_called_iff_high_confidence:
  assumes "normalize cals i det raw fv expl fi ts ws we = Inr a"
  shows "fst (webhook_notify post url a)
      = (if url \<noteq> None \<and> url \<noteq> Some [] \<and> 75 / 100 \<le> al_confidence a
         then Some (the url, webhook_payload_of a) else None)
    \<and> (snd (webhook_notify post url a) \<longleftrightarrow>
         fst (webhook_notify post url a) \<noteq> None \<and> isl (post (the url) (webhook_payload_of a)))"
proof -
  have "al_severity a = get_severity (al_confidence a)" using assms by (auto simp: normalize_Inr)
  moreover have "s \<in> set [HIGH, CRITICAL] \<longleftrightarrow> HIGH \<le> s" for s
    by (cases s) (simp_all add: less_eq_severity_def)
  ultimately have "al_severity a \<in> set [HIGH, CRITICAL] \<longleftrightarrow> 75 / 100 \<le> al_confidence a"
    by (simp only: get_severity_cases)
  then show ?thesis
    by (auto simp: webhook_notify_def Let_def simp del: set_simps split: option.splits sum.splits)
qed

theorem webhook_called_iff_high_confidence_witness:
  "\<exists>a p. normalize [] ''x'' ''ddos'' (95 / 100) [] ''e'' sample_flow 1 None None = Inr a
     \<and> fst (webhook_notify (\<lambda>_ _. Inl RuntimeError) (Some ''http'') a) = Some (''http'', p)
     \<and> snd (webhook_notify (\<lambda>_ _. Inl RuntimeError) (Some ''http'') a)"
proof -
  obtain a where a: "normalize [] ''x'' ''ddos'' (95 / 100) [] ''e'' sample_flow 1 None None = Inr a"
    and c: "al_confidence a = 95 / 100"
    by (simp add: normalize_def Let_def make_flow_id_def str_field_def sample_flow_def calibrated_def)
  show ?thesis
    using webhook_called_iff_high_confidence [OF a, of "\<lambda>_ _. Inl RuntimeError" "Some ''http''"] a c by auto
qed

end
