(* ===== verification/Correlator.thy ===== *)
theory Correlator
  imports Alerts
begin

text \<open>
  The alert correlator of \<^verbatim>\<open>alerting/correlator.py\<close>: an index from address to a queue of
  recent alerts, evicted through a global queue, stands in for a scan over all past alerts.
  The refinement theorem shows that on alerts with non-decreasing timestamps the index finds
  exactly what the scan finds and that nothing outside the time window is kept; the lemma
  \<open>correlate_sound\<close> shows that for arbitrary timestamps everything it reports is right.

  The iteration order of a Python set is unspecified: \<open>order\<close> turns the distinct ids, in the
  order they were added, into the list \<^verbatim>\<open>list(related_ids)\<close>, and the theorems assume only that
  it permutes them.
\<close>

type_synonym stamp = "real \<times> string"
type_synonym tracked_alert = "real \<times> string \<times> string \<times> string"

record correlator =
  time_window_seconds :: real
  ip_to_alerts :: "(string, stamp list) dict"
  recent_alerts :: "tracked_alert list"

definition correlator_init :: "real \<Rightarrow> correlator" where
  "correlator_init w = \<lparr>time_window_seconds = w, ip_to_alerts = [], recent_alerts = []\<rparr>"

definition prune_ip :: "real \<Rightarrow> string \<Rightarrow> (string, stamp list) dict \<Rightarrow> (string, stamp list) dict" where
  "prune_ip cutoff ip idx =
     (if ip = [] then idx
      else (case map_of idx ip of None \<Rightarrow> idx
            | Some dq \<Rightarrow>
                (let dq = dropWhile (\<lambda>e. fst e < cutoff) dq
                 in if dq = [] then dict_del ip idx else dict_set ip dq idx)))"

fun evict_old ::
    "real \<Rightarrow> tracked_alert list \<Rightarrow> (string, stamp list) dict \<Rightarrow> tracked_alert list \<times> (string, stamp list) dict" where
  "evict_old cutoff [] idx = ([], idx)"
| "evict_old cutoff ((ts, aid, src, dst) # rest) idx =
     (if ts < cutoff then evict_old cutoff rest (prune_ip cutoff dst (prune_ip cutoff src idx))
      else ((ts, aid, src, dst) # rest, idx))"

definition matching :: "real \<Rightarrow> string \<Rightarrow> (string, stamp list) dict \<Rightarrow> string list" where
  "matching cutoff ip idx =
     (if ip = [] then []
      else (case map_of idx ip of None \<Rightarrow> []
            | Some dq \<Rightarrow> map snd (filter (\<lambda>e. cutoff \<le> fst e) dq)))"

definition push_ip :: "string \<Rightarrow> stamp \<Rightarrow> (string, stamp list) dict \<Rightarrow> (string, stamp list) dict" where
  "push_ip ip e idx = (if ip = [] then idx else dict_set ip (dict_get idx ip [] @ [e]) idx)"

definition correlate ::
    "(string list \<Rightarrow> string list) \<Rightarrow> correlator \<Rightarrow> alert \<Rightarrow> alert \<times> correlator" where
  "correlate order c a =
     (let now = al_timestamp a;
          cutoff = now - time_window_seconds c;
          (recent, idx) = evict_old cutoff (recent_alerts c) (ip_to_alerts c);
          src = fid_src_ip (al_flow a); dst = fid_dst_ip (al_flow a);
          related = order (fromkeys (matching cutoff src idx @ matching cutoff dst idx));
          capped = (if 20 < length related then last_n 20 related else related);
          idx = push_ip dst (now, al_id a) (push_ip src (now, al_id a) idx)
      in (a\<lparr>al_related := al_related a @ capped\<rparr>,
          c\<lparr>ip_to_alerts := idx, recent_alerts := recent @ [(now, al_id a, src, dst)]\<rparr>))"

section \<open>The index is the window\<close>

definition entries :: "string \<Rightarrow> tracked_alert list \<Rightarrow> stamp list" where
  "entries ip ts = concat (map (\<lambda>(t, i, s, d). (if s = ip then [(t, i)] else []) @ (if d = ip then [(t, i)] else [])) ts)"

definition nonempty :: "'a list \<Rightarrow> 'a list option" where
  "nonempty xs = (if xs = [] then None else Some xs)"

definition fresh :: "real \<Rightarrow> tracked_alert list \<Rightarrow> tracked_alert list" where
  "fresh cutoff ts = filter (\<lambda>p. \<not> fst p < cutoff) ts"

definition indexed :: "correlator \<Rightarrow> bool" where
  "indexed c \<longleftrightarrow> sorted (map fst (recent_alerts c))
     \<and> (\<forall>ip. ip \<noteq> [] \<longrightarrow> map_of (ip_to_alerts c) ip = nonempty (entries ip (recent_alerts c)))"

lemma entries_simps [simp]:
  "entries ip [] = []"
  "entries ip ((t, i, s, d) # ts)
     = (if s = ip then [(t, i)] else []) @ (if d = ip then [(t, i)] else []) @ entries ip ts"
  "entries ip (xs @ ys) = entries ip xs @ entries ip ys"
  by (simp_all add: entries_def)

lemma entries_fst: "e \<in> set (entries ip ts) \<Longrightarrow> fst e \<in> set (map fst ts)"
  by (induction ts) (auto split: if_splits)

lemma entries_sorted: "sorted (map fst ts) \<Longrightarrow> sorted (map fst (entries ip ts))"
proof (induction ts)
  case (Cons p ts)
  obtain t i s d where p: "p = (t, i, s, d)" by (cases p)
  have "\<forall>x\<in>set (map fst (entries ip ts)). t \<le> x"
    using Cons.prems entries_fst [of _ ip ts] by (fastforce simp: p)
  with Cons show ?case by (auto simp: p)
qed simp

lemma entries_fresh: "filter (\<lambda>e. \<not> fst e < cutoff) (entries ip ts) = entries ip (fresh cutoff ts)"
  by (induction ts) (auto simp: fresh_def)

lemma drop_entries:
  "sorted (map fst ts) \<Longrightarrow> dropWhile (\<lambda>e. fst e < cutoff) (entries ip ts) = entries ip (fresh cutoff ts)"
  by (simp add: dropWhile_filter_sorted entries_sorted entries_fresh)

lemma fresh_sorted: "sorted (map fst ts) \<Longrightarrow> sorted (map fst (fresh cutoff ts))"
  by (simp add: fresh_def sorted_filter)

lemma fresh_fresh: "fresh cutoff (fresh cutoff ts) = fresh cutoff ts"
  by (simp add: fresh_def)

text \<open>While evicting, an address is either untouched so far or already pruned to the window.\<close>

definition pruned_at :: "real \<Rightarrow> tracked_alert list \<Rightarrow> string \<Rightarrow> (string, stamp list) dict \<Rightarrow> bool" where
  "pruned_at cutoff ts ip idx \<longleftrightarrow> map_of idx ip = nonempty (entries ip (fresh cutoff ts))"

definition evicting :: "real \<Rightarrow> tracked_alert list \<Rightarrow> (string, stamp list) dict \<Rightarrow> bool" where
  "evicting cutoff ts idx \<longleftrightarrow>
     (\<forall>ip. ip \<noteq> [] \<longrightarrow> map_of idx ip = nonempty (entries ip ts) \<or> pruned_at cutoff ts ip idx)"

lemma map_of_prune:
  "map_of (prune_ip cutoff ip idx) k =
     (if k = ip \<and> ip \<noteq> [] then
        (case map_of idx ip of None \<Rightarrow> None | Some dq \<Rightarrow> nonempty (dropWhile (\<lambda>e. fst e < cutoff) dq))
      else map_of idx k)"
  by (auto simp: prune_ip_def Let_def nonempty_def map_of_dict_set map_of_dict_del split: option.splits)

lemma prune_result:
  assumes "sorted (map fst ts)" and "evicting cutoff ts idx" and "ip \<noteq> []"
  shows "map_of (prune_ip cutoff ip idx) ip = nonempty (entries ip (fresh cutoff ts))"
proof -
  have "dropWhile (\<lambda>e. fst e < cutoff) (entries ip (fresh cutoff ts)) = entries ip (fresh cutoff ts)"
    using drop_entries [OF fresh_sorted [OF assms(1)]] by (simp add: fresh_fresh)
  moreover have "map_of idx ip = nonempty (entries ip ts) \<or> map_of idx ip = nonempty (entries ip (fresh cutoff ts))"
    using assms(2,3) by (auto simp: evicting_def pruned_at_def)
  ultimately show ?thesis
    using drop_entries [OF assms(1), of cutoff ip]
    by (auto simp: map_of_prune assms(3) nonempty_def split: if_splits)
qed

lemma prune_other: "k \<noteq> ip \<Longrightarrow> map_of (prune_ip cutoff ip idx) k = map_of idx k"
  by (simp add: map_of_prune)

lemma prune_evicting:
  "sorted (map fst ts) \<Longrightarrow> evicting cutoff ts idx \<Longrightarrow> evicting cutoff ts (prune_ip cutoff ip idx)"
  unfolding evicting_def [of _ _ "prune_ip _ _ _"] pruned_at_def
  by (metis prune_result prune_other evicting_def pruned_at_def)

lemma evict_step:
  assumes "sorted (map fst ((t, i, s, d) # ts))" and "evicting cutoff ((t, i, s, d) # ts) idx" and "t < cutoff"
  shows "evicting cutoff ts (prune_ip cutoff d (prune_ip cutoff s idx))"
proof -
  let ?ts = "(t, i, s, d) # ts"
  let ?idx = "prune_ip cutoff d (prune_ip cutoff s idx)"
  have fr: "fresh cutoff ?ts = fresh cutoff ts" using assms(3) by (simp add: fresh_def)
  have "map_of ?idx ip = nonempty (entries ip ts) \<or> map_of ?idx ip = nonempty (entries ip (fresh cutoff ts))"
    if "ip \<noteq> []" for ip
  proof (cases "ip = s \<or> ip = d")
    case True
    then have "map_of ?idx ip = nonempty (entries ip (fresh cutoff ?ts))"
      using prune_result [OF assms(1,2) that] prune_other [of ip d cutoff "prune_ip cutoff s idx"]
        prune_result [OF assms(1) prune_evicting [OF assms(1,2), of s] that] by metis
    then show ?thesis by (simp add: fr)
  next
    case False
    then have "map_of ?idx ip = map_of idx ip" by (simp add: prune_other)
    moreover have "entries ip ?ts = entries ip ts" using False by auto
    ultimately show ?thesis using assms(2) that fr by (auto simp: evicting_def pruned_at_def)
  qed
  then show ?thesis by (simp add: evicting_def pruned_at_def)
qed

lemma evict_old_window:
  assumes "sorted (map fst ts)" and "evicting cutoff ts idx" and "evict_old cutoff ts idx = (ts', idx')"
  shows "ts' = fresh cutoff ts \<and> (\<forall>ip. ip \<noteq> [] \<longrightarrow> map_of idx' ip = nonempty (entries ip (fresh cutoff ts)))"
  using assms
proof (induction ts arbitrary: idx)
  case Nil
  then show ?case by (auto simp: fresh_def evicting_def pruned_at_def)
next
  case (Cons p ts)
  obtain t i s d where p: "p = (t, i, s, d)" by (cases p)
  show ?case
  proof (cases "t < cutoff")
    case True
    have "sorted (map fst ts)" using Cons.prems(1) by simp
    moreover have "evicting cutoff ts (prune_ip cutoff d (prune_ip cutoff s idx))"
      using evict_step Cons.prems(1,2) True unfolding p by blast
    moreover have "evict_old cutoff ts (prune_ip cutoff d (prune_ip cutoff s idx)) = (ts', idx')"
      using Cons.prems(3) True by (simp add: p)
    ultimately have "ts' = fresh cutoff ts
        \<and> (\<forall>ip. ip \<noteq> [] \<longrightarrow> map_of idx' ip = nonempty (entries ip (fresh cutoff ts)))" by (rule Cons.IH)
    with True show ?thesis by (simp add: p fresh_def)
  next
    case False
    then have "fresh cutoff (p # ts) = p # ts"
      using Cons.prems(1) by (auto simp: p fresh_def filter_id_conv)
    with False Cons.prems(2,3) show ?thesis by (auto simp: p evicting_def pruned_at_def)
  qed
qed

section \<open>Refinement of the scan\<close>

definition track :: "alert \<Rightarrow> tracked_alert" where
  "track a = (al_timestamp a, al_id a, fid_src_ip (al_flow a), fid_dst_ip (al_flow a))"

fun correlator_run ::
    "(string list \<Rightarrow> string list) \<Rightarrow> correlator \<Rightarrow> alert list \<Rightarrow> alert list \<times> correlator" where
  "correlator_run order c [] = ([], c)"
| "correlator_run order c (a # as) =
     (let (b, c) = correlate order c a; (bs, c) = correlator_run order c as in (b # bs, c))"

text \<open>The scan the index replaces: past alerts in the window that share a non-empty address.\<close>

definition related_by_scan :: "real \<Rightarrow> alert list \<Rightarrow> alert \<Rightarrow> string set" where
  "related_by_scan w past a =
     {al_id p | p. p \<in> set past \<and> al_timestamp a - w \<le> al_timestamp p
        \<and> (\<exists>ip\<in>{fid_src_ip (al_flow a), fid_dst_ip (al_flow a)}.
             ip \<noteq> [] \<and> ip \<in> {fid_src_ip (al_flow p), fid_dst_ip (al_flow p)})}"

definition window_of :: "real \<Rightarrow> alert list \<Rightarrow> real \<Rightarrow> tracked_alert list" where
  "window_of w past now = fresh (now - w) (map track past)"

lemma entries_track:
  "snd ` set (entries ip (map track ps))
     = {al_id p | p. p \<in> set ps \<and> ip \<in> {fid_src_ip (al_flow p), fid_dst_ip (al_flow p)}}"
  by (induction ps) (auto simp: track_def)

lemma fresh_track: "fresh c (map track ps) = map track (filter (\<lambda>p. c \<le> al_timestamp p) ps)"
  by (induction ps) (auto simp: fresh_def track_def not_less)

lemma nonempty_case: "(case nonempty xs of None \<Rightarrow> [] | Some ys \<Rightarrow> f ys) = (if xs = [] then [] else f xs)"
  by (simp add: nonempty_def)

lemma matching_set:
  assumes "ip \<noteq> []" and "map_of idx ip = nonempty (entries ip (fresh cutoff ts))"
  shows "set (matching cutoff ip idx) = snd ` set (entries ip (fresh cutoff ts))"
proof -
  have "filter (\<lambda>e. cutoff \<le> fst e) (entries ip (fresh cutoff ts)) = entries ip (fresh cutoff ts)"
    using entries_fresh [of cutoff ip "fresh cutoff ts"] by (simp add: fresh_fresh not_less)
  then show ?thesis using assms by (simp add: matching_def nonempty_case)
qed

lemma push_map_of:
  "map_of (push_ip ip e idx) k = (if k = ip \<and> ip \<noteq> [] then Some (dict_get idx ip [] @ [e]) else map_of idx k)"
  by (simp add: push_ip_def map_of_dict_set)

definition capped_order :: "(string list \<Rightarrow> string list) \<Rightarrow> string list \<Rightarrow> string list" where
  "capped_order order ids = (let r = order (fromkeys ids) in if 20 < length r then last_n 20 r else r)"

lemma capped_order_props:
  assumes "\<And>xs. mset (order xs) = mset xs"
  shows "set (capped_order order ids) \<subseteq> set ids" "distinct (capped_order order ids)"
    "length (capped_order order ids) = min 20 (card (set ids))"
proof -
  let ?r = "order (fromkeys ids)"
  have m: "mset ?r = mset (fromkeys ids)" by (rule assms)
  have s: "set ?r = set ids" and d: "distinct ?r"
    using mset_eq_setD [OF m] mset_eq_imp_distinct_iff [OF m] fromkeys_distinct_set [of ids] by auto
  have len: "length ?r = card (set ids)" using distinct_card [OF d] s by simp
  show "set (capped_order order ids) \<subseteq> set ids"
    using s set_last_n [of 20 ?r] by (auto simp: capped_order_def Let_def)
  show "distinct (capped_order order ids)" using d by (simp add: capped_order_def Let_def last_n_def)
  show "length (capped_order order ids) = min 20 (card (set ids))"
    by (simp add: capped_order_def Let_def len)
qed

lemma correlate_indexed:
  assumes "indexed c" and "\<forall>p\<in>set (recent_alerts c). fst p \<le> al_timestamp a"
    and "correlate order c a = (b, c')"
  shows "indexed c' \<and> time_window_seconds c' = time_window_seconds c
    \<and> recent_alerts c' = fresh (al_timestamp a - time_window_seconds c) (recent_alerts c) @ [track a]
    \<and> (\<exists>ids. b = a\<lparr>al_related := al_related a @ capped_order order ids\<rparr>
        \<and> set ids = (\<Union>ip\<in>{fid_src_ip (al_flow a), fid_dst_ip (al_flow a)} - {[]}.
             snd ` set (entries ip (fresh (al_timestamp a - time_window_seconds c) (recent_alerts c)))))"
proof -
  define cutoff where "cutoff = al_timestamp a - time_window_seconds c"
  define src where "src = fid_src_ip (al_flow a)"
  define dst where "dst = fid_dst_ip (al_flow a)"
  obtain ts idx where ev: "evict_old cutoff (recent_alerts c) (ip_to_alerts c) = (ts, idx)" by fastforce
  have "evicting cutoff (recent_alerts c) (ip_to_alerts c)"
    using assms(1) by (simp add: indexed_def evicting_def)
  then have ts: "ts = fresh cutoff (recent_alerts c)"
    and idx: "\<And>ip. ip \<noteq> [] \<Longrightarrow> map_of idx ip = nonempty (entries ip (fresh cutoff (recent_alerts c)))"
    using evict_old_window [OF _ _ ev] assms(1) by (auto simp: indexed_def)
  let ?e = "(al_timestamp a, al_id a)"
  let ?ids = "matching cutoff src idx @ matching cutoff dst idx"
  have b: "b = a\<lparr>al_related := al_related a @ capped_order order ?ids\<rparr>"
    and c': "c' = c\<lparr>ip_to_alerts := push_ip dst ?e (push_ip src ?e idx),
        recent_alerts := ts @ [(al_timestamp a, al_id a, src, dst)]\<rparr>"
    using assms(3) ev
    by (auto simp: correlate_def Let_def cutoff_def src_def dst_def capped_order_def)
  have track: "track a = (al_timestamp a, al_id a, src, dst)" by (simp add: track_def src_def dst_def)
  have m: "set (matching cutoff ip idx)
      = (if ip = [] then {} else snd ` set (entries ip (fresh cutoff (recent_alerts c))))" for ip
    using matching_set [OF _ idx] by (cases "ip = []") (simp_all add: matching_def)
  have "set ?ids = (\<Union>ip\<in>{src, dst} - {[]}. snd ` set (entries ip (fresh cutoff (recent_alerts c))))"
    by (auto simp: m)
  with b have "\<exists>ids. b = a\<lparr>al_related := al_related a @ capped_order order ids\<rparr>
      \<and> set ids = (\<Union>ip\<in>{src, dst} - {[]}. snd ` set (entries ip (fresh cutoff (recent_alerts c))))"
    by blast
  moreover have "sorted (map fst (ts @ [track a]))"
    using assms(1,2) fresh_sorted [of "recent_alerts c" cutoff]
    by (auto simp: ts indexed_def sorted_append track fresh_def)
  moreover have "map_of (ip_to_alerts c') ip = nonempty (entries ip (ts @ [track a]))" if "ip \<noteq> []" for ip
    using idx [OF that] that
    by (auto simp: c' push_map_of dict_get_def nonempty_def track ts split: if_splits)
  ultimately show ?thesis
    by (simp add: indexed_def c' track ts flip: cutoff_def src_def dst_def)
qed

text \<open>The alerts of a run still in the window of the last one.\<close>

definition corr_state :: "real \<Rightarrow> alert list \<Rightarrow> correlator \<Rightarrow> bool" where
  "corr_state w past c \<longleftrightarrow> indexed c \<and> time_window_seconds c = w
     \<and> recent_alerts c = (if past = [] then [] else window_of w past (al_timestamp (last past)))"

lemma fresh_mono: "c \<le> c' \<Longrightarrow> fresh c' (fresh c ts) = fresh c' ts"
  by (auto simp: fresh_def intro!: filter_cong)

lemma corr_state_step:
  assumes "corr_state w past c" and "sorted (map al_timestamp (past @ [a]))" and "0 \<le> w"
    and perm: "\<And>xs. mset (order xs) = mset xs" and step: "correlate order c a = (b, c')"
  shows "corr_state w (past @ [a]) c'
    \<and> (\<exists>r. b = a\<lparr>al_related := al_related a @ r\<rparr> \<and> distinct r \<and> set r \<subseteq> related_by_scan w past a
        \<and> length r = min 20 (card (related_by_scan w past a)))"
proof -
  let ?cut = "al_timestamp a - w"
  have win: "fresh ?cut (recent_alerts c) = window_of w past (al_timestamp a)"
  proof (cases "past = []")
    case True
    then show ?thesis using assms(1) by (simp add: corr_state_def window_of_def fresh_def)
  next
    case False
    then have "al_timestamp (last past) \<le> al_timestamp a"
      using assms(2) by (simp add: sorted_append)
    then show ?thesis
      using assms(1) False by (simp add: corr_state_def window_of_def fresh_mono)
  qed
  have rec: "\<forall>p\<in>set (recent_alerts c). fst p \<le> al_timestamp a"
    using assms(1,2) by (auto simp: corr_state_def window_of_def fresh_def track_def sorted_append split: if_splits)
  have w: "time_window_seconds c = w" and "indexed c" using assms(1) by (simp_all add: corr_state_def)
  obtain ids where c': "indexed c'" "time_window_seconds c' = w"
      "recent_alerts c' = window_of w past (al_timestamp a) @ [track a]"
    and b: "b = a\<lparr>al_related := al_related a @ capped_order order ids\<rparr>"
    and ids: "set ids = (\<Union>ip\<in>{fid_src_ip (al_flow a), fid_dst_ip (al_flow a)} - {[]}.
        snd ` set (entries ip (window_of w past (al_timestamp a))))"
    using correlate_indexed [OF \<open>indexed c\<close> rec step] unfolding w win by blast
  have scan: "set ids = related_by_scan w past a"
    unfolding ids window_of_def fresh_track entries_track related_by_scan_def by auto
  have "window_of w (past @ [a]) (al_timestamp a) = window_of w past (al_timestamp a) @ [track a]"
    using assms(3) by (simp add: window_of_def fresh_def track_def)
  with c' have "corr_state w (past @ [a]) c'" by (simp add: corr_state_def)
  moreover note capped_order_props [OF perm, of ids, unfolded scan]
  ultimately show ?thesis using b by blast
qed

lemma correlator_run_state:
  assumes "corr_state w past c" and "sorted (map al_timestamp (past @ as))" and "0 \<le> w"
    and "\<And>xs. mset (order xs) = mset xs" and "correlator_run order c as = (bs, c')"
  shows "corr_state w (past @ as) c'"
  using assms
proof (induction as arbitrary: past c bs)
  case Nil
  then show ?case by simp
next
  case (Cons a as)
  obtain b d where d: "correlate order c a = (b, d)" by fastforce
  obtain bs' where run: "correlator_run order d as = (bs', c')"
    using Cons.prems(5) d by (auto split: prod.splits)
  have "sorted (map al_timestamp (past @ [a]))" using Cons.prems(2) by (auto simp: sorted_append)
  then have "corr_state w (past @ [a]) d"
    using corr_state_step [OF Cons.prems(1) _ Cons.prems(3,4) d] by blast
  from Cons.IH [OF this _ Cons.prems(3,4) run] Cons.prems(2) show ?case by simp
qed

lemma correlator_init_state: "corr_state w [] (correlator_init w)"
  by (simp add: corr_state_def correlator_init_def indexed_def nonempty_def)

text \<open>
  C4. The indexed correlator refines the scan: on alerts with non-decreasing timestamps, the
  ids it adds to an alert are distinct, each belongs to an earlier alert within the time
  window that shares a non-empty address with it, there are 20 or as many as the scan
  finds, whichever is less (so all of them when the scan finds at most 20), nothing else of
  the alert changes, and the correlator keeps exactly the alerts inside the window.
\<close>

theorem correlator_refines_scan:
  assumes "0 \<le> w" and "sorted (map al_timestamp (past @ [a]))" and "\<And>xs. mset (order xs) = mset xs"
    and "correlator_run order (correlator_init w) past = (bs, c)" and "correlate order c a = (b, c')"
  shows "\<exists>r. b = a\<lparr>al_related := al_related a @ r\<rparr> \<and> distinct r \<and> set r \<subseteq> related_by_scan w past a
    \<and> length r = min 20 (card (related_by_scan w past a))
    \<and> recent_alerts c' = map track (filter (\<lambda>p. al_timestamp a - w \<le> al_timestamp p) (past @ [a]))"
proof -
  have "sorted (map al_timestamp ([] @ past))" using assms(2) by (simp add: sorted_append)
  from correlator_run_state [OF correlator_init_state this assms(1,3,4)]
  have "corr_state w past c" by simp
  from corr_state_step [OF this assms(2,1,3,5)]
  have c': "corr_state w (past @ [a]) c'" and
    b: "\<exists>r. b = a\<lparr>al_related := al_related a @ r\<rparr> \<and> distinct r \<and> set r \<subseteq> related_by_scan w past a
        \<and> length r = min 20 (card (related_by_scan w past a))" by auto
  from c' have "recent_alerts c' = map track (filter (\<lambda>p. al_timestamp a - w \<le> al_timestamp p) (past @ [a]))"
    using fresh_track [of "al_timestamp a - w" "past @ [a]"] by (simp add: corr_state_def window_of_def)
  with b show ?thesis by blast
qed

definition sample_alert :: "string \<Rightarrow> real \<Rightarrow> alert" where
  "sample_alert i t = \<lparr>al_id = i, al_timestamp = t, al_detector = ''ddos'',
     al_flow = \<lparr>fid_src_ip = ''10.0.0.1'', fid_dst_ip = ''8.8.8.8'', fid_src_port = Some 1,
                fid_dst_port = Some 2, fid_protocol = ''TCP''\<rparr>,
     al_threat_class = ''DDOS'', al_severity = HIGH, al_confidence = 8 / 10,
     al_evidence = \<lparr>ev_features = [], ev_explanation = ''e'', ev_window_start = None, ev_window_end = None\<rparr>,
     al_related = []\<rparr>"

theorem correlator_refines_scan_witness:
  "\<exists>bs c b c'. correlator_run rev (correlator_init 300) [sample_alert ''a'' 0, sample_alert ''b'' 200] = (bs, c)
     \<and> correlate rev c (sample_alert ''c'' 400) = (b, c') \<and> al_related b = [''b'']"
proof -
  let ?past = "[sample_alert ''a'' 0, sample_alert ''b'' 200]"
  obtain bs c where run: "correlator_run rev (correlator_init 300) ?past = (bs, c)" by fastforce
  obtain b c' where step: "correlate rev c (sample_alert ''c'' 400) = (b, c')" by fastforce
  have scan: "related_by_scan 300 ?past (sample_alert ''c'' 400) = {''b''}"
    by (auto simp: related_by_scan_def sample_alert_def intro!: exI [of _ "sample_alert ''b'' 200"])
  have srt: "sorted (map al_timestamp (?past @ [sample_alert ''c'' 400]))" by (simp add: sample_alert_def)
  obtain r where "b = (sample_alert ''c'' 400)\<lparr>al_related := al_related (sample_alert ''c'' 400) @ r\<rparr>"
    "set r \<subseteq> {''b''}" "length r = min 20 (card {''b''})"
    using correlator_refines_scan [OF _ srt _ run step] unfolding scan by auto
  then have "al_related b = [''b'']" by (cases r) (auto simp: sample_alert_def)
  with run step show ?thesis by blast
qed

section \<open>Arbitrary timestamps\<close>

text \<open>
  Alerts of different sources may arrive out of order. The index may then forget alerts the
  scan would still find, but what it reports is right in every case.
\<close>

definition index_sound :: "alert list \<Rightarrow> (string, stamp list) dict \<Rightarrow> bool" where
  "index_sound past idx \<longleftrightarrow>
     (\<forall>ip dq e. map_of idx ip = Some dq \<longrightarrow> e \<in> set dq \<longrightarrow>
        (\<exists>p\<in>set past. e = (al_timestamp p, al_id p) \<and> ip \<noteq> []
           \<and> ip \<in> {fid_src_ip (al_flow p), fid_dst_ip (al_flow p)}))"

lemma index_sound_prune:
  assumes "index_sound past idx"
  shows "index_sound past (prune_ip cutoff ip idx)"
proof -
  have "\<exists>dq'. map_of idx k = Some dq' \<and> set dq \<subseteq> set dq'"
    if "map_of (prune_ip cutoff ip idx) k = Some dq" for k dq
    using that
    by (auto simp: map_of_prune nonempty_def dest: set_dropWhileD split: if_splits option.splits)
  then show ?thesis using assms unfolding index_sound_def by blast
qed

lemma index_sound_evict:
  "index_sound past idx \<Longrightarrow> index_sound past (snd (evict_old cutoff ts idx))"
  by (induction cutoff ts idx rule: evict_old.induct) (simp_all add: index_sound_prune)

lemma index_sound_push:
  assumes "index_sound past idx" and "ip \<in> {fid_src_ip (al_flow a), fid_dst_ip (al_flow a)}"
    and "a \<in> set past"
  shows "index_sound past (push_ip ip (al_timestamp a, al_id a) idx)"
  using assms unfolding index_sound_def push_map_of
  by (fastforce simp: dict_get_def split: if_splits option.splits)

lemma index_sound_mono: "index_sound past idx \<Longrightarrow> set past \<subseteq> set past' \<Longrightarrow> index_sound past' idx"
  unfolding index_sound_def by blast

lemma correlate_sound:
  assumes "index_sound past (ip_to_alerts c)" and perm: "\<And>xs. mset (order xs) = mset xs"
    and "correlate order c a = (b, c')"
  shows "index_sound (past @ [a]) (ip_to_alerts c')
    \<and> set (al_related b) \<subseteq> set (al_related a) \<union> related_by_scan (time_window_seconds c) past a"
proof -
  define cutoff where "cutoff = al_timestamp a - time_window_seconds c"
  define idx where "idx = snd (evict_old cutoff (recent_alerts c) (ip_to_alerts c))"
  let ?src = "fid_src_ip (al_flow a)" and ?dst = "fid_dst_ip (al_flow a)"
  have idx: "index_sound past idx" unfolding idx_def using assms(1) by (rule index_sound_evict)
  have b: "al_related b = al_related a
      @ capped_order order (matching cutoff ?src idx @ matching cutoff ?dst idx)"
    and c': "ip_to_alerts c' = push_ip ?dst (al_timestamp a, al_id a) (push_ip ?src (al_timestamp a, al_id a) idx)"
    using assms(3) by (auto simp: correlate_def Let_def cutoff_def idx_def capped_order_def split: prod.splits)
  have "index_sound (past @ [a]) (ip_to_alerts c')"
    unfolding c' by (intro index_sound_push index_sound_mono [OF idx]) auto
  moreover have "set (matching cutoff ip idx) \<subseteq> related_by_scan (time_window_seconds c) past a"
    if "ip \<in> {?src, ?dst}" for ip
  proof
    fix i assume "i \<in> set (matching cutoff ip idx)"
    then obtain dq t where "map_of idx ip = Some dq" "(t, i) \<in> set dq" "cutoff \<le> t"
      by (cases "map_of idx ip") (auto simp: matching_def split: if_splits)
    then obtain p where "p \<in> set past" "t = al_timestamp p" "i = al_id p" "ip \<noteq> []"
      "ip \<in> {fid_src_ip (al_flow p), fid_dst_ip (al_flow p)}"
      using idx unfolding index_sound_def by fastforce
    with that \<open>cutoff \<le> t\<close> show "i \<in> related_by_scan (time_window_seconds c) past a"
      unfolding related_by_scan_def cutoff_def by blast
  qed
  then have "set (matching cutoff ?src idx @ matching cutoff ?dst idx)
      \<subseteq> related_by_scan (time_window_seconds c) past a" by simp
  with capped_order_props(1) [OF perm, of "matching cutoff ?src idx @ matching cutoff ?dst idx"]
  have "set (al_related b) \<subseteq> set (al_related a) \<union> related_by_scan (time_window_seconds c) past a"
    unfolding b set_append [of "al_related a"] by blast
  ultimately show ?thesis by blast
qed

end
