(* ===== verification/Json.thy ===== *)
theory Json
  imports Prelude
begin

text \<open>
  The part of Python's \<^verbatim>\<open>json\<close> module the alert stores use on lists of strings: \<open>json_dumps\<close>
  with its default ASCII escaping and \<open>json_loads\<close>. The round trip is proved for all strings of
  code points below 256.
\<close>

section \<open>JSON lists of strings\<close>

definition quote_char :: char where "quote_char = CHR 0x22"
definition backslash :: char where "backslash = CHR 0x5C"

definition unhex :: "char \<Rightarrow> nat option" where
  "unhex c = (let n = of_char c :: nat
     in if 48 \<le> n \<and> n \<le> 57 then Some (n - 48)
        else if 97 \<le> n \<and> n \<le> 102 then Some (n - 87)
        else if 65 \<le> n \<and> n \<le> 70 then Some (n - 55) else None)"

definition json_escape :: "char \<Rightarrow> string" where
  "json_escape c =
     (let n = of_char c :: nat
      in if c = quote_char then [backslash, quote_char]
         else if c = backslash then [backslash, backslash]
         else if n = 10 then [backslash, CHR ''n''] else if n = 13 then [backslash, CHR ''r'']
         else if n = 9 then [backslash, CHR ''t''] else if n = 12 then [backslash, CHR ''f'']
         else if n = 8 then [backslash, CHR ''b'']
         else if 32 \<le> n \<and> n \<le> 126 then [c]
         else [backslash, CHR ''u'', CHR ''0'', CHR ''0'', hex_char (n div 16), hex_char (n mod 16)])"

definition json_quote :: "string \<Rightarrow> string" where
  "json_quote s = [quote_char] @ concat (map json_escape s) @ [quote_char]"

fun json_join :: "string list \<Rightarrow> string" where
  "json_join [] = []"
| "json_join [s] = json_quote s"
| "json_join (s # ss) = json_quote s @ '', '' @ json_join ss"

definition json_dumps :: "string list \<Rightarrow> string" where
  "json_dumps ss = ''['' @ json_join ss @ '']''"

definition unescape_simple :: "char \<Rightarrow> char option" where
  "unescape_simple e =
     (if e = quote_char then Some quote_char else if e = backslash then Some backslash
      else if e = CHR ''/'' then Some (CHR ''/'')
      else if e = CHR ''n'' then Some (char_of (10 :: nat)) else if e = CHR ''r'' then Some (char_of (13 :: nat))
      else if e = CHR ''t'' then Some (char_of (9 :: nat)) else if e = CHR ''f'' then Some (char_of (12 :: nat))
      else if e = CHR ''b'' then Some (char_of (8 :: nat)) else None)"

text \<open>
  The body of a string literal after its opening quote, and the rest of the text. Code points
  above 255 do not occur in the model's strings and are refused like malformed input; so are
  raw control characters.
\<close>

fun json_scan :: "string \<Rightarrow> (string \<times> string) option" where
  "json_scan [] = None"
| "json_scan (c # r) =
     (if c = quote_char then Some ([], r)
      else if c = backslash then
        (case r of [] \<Rightarrow> None
         | e # r' \<Rightarrow>
             if e = CHR ''u'' then
               (case r' of
                  a # b # x # y # r'' \<Rightarrow>
                    (case (unhex a, unhex b, unhex x, unhex y) of
                       (Some 0, Some 0, Some h, Some l) \<Rightarrow>
                         map_option (\<lambda>(s, t). (char_of (16 * h + l) # s, t)) (json_scan r'')
                     | _ \<Rightarrow> None)
                | _ \<Rightarrow> None)
             else (case unescape_simple e of None \<Rightarrow> None
                   | Some ch \<Rightarrow> map_option (\<lambda>(s, t). (ch # s, t)) (json_scan r')))
      else if of_char c < (32 :: nat) then None
      else map_option (\<lambda>(s, t). (c # s, t)) (json_scan r))"

definition skip_ws :: "string \<Rightarrow> string" where
  "skip_ws t = dropWhile (\<lambda>c. c \<in> set [CHR '' '', CHR 0x09, CHR 0x0A, CHR 0x0D]) t"

text \<open>The elements after the first bracket; \<open>n\<close> bounds their number by the length of the text.\<close>

fun json_items :: "nat \<Rightarrow> string \<Rightarrow> (string list \<times> string) option" where
  "json_items 0 t = None"
| "json_items (Suc n) t =
     (case skip_ws t of [] \<Rightarrow> None
      | c # r \<Rightarrow>
          if c = quote_char then
            (case json_scan r of None \<Rightarrow> None
             | Some (s, r) \<Rightarrow>
                 (case skip_ws r of [] \<Rightarrow> None
                  | d # r \<Rightarrow>
                      if d = CHR '']'' then Some ([s], r)
                      else if d = CHR '','' then map_option (\<lambda>(ss, t). (s # ss, t)) (json_items n r)
                      else None))
          else None)"

definition json_loads :: "string \<Rightarrow> string list result" where
  "json_loads t =
     (case skip_ws t of [] \<Rightarrow> Inl ValueError
      | c # r \<Rightarrow>
          if c = CHR ''['' then
            (case skip_ws r of [] \<Rightarrow> Inl ValueError
             | d # r' \<Rightarrow>
                 if d = CHR '']'' then (if skip_ws r' = [] then Inr [] else Inl ValueError)
                 else (case json_items (length t) r of
                         Some (ss, r) \<Rightarrow> if skip_ws r = [] then Inr ss else Inl ValueError
                       | None \<Rightarrow> Inl ValueError))
          else Inl ValueError)"

lemma unhex_hex_char: "d < 16 \<Longrightarrow> unhex (hex_char d) = Some d"
  by (auto simp: unhex_def hex_char_def Let_def)

lemma char_hex_split: "char_of (16 * (of_char c div 16) + of_char c mod 16 :: nat) = (c :: char)"
  by simp

lemma char_of_code: "of_char c = (n :: nat) \<Longrightarrow> c = char_of n"
  by auto

lemma json_scan_simple:
  assumes "json_scan rest = Some (s, t)" and "e \<noteq> CHR ''u''" and "unescape_simple e = Some c"
  shows "json_scan ([backslash, e] @ rest) = Some (c # s, t)"
  using assms by (simp add: backslash_def quote_char_def)

lemma json_escape_simple:
  assumes "c = quote_char \<or> c = backslash \<or> of_char c \<in> {8, 9, 10, 12, 13 :: nat}"
  shows "\<exists>e. json_escape c = [backslash, e] \<and> e \<noteq> CHR ''u'' \<and> unescape_simple e = Some c"
  using assms
  by (auto simp: json_escape_def Let_def quote_char_def backslash_def unescape_simple_def dest!: char_of_code)

lemma json_scan_escape:
  assumes "json_scan rest = Some (s, t)"
  shows "json_scan (json_escape c @ rest) = Some (c # s, t)"
proof (cases "c = quote_char \<or> c = backslash \<or> of_char c \<in> {8, 9, 10, 12, 13 :: nat}")
  case True
  then obtain e where "json_escape c = [backslash, e]" "e \<noteq> CHR ''u''" "unescape_simple e = Some c"
    using json_escape_simple by blast
  with json_scan_simple [OF assms] show ?thesis by simp
next
  case False
  let ?n = "of_char c :: nat"
  show ?thesis
  proof (cases "32 \<le> ?n \<and> ?n \<le> 126")
    case True
    with False have "json_escape c = [c]" by (simp add: json_escape_def Let_def)
    with True False assms show ?thesis by simp
  next
    case nonprint: False
    then have e: "json_escape c = [backslash, CHR ''u'', CHR ''0'', CHR ''0'', hex_char (?n div 16), hex_char (?n mod 16)]"
      using False by (auto simp: json_escape_def Let_def)
    have "?n div 16 < 16" using nat_of_char_less_256 [of c] by linarith
    then have "unhex (hex_char (?n div 16)) = Some (?n div 16)" "unhex (hex_char (?n mod 16)) = Some (?n mod 16)"
      by (simp_all add: unhex_hex_char)
    moreover have "unhex (CHR ''0'') = Some 0" by (simp add: unhex_def)
    ultimately show ?thesis
      using assms by (simp add: e backslash_def quote_char_def)
  qed
qed

lemma json_scan_quoted: "json_scan (concat (map json_escape s) @ quote_char # rest) = Some (s, rest)"
  by (induction s) (simp_all add: json_scan_escape)

lemma skip_ws_head: "c \<notin> set [CHR '' '', CHR 0x09, CHR 0x0A, CHR 0x0D] \<Longrightarrow> skip_ws (c # r) = c # r"
  by (simp add: skip_ws_def)

lemma skip_ws_space [simp]: "skip_ws (CHR '' '' # r) = skip_ws r"
  by (simp add: skip_ws_def)

lemma json_items_join:
  "ss \<noteq> [] \<Longrightarrow> length ss \<le> n \<Longrightarrow> json_items n (json_join ss @ CHR '']'' # rest) = Some (ss, rest)"
proof (induction ss arbitrary: n rule: json_join.induct)
  case (2 s)
  then obtain m where "n = Suc m" by (cases n) auto
  then show ?case
    by (simp add: json_quote_def json_scan_quoted skip_ws_head quote_char_def) (simp add: json_scan_quoted [unfolded quote_char_def] skip_ws_head)
next
  case (3 s s' ss)
  then obtain m where m: "n = Suc m" "length (s' # ss) \<le> m" by (cases n) auto
  have ws: "json_items m (CHR '' '' # t) = json_items m t" for t by (cases m) simp_all
  from 3 m show ?case
    by (simp add: json_quote_def skip_ws_head quote_char_def json_scan_quoted [unfolded quote_char_def] ws)
qed simp

lemma length_json_join: "length ss \<le> length (json_join ss)"
  by (induction ss rule: json_join.induct) (simp_all add: json_quote_def)

lemma json_join_head: "ss \<noteq> [] \<Longrightarrow> \<exists>r. json_join ss = quote_char # r"
  by (induction ss rule: json_join.induct) (simp_all add: json_quote_def)

lemma json_loads_dumps [simp]: "json_loads (json_dumps ss) = Inr ss"
proof (cases "ss = []")
  case True
  then show ?thesis by (simp add: json_dumps_def json_loads_def skip_ws_def)
next
  case False
  obtain r where r: "json_join ss = quote_char # r" using json_join_head [OF False] by blast
  have "json_items (length (json_dumps ss)) (json_join ss @ '']'') = Some (ss, [])"
    using json_items_join [OF False, of "length (json_dumps ss)" "[]"] length_json_join [of ss]
    by (simp add: json_dumps_def)
  then show ?thesis
    unfolding json_loads_def
    by (simp add: json_dumps_def skip_ws_head r quote_char_def) (simp add: skip_ws_def)
qed

end
