(* ===== verification/AlertStore.thy ===== *)
theory AlertStore
  imports Alerts Json
begin

text \<open>
  The SQLite alert sink of \<^verbatim>\<open>alerting/store.py\<close>: a write buffer in front of a table keyed by
  alert id, with reads that flush first. The lock is modelled: it is not re-entrant, so an
  operation that takes it twice never returns, and \<open>None\<close> is that outcome. A database
  operation may fail, which is an argument of the operations that can meet it. The text
  columns are JSON: the list of related ids is modelled down to the characters, the two
  pydantic serialisations are the parameter \<open>codec\<close>, and what SQL leaves open (the order of
  ties and groups) is the parameter \<open>sql\<close>.

  The locale \<open>alert_sink\<close> states what both alert stores promise their callers; the theory
  \<open>ClickHouse\<close> interprets it a second time.
\<close>

section \<open>What an alert sink promises\<close>

text \<open>
  \<open>contents\<close> are the rows a sink answers for, stored or still pending; \<open>absorb\<close> says how one
  more alert changes them.
\<close>

locale alert_sink =
  fixes ok :: "'s \<Rightarrow> bool" and capacity :: "'s \<Rightarrow> nat"
    and stored :: "'s \<Rightarrow> 'r list" and pending :: "'s \<Rightarrow> alert list"
    and absorb :: "'r list \<Rightarrow> alert \<Rightarrow> 'r list"
    and append :: "'s \<Rightarrow> alert \<Rightarrow> 's" and flush :: "'s \<Rightarrow> 's"
  assumes append_ok: "ok s \<Longrightarrow> ok (append s a) \<and> capacity (append s a) = capacity s"
    and flush_ok: "ok s \<Longrightarrow> ok (flush s) \<and> capacity (flush s) = capacity s"
    and append_contents: "ok s \<Longrightarrow>
      foldl absorb (stored (append s a)) (pending (append s a)) = absorb (foldl absorb (stored s) (pending s)) a"
    and flush_contents: "ok s \<Longrightarrow> stored (flush s) = foldl absorb (stored s) (pending s)"
    and flush_empties: "ok s \<Longrightarrow> pending (flush s) = []"
    and append_bounded: "ok s \<Longrightarrow> length (pending (append s a)) < max 1 (capacity s)"
begin

definition contents :: "'s \<Rightarrow> 'r list" where
  "contents s = foldl absorb (stored s) (pending s)"

lemma run_contents:
  "ok s \<Longrightarrow> ok (foldl append s as) \<and> contents (foldl append s as) = foldl absorb (contents s) as"
proof (induction as arbitrary: s)
  case Nil
  then show ?case by simp
next
  case (Cons a as)
  then show ?case using append_ok [OF Cons.prems, of a] append_contents [OF Cons.prems, of a]
    by (simp add: contents_def)
qed

lemma run_bounded:
  assumes "ok s" and "pending s = []"
  shows "length (pending (foldl append s as)) < max 1 (capacity s)"
proof (cases as rule: rev_cases)
  case Nil
  then show ?thesis using assms by simp
next
  case (snoc bs b)
  have ok: "ok (foldl append s bs) \<and> capacity (foldl append s bs) = capacity s"
    using assms(1) by (induction bs rule: rev_induct) (simp_all add: append_ok)
  with append_bounded [of "foldl append s bs" b] show ?thesis by (simp add: snoc)
qed

lemma flushed_run:
  assumes "ok s"
  shows "stored (flush (foldl append s as)) = foldl absorb (contents s) as"
  using run_contents [OF assms, of as] flush_contents by (simp add: contents_def)

end

section \<open>Rows and their codecs\<close>

record codec =
  dump_flow :: "flow_id \<Rightarrow> string"
  load_flow :: "string \<Rightarrow> flow_id result"
  dump_evidence :: "evidence \<Rightarrow> string"
  load_evidence :: "string \<Rightarrow> evidence result"
  extract_src :: "string \<Rightarrow> string option"

text \<open>The codec reads back the flows and the evidence of the given alerts.\<close>

definition codec_ok :: "codec \<Rightarrow> alert list \<Rightarrow> bool" where
  "codec_ok cd as \<longleftrightarrow>
     (\<forall>a\<in>set as. load_flow cd (dump_flow cd (al_flow a)) = Inr (al_flow a)
        \<and> load_evidence cd (dump_evidence cd (al_evidence a)) = Inr (al_evidence a)
        \<and> extract_src cd (dump_flow cd (al_flow a)) = Some (fid_src_ip (al_flow a)))"

text \<open>
  What SQL leaves to the engine: the order of rows with equal timestamps, of groups, and of
  groups with equal counts.
\<close>

record row =
  r_alert_id :: string
  r_timestamp :: real
  r_detector :: string
  r_threat_class :: string
  r_severity :: severity
  r_confidence :: real
  r_flow_json :: string
  r_evidence_json :: string
  r_related_json :: string

record sql =
  order_asc :: "row list \<Rightarrow> row list"
  order_desc :: "row list \<Rightarrow> row list"
  group_keys :: "string list \<Rightarrow> string list"
  order_counts :: "(string \<times> nat) list \<Rightarrow> (string \<times> nat) list"

definition sql_ok :: "sql \<Rightarrow> bool" where
  "sql_ok q \<longleftrightarrow>
     (\<forall>rs. mset (order_asc q rs) = mset rs \<and> sorted (map r_timestamp (order_asc q rs)))
     \<and> (\<forall>rs. mset (order_desc q rs) = mset rs \<and> sorted (rev (map r_timestamp (order_desc q rs))))
     \<and> (\<forall>ks. distinct (group_keys q ks) \<and> set (group_keys q ks) = set ks)
     \<and> (\<forall>cs. mset (order_counts q cs) = mset cs \<and> sorted (rev (map snd (order_counts q cs))))"

definition alert_row :: "codec \<Rightarrow> alert \<Rightarrow> row" where
  "alert_row cd a =
     \<lparr>r_alert_id = al_id a, r_timestamp = al_timestamp a, r_detector = al_detector a,
      r_threat_class = al_threat_class a, r_severity = al_severity a, r_confidence = al_confidence a,
      r_flow_json = dump_flow cd (al_flow a), r_evidence_json = dump_evidence cd (al_evidence a),
      r_related_json = json_dumps (al_related a)\<rparr>"

definition row_alert :: "codec \<Rightarrow> row \<Rightarrow> alert result" where
  "row_alert cd r =
     (case (load_flow cd (r_flow_json r), load_evidence cd (r_evidence_json r), json_loads (r_related_json r)) of
        (Inr f, Inr e, Inr rel) \<Rightarrow>
          Inr \<lparr>al_id = r_alert_id r, al_timestamp = r_timestamp r, al_detector = r_detector r, al_flow = f,
               al_threat_class = r_threat_class r, al_severity = r_severity r,
               al_confidence = r_confidence r, al_evidence = e, al_related = rel\<rparr>
      | (Inl e, _, _) \<Rightarrow> Inl e
      | (_, Inl e, _) \<Rightarrow> Inl e
      | (_, _, Inl e) \<Rightarrow> Inl e)"

fun rows_alerts :: "codec \<Rightarrow> row list \<Rightarrow> alert list result" where
  "rows_alerts cd [] = Inr []"
| "rows_alerts cd (r # rs) =
     (case row_alert cd r of Inl e \<Rightarrow> Inl e
      | Inr a \<Rightarrow> (case rows_alerts cd rs of Inl e \<Rightarrow> Inl e | Inr as \<Rightarrow> Inr (a # as)))"

lemma row_alert_roundtrip: "codec_ok cd as \<Longrightarrow> a \<in> set as \<Longrightarrow> row_alert cd (alert_row cd a) = Inr a"
  by (simp add: row_alert_def alert_row_def codec_ok_def)

lemma rows_alerts_roundtrip:
  "codec_ok cd as \<Longrightarrow> set bs \<subseteq> set as \<Longrightarrow> rows_alerts cd (map (alert_row cd) bs) = Inr bs"
  by (induction bs) (simp_all add: row_alert_roundtrip)

lemma codec_ok_subset: "codec_ok cd as \<Longrightarrow> set bs \<subseteq> set as \<Longrightarrow> codec_ok cd bs"
  by (auto simp: codec_ok_def)

section \<open>The store\<close>

text \<open>The database file a store is opened on; opening or reading a corrupt one raises.\<close>

datatype db_file = Missing | Intact "row list" | Corrupt

record alert_store =
  batch_size :: nat
  write_buffer :: "alert list"
  db :: db_file
  locked :: bool
  notifier_url :: "string option"

type_synonym 'a op = "alert_store \<Rightarrow> ('a result \<times> alert_store) option"

definition db_rows :: "alert_store \<Rightarrow> row list" where
  "db_rows s = (case db s of Intact rs \<Rightarrow> rs | _ \<Rightarrow> [])"

definition with_lock :: "'a op \<Rightarrow> 'a op" where
  "with_lock m s =
     (if locked s then None
      else (case m (s\<lparr>locked := True\<rparr>) of None \<Rightarrow> None
            | Some (r, s) \<Rightarrow> Some (r, s\<lparr>locked := False\<rparr>)))"

definition recover_corrupt_db :: "alert_store \<Rightarrow> alert_store" where
  "recover_corrupt_db s = s\<lparr>db := Missing\<rparr>"

definition create_schema :: "alert_store \<Rightarrow> alert_store result" where
  "create_schema s =
     (case db s of Missing \<Rightarrow> Inr (s\<lparr>db := Intact []\<rparr>) | Intact rs \<Rightarrow> Inr s | Corrupt \<Rightarrow> Inl DatabaseError)"

definition init_db :: "unit op" where
  "init_db = with_lock (\<lambda>s.
     case create_schema s of
       Inr s' \<Rightarrow> Some (Inr (), s')
     | Inl _ \<Rightarrow> (case create_schema (recover_corrupt_db s) of
                   Inr s' \<Rightarrow> Some (Inr (), s')
                 | Inl e \<Rightarrow> Some (Inl e, s)))"

definition store_init :: "db_file \<Rightarrow> nat \<Rightarrow> string option \<Rightarrow> string option \<Rightarrow> (unit result \<times> alert_store) option" where
  "store_init file n url env =
     init_db \<lparr>batch_size = n, write_buffer = [], db = file, locked = False, notifier_url = webhook_init url env\<rparr>"

text \<open>\<open>INSERT OR IGNORE\<close> on the primary key.\<close>

definition insert_or_ignore :: "row list \<Rightarrow> row \<Rightarrow> row list" where
  "insert_or_ignore rs r = (if r_alert_id r \<in> set (map r_alert_id rs) then rs else rs @ [r])"

text \<open>\<open>fails\<close> is a database error during the insert or the commit; the rollback undoes the insert.\<close>

definition flush_locked :: "codec \<Rightarrow> bool \<Rightarrow> unit op" where
  "flush_locked cd fails s =
     (if write_buffer s = [] then Some (Inr (), s)
      else if fails then Some (Inl DatabaseError, s\<lparr>write_buffer := []\<rparr>)
      else Some (Inr (), s\<lparr>db := Intact (foldl insert_or_ignore (db_rows s) (map (alert_row cd) (write_buffer s))),
                          write_buffer := []\<rparr>))"

definition store_flush :: "codec \<Rightarrow> bool \<Rightarrow> unit op" where
  "store_flush cd fails = with_lock (flush_locked cd fails)"

text \<open>
  \<open>append\<close> also says whether it started the webhook thread: an exception of the flush
  leaves before that line.
\<close>

definition store_append :: "codec \<Rightarrow> bool \<Rightarrow> alert \<Rightarrow> bool op" where
  "store_append cd fails a s =
     (case with_lock (\<lambda>s.
        let s = s\<lparr>write_buffer := write_buffer s @ [a]\<rparr>
        in if batch_size s \<le> length (write_buffer s) then flush_locked cd fails s else Some (Inr (), s)) s of
        None \<Rightarrow> None
      | Some (Inl e, s) \<Rightarrow> Some (Inl e, s)
      | Some (Inr _, s) \<Rightarrow> Some (Inr (notifier_url s \<noteq> None \<and> notifier_url s \<noteq> Some []), s))"

definition store_append_batch :: "codec \<Rightarrow> bool \<Rightarrow> alert list \<Rightarrow> unit op" where
  "store_append_batch cd fails as s =
     (if as = [] then Some (Inr (), s)
      else with_lock (\<lambda>s. flush_locked cd fails (s\<lparr>write_buffer := write_buffer s @ as\<rparr>)) s)"

definition store_clear :: "bool \<Rightarrow> unit op" where
  "store_clear fails = with_lock (\<lambda>s.
     let s = s\<lparr>write_buffer := []\<rparr>
     in if fails then init_db (recover_corrupt_db s) else Some (Inr (), s\<lparr>db := Intact []\<rparr>))"

definition opt_match :: "'a option \<Rightarrow> ('a \<Rightarrow> bool) \<Rightarrow> bool" where
  "opt_match v P \<longleftrightarrow> (case v of None \<Rightarrow> True | Some x \<Rightarrow> P x)"

text \<open>Flush, then a query under the lock; an exception of the flush is passed on.\<close>

definition flush_then :: "codec \<Rightarrow> bool \<Rightarrow> (alert_store \<Rightarrow> 'a result) \<Rightarrow> 'a op" where
  "flush_then cd fails query s =
     (case store_flush cd fails s of None \<Rightarrow> None
      | Some (Inl e, s) \<Rightarrow> Some (Inl e, s)
      | Some (Inr _, s) \<Rightarrow> with_lock (\<lambda>s. Some (query s, s)) s)"

definition read_alerts ::
    "codec \<Rightarrow> sql \<Rightarrow> bool \<Rightarrow> real option \<Rightarrow> real option \<Rightarrow> string option \<Rightarrow> string option \<Rightarrow> alert list op" where
  "read_alerts cd q fails start_time end_time detector sev =
     flush_then cd fails (\<lambda>s. rows_alerts cd (order_asc q (filter (\<lambda>r.
       opt_match start_time (\<lambda>t. t \<le> r_timestamp r) \<and> opt_match end_time (\<lambda>t. r_timestamp r \<le> t)
       \<and> opt_match detector (\<lambda>d. r_detector r = d) \<and> opt_match sev (\<lambda>v. severity_str (r_severity r) = v))
       (db_rows s))))"

definition get_alert_by_id :: "codec \<Rightarrow> bool \<Rightarrow> string \<Rightarrow> alert option op" where
  "get_alert_by_id cd fails i =
     flush_then cd fails (\<lambda>s. case filter (\<lambda>r. r_alert_id r = i) (db_rows s) of
         [] \<Rightarrow> Inr None
       | r # _ \<Rightarrow> (case row_alert cd r of Inl e \<Rightarrow> Inl e | Inr a \<Rightarrow> Inr (Some a)))"

text \<open>A negative limit means no limit, a negative offset none.\<close>

definition limit_offset :: "int \<Rightarrow> int \<Rightarrow> 'a list \<Rightarrow> 'a list" where
  "limit_offset limit offset xs =
     (let ys = drop (nat offset) xs in if limit < 0 then ys else take (nat limit) ys)"

definition read_alerts_paginated ::
    "codec \<Rightarrow> sql \<Rightarrow> bool \<Rightarrow> int \<Rightarrow> int \<Rightarrow> string option \<Rightarrow> string option \<Rightarrow> (nat \<times> alert list) op" where
  "read_alerts_paginated cd q fails limit offset detector sev =
     flush_then cd fails (\<lambda>s.
       let rows = filter (\<lambda>r. opt_match detector (\<lambda>d. r_detector r = d)
                     \<and> opt_match sev (\<lambda>v. severity_str (r_severity r) = v)) (db_rows s)
       in case rows_alerts cd (limit_offset limit offset (order_desc q rows)) of
            Inl e \<Rightarrow> Inl e | Inr as \<Rightarrow> Inr (length rows, as))"

record summary =
  rate_by_class :: "(string, nat) dict"
  top_talkers :: "(string \<times> nat) list"
  total_alerts :: nat

definition group_count :: "sql \<Rightarrow> string list \<Rightarrow> (string \<times> nat) list" where
  "group_count q ks = map (\<lambda>k. (k, count_list ks k)) (group_keys q ks)"

definition get_summary_stats :: "codec \<Rightarrow> sql \<Rightarrow> bool \<Rightarrow> summary op" where
  "get_summary_stats cd q fails =
     flush_then cd fails (\<lambda>s. Inr
       \<lparr>rate_by_class = group_count q (map r_threat_class (db_rows s)),
        top_talkers = take 10 (order_counts q (group_count q
           (map the (filter (\<lambda>x. x \<noteq> None) (map (\<lambda>r. extract_src cd (r_flow_json r)) (db_rows s)))))),
        total_alerts = length (db_rows s)\<rparr>)"

definition store_close :: "codec \<Rightarrow> bool \<Rightarrow> unit op" where
  "store_close cd fails = with_lock (flush_locked cd fails)"

section \<open>The store is a sink\<close>

definition append_state :: "codec \<Rightarrow> alert_store \<Rightarrow> alert \<Rightarrow> alert_store" where
  "append_state cd s a = snd (the (store_append cd False a s))"

definition flush_state :: "codec \<Rightarrow> alert_store \<Rightarrow> alert_store" where
  "flush_state cd s = snd (the (store_flush cd False s))"

definition store_ok :: "alert_store \<Rightarrow> bool" where
  "store_ok s \<longleftrightarrow> \<not> locked s \<and> (\<exists>rs. db s = Intact rs)"

lemma flush_state_fields:
  assumes "store_ok s"
  shows "store_flush cd False s = Some (Inr (), flush_state cd s)" "store_ok (flush_state cd s)"
    "batch_size (flush_state cd s) = batch_size s" "write_buffer (flush_state cd s) = []"
    "db_rows (flush_state cd s)
       = foldl (\<lambda>rs a. insert_or_ignore rs (alert_row cd a)) (db_rows s) (write_buffer s)"
  using assms
  by (auto simp: flush_state_def store_flush_def with_lock_def flush_locked_def store_ok_def db_rows_def foldl_map)

lemma append_state_eq:
  assumes "store_ok s"
  shows "append_state cd s a =
     (let s' = s\<lparr>write_buffer := write_buffer s @ [a]\<rparr>
      in if batch_size s \<le> length (write_buffer s) + 1 then flush_state cd s' else s')"
    and "store_append cd False a s = Some (Inr (notifier_url s \<noteq> None \<and> notifier_url s \<noteq> Some []), append_state cd s a)"
  using assms
  by (auto simp: append_state_def flush_state_def store_flush_def store_append_def with_lock_def
      flush_locked_def store_ok_def db_rows_def Let_def)

interpretation sqlite: alert_sink store_ok batch_size db_rows write_buffer
    "\<lambda>rs a. insert_or_ignore rs (alert_row cd a)" "append_state cd" "flush_state cd" for cd
proof
  fix s a assume ok: "store_ok s"
  let ?s = "s\<lparr>write_buffer := write_buffer s @ [a]\<rparr>"
  have ok': "store_ok ?s" and rows: "db_rows ?s = db_rows s" using ok by (simp_all add: store_ok_def db_rows_def)
  note f = flush_state_fields [OF ok', of cd]
  show "store_ok (append_state cd s a) \<and> batch_size (append_state cd s a) = batch_size s"
    using ok' f by (simp add: append_state_eq [OF ok] Let_def)
  show "foldl (\<lambda>rs a. insert_or_ignore rs (alert_row cd a)) (db_rows (append_state cd s a))
      (write_buffer (append_state cd s a))
    = insert_or_ignore (foldl (\<lambda>rs a. insert_or_ignore rs (alert_row cd a)) (db_rows s) (write_buffer s))
        (alert_row cd a)"
    using f rows by (simp add: append_state_eq [OF ok] Let_def)
  show "length (write_buffer (append_state cd s a)) < max 1 (batch_size s)"
    using f by (auto simp: append_state_eq [OF ok] Let_def)
qed (simp_all add: flush_state_fields)

lemma flush_then_ok:
  assumes "store_ok s"
  shows "flush_then cd False query s = Some (query ((flush_state cd s)\<lparr>locked := True\<rparr>), flush_state cd s)"
proof -
  have "\<not> locked (flush_state cd s)" using flush_state_fields(2) [OF assms] by (simp add: store_ok_def)
  then show ?thesis using flush_state_fields(1) [OF assms, of cd] by (simp add: flush_then_def with_lock_def)
qed

lemma db_rows_locked [simp]: "db_rows (s\<lparr>locked := b\<rparr>) = db_rows s"
  by (simp add: db_rows_def)

text \<open>The first alert of every id, in order of arrival: what the store is a table of.\<close>

definition first_by_id :: "alert list \<Rightarrow> alert list" where
  "first_by_id as = foldl (\<lambda>xs a. if al_id a \<in> set (map al_id xs) then xs else xs @ [a]) [] as"

lemma row_id [simp]: "r_alert_id (alert_row cd a) = al_id a"
  by (simp add: alert_row_def)

lemma insert_rows_first:
  "foldl (\<lambda>rs a. insert_or_ignore rs (alert_row cd a)) (map (alert_row cd) xs) as
     = map (alert_row cd) (foldl (\<lambda>xs a. if al_id a \<in> set (map al_id xs) then xs else xs @ [a]) xs as)"
proof (induction as arbitrary: xs)
  case (Cons a as)
  have "insert_or_ignore (map (alert_row cd) xs) (alert_row cd a)
      = map (alert_row cd) (if al_id a \<in> set (map al_id xs) then xs else xs @ [a])"
    by (auto simp: insert_or_ignore_def image_iff)
  with Cons show ?case by simp
qed simp

lemma first_by_id_snoc:
  "first_by_id (as @ [a]) = (if al_id a \<in> set (map al_id (first_by_id as)) then first_by_id as else first_by_id as @ [a])"
  by (simp add: first_by_id_def)

lemma first_by_id_props:
  "distinct (map al_id (first_by_id as)) \<and> set (first_by_id as) \<subseteq> set as
   \<and> set (map al_id (first_by_id as)) = set (map al_id as)"
proof (induction as rule: rev_induct)
  case Nil
  then show ?case by (simp add: first_by_id_def)
next
  case (snoc a as)
  then show ?case by (auto simp: first_by_id_snoc)
qed

lemma stored_after_run:
  assumes "store_ok s" and "db_rows s = []" and "write_buffer s = []"
  shows "store_ok (foldl (append_state cd) s as)"
    and "db_rows (flush_state cd (foldl (append_state cd) s as)) = map (alert_row cd) (first_by_id as)"
proof -
  show "store_ok (foldl (append_state cd) s as)" using sqlite.run_contents [OF assms(1)] by blast
  have c: "sqlite.contents cd s = []" using assms by (simp add: sqlite.contents_def)
  show "db_rows (flush_state cd (foldl (append_state cd) s as)) = map (alert_row cd) (first_by_id as)"
    using sqlite.flushed_run [OF assms(1), of cd as] insert_rows_first [of cd "[]" as]
    by (simp add: c first_by_id_def)
qed

lemma decode_permuted_rows:
  assumes "codec_ok cd as" and "mset rs = mset (map (alert_row cd) as)"
  obtains bs where "rs = map (alert_row cd) bs" and "rows_alerts cd rs = Inr bs" and "mset bs = mset as"
proof -
  have "rs \<in> lists (alert_row cd ` set as)" using mset_eq_setD [OF assms(2)] by auto
  then obtain bs where bs: "rs = map (alert_row cd) bs" "set bs \<subseteq> set as"
    unfolding lists_image by auto
  have dec: "image_mset (\<lambda>r. projr (row_alert cd r)) (image_mset (alert_row cd) (mset xs)) = mset xs"
    if "set xs \<subseteq> set as" for xs
    using that by (induction xs) (simp_all add: row_alert_roundtrip [OF assms(1)])
  have enc: "image_mset (alert_row cd) (mset bs) = image_mset (alert_row cd) (mset as)"
    using assms(2) by (simp add: bs(1))
  have "mset bs = image_mset (\<lambda>r. projr (row_alert cd r)) (image_mset (alert_row cd) (mset bs))"
    by (rule dec [OF bs(2), symmetric])
  also have "\<dots> = mset as" unfolding enc by (rule dec [OF subset_refl])
  finally have "mset bs = mset as" .
  moreover have "rows_alerts cd rs = Inr bs"
    unfolding bs(1) using assms(1) bs(2) by (rule rows_alerts_roundtrip)
  ultimately show ?thesis using that [OF bs(1)] by blast
qed

section \<open>Reads\<close>

definition sev_match :: "string option \<Rightarrow> string option \<Rightarrow> alert \<Rightarrow> bool" where
  "sev_match detector sev a \<longleftrightarrow>
     opt_match detector (\<lambda>d. al_detector a = d) \<and> opt_match sev (\<lambda>v. severity_str (al_severity a) = v)"

lemma row_fields [simp]:
  "r_timestamp (alert_row cd a) = al_timestamp a" "r_detector (alert_row cd a) = al_detector a"
  "r_severity (alert_row cd a) = al_severity a" "r_threat_class (alert_row cd a) = al_threat_class a"
  "r_flow_json (alert_row cd a) = dump_flow cd (al_flow a)"
  by (simp_all add: alert_row_def)

text \<open>
  C2. Reading returns what was appended: after any alerts were appended to a fresh store, with
  whatever batch size, \<open>read_alerts\<close> returns without blocking exactly one alert per id, the
  first that was appended with it, restricted to the time range, detector and severity
  asked for, in timestamp order, every field as it was appended (for codecs that read back
  what they wrote). Meanwhile at most a batch is ever held in memory.
\<close>

theorem store_read_returns_appended:
  assumes "codec_ok cd as" and "sql_ok q" and "store_ok s" and "db_rows s = []" and "write_buffer s = []"
  shows "\<exists>out s'. read_alerts cd q False lo hi det sev (foldl (append_state cd) s as) = Some (Inr out, s')
    \<and> mset out = mset (filter (\<lambda>a. opt_match lo (\<lambda>t. t \<le> al_timestamp a) \<and> opt_match hi (\<lambda>t. al_timestamp a \<le> t)
        \<and> sev_match det sev a) (first_by_id as))
    \<and> sorted (map al_timestamp out)
    \<and> length (write_buffer (foldl (append_state cd) s as)) < max 1 (batch_size s)"
proof -
  define r where "r = foldl (append_state cd) s as"
  have ok: "store_ok r" and rows: "db_rows (flush_state cd r) = map (alert_row cd) (first_by_id as)"
    unfolding r_def using stored_after_run [OF assms(3-5)] by auto
  let ?P = "\<lambda>a. opt_match lo (\<lambda>t. t \<le> al_timestamp a) \<and> opt_match hi (\<lambda>t. al_timestamp a \<le> t) \<and> sev_match det sev a"
  let ?rs = "order_asc q (map (alert_row cd) (filter ?P (first_by_id as)))"
  have cod: "codec_ok cd (filter ?P (first_by_id as))"
    using assms(1) by (rule codec_ok_subset) (use first_by_id_props [of as] in auto)
  have "mset ?rs = mset (map (alert_row cd) (filter ?P (first_by_id as)))"
    using assms(2) unfolding sql_ok_def by blast
  then obtain bs where bs: "?rs = map (alert_row cd) bs" "rows_alerts cd ?rs = Inr bs"
    "mset bs = mset (filter ?P (first_by_id as))" by (rule decode_permuted_rows [OF cod])
  have "sorted (map r_timestamp ?rs)" using assms(2) unfolding sql_ok_def by blast
  then have "sorted (map al_timestamp bs)" by (simp add: bs(1) comp_def)
  moreover have "read_alerts cd q False lo hi det sev r = Some (Inr bs, flush_state cd r)"
    using bs(2) by (simp add: read_alerts_def flush_then_ok [OF ok] rows filter_map comp_def sev_match_def)
  moreover have "length (write_buffer r) < max 1 (batch_size s)"
    unfolding r_def by (rule sqlite.run_bounded [OF assms(3,5)])
  ultimately show ?thesis using bs(3) by (auto simp: r_def)
qed

text \<open>A codec and an engine the laws hold for.\<close>

fun place :: "row \<Rightarrow> row list \<Rightarrow> row list" where
  "place r [] = [r]"
| "place r (x # xs) = (if r_timestamp r \<le> r_timestamp x then r # x # xs else x # place r xs)"

fun place_count :: "(string \<times> nat) \<Rightarrow> (string \<times> nat) list \<Rightarrow> (string \<times> nat) list" where
  "place_count r [] = [r]"
| "place_count r (x # xs) = (if snd x \<le> snd r then r # x # xs else x # place_count r xs)"

definition sample_sql :: sql where
  "sample_sql = \<lparr>order_asc = (\<lambda>rs. foldr place rs []), order_desc = (\<lambda>rs. rev (foldr place rs [])),
     group_keys = remdups, order_counts = (\<lambda>cs. foldr place_count cs [])\<rparr>"

lemma place_sorted:
  "mset (place r xs) = add_mset r (mset xs) \<and> (sorted (map r_timestamp xs) \<longrightarrow> sorted (map r_timestamp (place r xs)))"
proof (induction xs)
  case (Cons x xs)
  have "set (place r xs) = insert r (set xs)" using Cons by (metis set_mset_add_mset_insert set_mset_mset)
  with Cons show ?case by auto
qed simp

lemma place_count_sorted:
  "mset (place_count r xs) = add_mset r (mset xs)
   \<and> (sorted (rev (map snd xs)) \<longrightarrow> sorted (rev (map snd (place_count r xs))))"
proof (induction xs)
  case (Cons x xs)
  have "set (place_count r xs) = insert r (set xs)" using Cons by (metis set_mset_add_mset_insert set_mset_mset)
  with Cons show ?case by (auto simp: sorted_append)
qed simp

lemma sample_sql_ok: "sql_ok sample_sql"
proof -
  have "mset (foldr place rs []) = mset rs \<and> sorted (map r_timestamp (foldr place rs []))" for rs
    by (induction rs) (simp_all add: place_sorted)
  moreover have "mset (foldr place_count cs []) = mset cs \<and> sorted (rev (map snd (foldr place_count cs [])))" for cs
    by (induction cs) (simp_all add: place_count_sorted)
  ultimately show ?thesis by (simp add: sql_ok_def sample_sql_def rev_map)
qed

definition sample_store_alert :: "string \<Rightarrow> real \<Rightarrow> alert" where
  "sample_store_alert i t = \<lparr>al_id = i, al_timestamp = t, al_detector = ''ddos'',
     al_flow = \<lparr>fid_src_ip = ''10.0.0.1'', fid_dst_ip = ''8.8.8.8'', fid_src_port = Some 1,
                fid_dst_port = Some 2, fid_protocol = ''TCP''\<rparr>,
     al_threat_class = ''DDOS'', al_severity = HIGH, al_confidence = 8 / 10,
     al_evidence = \<lparr>ev_features = [], ev_explanation = ''e'', ev_window_start = None, ev_window_end = None\<rparr>,
     al_related = []\<rparr>"

definition sample_codec :: codec where
  "sample_codec = \<lparr>dump_flow = (\<lambda>_. ''flow''), load_flow = (\<lambda>_. Inr (al_flow (sample_store_alert [] 0))),
     dump_evidence = (\<lambda>_. ''ev''), load_evidence = (\<lambda>_. Inr (al_evidence (sample_store_alert [] 0))),
     extract_src = (\<lambda>_. Some ''10.0.0.1'')\<rparr>"

definition sample_store :: "nat \<Rightarrow> alert_store" where
  "sample_store n = \<lparr>batch_size = n, write_buffer = [], db = Intact [], locked = False, notifier_url = None\<rparr>"

lemma sample_store_ok: "store_ok (sample_store n) \<and> db_rows (sample_store n) = [] \<and> write_buffer (sample_store n) = []"
  by (simp add: store_ok_def sample_store_def db_rows_def)

lemma sample_codec_ok: "codec_ok sample_codec [sample_store_alert i t, sample_store_alert j u]"
  by (simp add: codec_ok_def sample_codec_def sample_store_alert_def)

theorem store_read_returns_appended_witness:
  "\<exists>out s'. read_alerts sample_codec sample_sql False None None None None
      (foldl (append_state sample_codec) (sample_store 50) [sample_store_alert ''a'' 7, sample_store_alert ''a'' 9])
      = Some (Inr out, s') \<and> out = [sample_store_alert ''a'' 7]"
proof -
  have "first_by_id [sample_store_alert ''a'' 7, sample_store_alert ''a'' 9] = [sample_store_alert ''a'' 7]"
    by (simp add: first_by_id_def sample_store_alert_def)
  with store_read_returns_appended [OF sample_codec_ok sample_sql_ok, of "sample_store 50" None None None None]
    sample_store_ok [of 50]
  show ?thesis by (fastforce simp: opt_match_def sev_match_def)
qed

text \<open>Pages of \<open>n\<close> consecutive elements.\<close>

lemma pages_concat:
  assumes "0 < n"
  shows "concat (map (\<lambda>k. take n (drop (k * n) xs)) [0..<m]) = take (m * n) xs"
proof (induction m)
  case (Suc m)
  have "take (m * n) xs @ take n (drop (m * n) xs) = take (m * n + n) xs" by (rule take_add [symmetric])
  with Suc show ?case by (simp add: add.commute)
qed simp



section \<open>Summary\<close>

lemma sum_group_count:
  assumes "sql_ok q"
  shows "(\<Sum>(k, c)\<leftarrow>group_count q ks. c) = length ks"
proof -
  have g: "distinct (group_keys q ks)" "set (group_keys q ks) = set ks" using assms by (auto simp: sql_ok_def)
  have "(\<Sum>(k, c)\<leftarrow>group_count q ks. c) = (\<Sum>k\<leftarrow>group_keys q ks. count_list ks k)"
    by (simp add: group_count_def comp_def)
  also have "\<dots> = (\<Sum>k\<in>set ks. count_list ks k)" using g by (simp add: sum_list_distinct_conv_sum_set)
  finally show ?thesis by (simp add: sum_count_set)
qed

lemma group_count_lookup:
  assumes "sql_ok q"
  shows "map_of (group_count q ks) k = (if k \<in> set ks then Some (count_list ks k) else None)"
    and "dict_wf (group_count q ks)"
proof -
  have g: "distinct (group_keys q ks)" "set (group_keys q ks) = set ks" using assms by (auto simp: sql_ok_def)
  show wf: "dict_wf (group_count q ks)" using g(1) by (simp add: dict_wf_def group_count_def comp_def)
  show "map_of (group_count q ks) k = (if k \<in> set ks then Some (count_list ks k) else None)"
  proof (cases "k \<in> set ks")
    case True
    then have "(k, count_list ks k) \<in> set (group_count q ks)" using g(2) by (auto simp: group_count_def)
    with wf True show ?thesis by (simp add: dict_wf_def)
  next
    case False
    then have "k \<notin> fst ` set (group_count q ks)" using g(2) by (auto simp: group_count_def)
    with False show ?thesis by (simp add: map_of_eq_None_iff)
  qed
qed

lemma top_counts:
  fixes cs :: "('a \<times> nat) list"
  assumes "sorted (rev (map snd cs))"
  shows "sorted (rev (map snd (take k cs)))" and "\<forall>x\<in>set (take k cs). \<forall>y\<in>set (drop k cs). snd y \<le> snd x"
proof -
  have "rev (map snd cs) = rev (map snd (drop k cs)) @ rev (map snd (take k cs))"
    by (simp flip: rev_append map_append)
  with assms have "sorted (rev (map snd (drop k cs)) @ rev (map snd (take k cs)))" by simp
  then show "sorted (rev (map snd (take k cs)))" and "\<forall>x\<in>set (take k cs). \<forall>y\<in>set (drop k cs). snd y \<le> snd x"
    by (auto simp: sorted_append)
qed

text \<open>
  The summary adds up: after any appends, \<open>total_alerts\<close> is the number of distinct ids,
  \<open>rate_by_class\<close> gives for every threat class its number of alerts and its values sum to
  the total, and \<open>top_talkers\<close> are at most ten sources with their true counts, in descending
  order, none of them behind a source that is left out.
\<close>

theorem summary_adds_up:
  assumes "codec_ok cd as" and "sql_ok q" and "store_ok s" and "db_rows s = []" and "write_buffer s = []"
  defines "kept \<equiv> first_by_id as"
    and "srcs \<equiv> map (\<lambda>a. fid_src_ip (al_flow a)) (first_by_id as)"
  shows "\<exists>m s'. get_summary_stats cd q False (foldl (append_state cd) s as) = Some (Inr m, s')
    \<and> total_alerts m = card (al_id ` set as)
    \<and> (\<forall>c. dict_get (rate_by_class m) c 0 = length (filter (\<lambda>a. al_threat_class a = c) kept))
    \<and> (\<Sum>(c, n)\<leftarrow>rate_by_class m. n) = total_alerts m
    \<and> length (top_talkers m) \<le> 10 \<and> sorted (rev (map snd (top_talkers m)))
    \<and> (\<forall>(ip, n)\<in>set (top_talkers m). n = count_list srcs ip
         \<and> (\<forall>ip'\<in>set srcs. ip' \<notin> fst ` set (top_talkers m) \<longrightarrow> count_list srcs ip' \<le> n))"
proof -
  define r where "r = foldl (append_state cd) s as"
  have ok: "store_ok r" and rows: "db_rows (flush_state cd r) = map (alert_row cd) kept"
    unfolding r_def kept_def using stored_after_run [OF assms(3-5)] by auto
  have total: "length kept = card (al_id ` set as)"
    using first_by_id_props [of as] distinct_card [of "map al_id kept"] by (simp add: kept_def)
  have "map (\<lambda>r. extract_src cd (r_flow_json r)) (map (alert_row cd) kept) = map Some srcs"
    using assms(1) first_by_id_props [of as] by (auto simp: kept_def srcs_def codec_ok_def)
  then have src: "map the (filter (\<lambda>x. x \<noteq> None)
      (map (\<lambda>r. extract_src cd (r_flow_json r)) (map (alert_row cd) kept))) = srcs"
    by (simp add: filter_map comp_def)
  define cs where "cs = order_counts q (group_count q srcs)"
  have cs: "mset cs = mset (group_count q srcs)" "sorted (rev (map snd cs))"
    using assms(2) by (auto simp: cs_def sql_ok_def)
  note top_sorted = top_counts(1) [OF cs(2), of 10] and below = top_counts(2) [OF cs(2), of 10]
  have parts: "cs = take 10 cs @ drop 10 cs" by simp
  have mem: "(ip, n) \<in> set cs \<longleftrightarrow> ip \<in> set srcs \<and> n = count_list srcs ip" for ip n
    using mset_eq_setD [OF cs(1)] assms(2) by (auto simp: group_count_def sql_ok_def)
  have left_out: "(ip', count_list srcs ip') \<in> set (drop 10 cs)"
    if "ip' \<in> set srcs" "ip' \<notin> fst ` set (take 10 cs)" for ip'
    using that mem [of ip' "count_list srcs ip'"] parts by (metis Un_iff fst_conv image_eqI set_append)
  have classes: "dict_get (group_count q (map al_threat_class kept)) c 0
      = length (filter (\<lambda>a. al_threat_class a = c) kept)" for c
  proof -
    have "count_list (map al_threat_class kept) c = length (filter (\<lambda>a. al_threat_class a = c) kept)"
      by (induction kept) auto
    moreover have "c \<notin> set (map al_threat_class kept) \<Longrightarrow> filter (\<lambda>a. al_threat_class a = c) kept = []"
      by (auto simp: filter_empty_conv)
    ultimately show ?thesis by (auto simp: dict_get_def group_count_lookup [OF assms(2)])
  qed
  let ?m = "\<lparr>rate_by_class = group_count q (map al_threat_class kept), top_talkers = take 10 cs,
    total_alerts = length kept\<rparr>"
  have "get_summary_stats cd q False r = Some (Inr ?m, flush_state cd r)"
    unfolding get_summary_stats_def flush_then_ok [OF ok] db_rows_locked rows src
    by (simp add: comp_def cs_def)
  moreover have "n = count_list srcs ip \<and> (\<forall>ip'\<in>set srcs. ip' \<notin> fst ` set (take 10 cs) \<longrightarrow> count_list srcs ip' \<le> n)"
    if "(ip, n) \<in> set (take 10 cs)" for ip n
    using that mem [of ip n] in_set_takeD [OF that] below left_out by fastforce
  ultimately show ?thesis
    using top_sorted total classes sum_group_count [OF assms(2), of "map al_threat_class kept"]
    by (intro exI [of _ ?m] exI [of _ "flush_state cd r"]) (auto simp: r_def)
qed

theorem summary_adds_up_witness:
  "\<exists>m s'. get_summary_stats sample_codec sample_sql False (foldl (append_state sample_codec) (sample_store 50)
      [sample_store_alert ''a'' 7, sample_store_alert ''b'' 9]) = Some (Inr m, s') \<and> total_alerts m = 2"
proof -
  have "card (al_id ` set [sample_store_alert ''a'' 7, sample_store_alert ''b'' 9]) = 2"
    by (simp add: sample_store_alert_def)
  moreover have "store_ok (sample_store 50)" "db_rows (sample_store 50) = []" "write_buffer (sample_store 50) = []"
    using sample_store_ok [of 50] by auto
  note summary_adds_up [OF sample_codec_ok sample_sql_ok this, of "''a''" 7 "''b''" 9]
  ultimately show ?thesis by (elim exE conjE) (intro exI conjI, assumption, simp)
qed

section \<open>Failures\<close>

text \<open>
  A database error loses the whole batch: when the insert of a full buffer fails,
  \<open>append\<close> raises, the table is unchanged and the buffer is emptied, so none of the
  buffered alerts can ever be written again; and the alert whose append raised gets no
  webhook call either.
\<close>

theorem failed_flush_loses_batch:
  assumes "store_ok s" and "batch_size s \<le> length (write_buffer s) + 1"
  shows "\<exists>s'. store_append cd True a s = Some (Inl DatabaseError, s')
    \<and> db_rows s' = db_rows s \<and> write_buffer s' = [] \<and> store_ok s'"
  using assms
  by (auto simp: store_append_def with_lock_def flush_locked_def store_ok_def db_rows_def Let_def)

theorem failed_flush_loses_batch_witness:
  "\<exists>s'. store_append sample_codec True (sample_store_alert ''a'' 7)
      ((sample_store 2)\<lparr>write_buffer := [sample_store_alert ''b'' 1]\<rparr>) = Some (Inl DatabaseError, s')
    \<and> write_buffer s' = []"
  using failed_flush_loses_batch [of "(sample_store 2)\<lparr>write_buffer := [sample_store_alert ''b'' 1]\<rparr>"
      sample_codec "sample_store_alert ''a'' 7"]
  by (auto simp: store_ok_def sample_store_def)

text \<open>
  C40. \<open>clear\<close> deadlocks on a corrupt database: its recovery path calls \<open>_init_db\<close> while it
  holds the lock, and \<open>_init_db\<close> takes the same non-re-entrant lock, so it never returns,
  whatever the state; without a database error it returns an empty store. Opening a store on
  a corrupt file, which runs the same recovery outside the lock, does return, with an
  empty table.
\<close>

theorem clear_deadlocks_on_corruption:
  assumes "store_ok s"
  shows "store_clear True s = None
    \<and> (\<exists>s'. store_clear False s = Some (Inr (), s') \<and> store_ok s' \<and> db_rows s' = [] \<and> write_buffer s' = [])
    \<and> (\<exists>s'. store_init Corrupt n url env = Some (Inr (), s') \<and> store_ok s' \<and> db_rows s' = [])"
  using assms
  by (auto simp: store_clear_def with_lock_def init_db_def recover_corrupt_db_def store_init_def create_schema_def
      store_ok_def db_rows_def Let_def)

theorem clear_deadlocks_on_corruption_witness:
  "store_clear True (sample_store 50) = None"
  using clear_deadlocks_on_corruption [of "sample_store 50" 50 None None] sample_store_ok [of 50] by simp

end
