(* ===== verification/ClickHouse.thy ===== *)
theory ClickHouse
  imports AlertStore
begin

text \<open>
  The ClickHouse alert sink of \<^verbatim>\<open>alerting/clickhouse_store.py\<close>. The driver is third-party code:
  whether a connection exists is part of the state, whether an insert or a query raises is an
  argument. The store is the second interpretation of \<open>alert_sink\<close>; the theorems show
  what reaches the table (and which alerts silently do not), that a failed insert is retried,
  and that without a client the pending list grows without bound.

  Operations run under the lock and take it once, so it is left out; the writer thread is its
  loop body \<open>writer_tick\<close>, which may run between any two operations.
\<close>

record ch_row =
  ch_alert_id :: string
  ch_timestamp :: real
  ch_threat_class :: string
  ch_severity :: string
  ch_confidence :: real
  ch_src_ip :: string
  ch_dst_ip :: string
  ch_src_port :: int
  ch_dst_port :: int
  ch_protocol :: string
  ch_explanation :: string
  ch_features :: string
  ch_related_ids :: string

record ch_store =
  ch_batch_size :: nat
  ch_pending :: "alert list"
  ch_client :: bool
  ch_rows :: "ch_row list"
  ch_stop :: bool

text \<open>\<open>opened\<close> is the outcome of importing the driver and opening the connection.\<close>

definition ch_connect :: "unit result \<Rightarrow> ch_store \<Rightarrow> ch_store" where
  "ch_connect opened s = s\<lparr>ch_client := (case opened of Inr _ \<Rightarrow> True | Inl _ \<Rightarrow> False)\<rparr>"

definition ch_init :: "unit result \<Rightarrow> ch_row list \<Rightarrow> nat \<Rightarrow> ch_store" where
  "ch_init opened table n =
     ch_connect opened \<lparr>ch_batch_size = n, ch_pending = [], ch_client = False, ch_rows = table, ch_stop = False\<rparr>"

text \<open>
  One row; \<open>int(None)\<close> of a missing port raises \<^verbatim>\<open>TypeError\<close>. \<open>dump_features\<close> is \<^verbatim>\<open>json.dumps\<close>
  of the feature dictionary.
\<close>

definition ch_row_of :: "(fvec \<Rightarrow> string) \<Rightarrow> alert \<Rightarrow> ch_row result" where
  "ch_row_of dump_features a =
     (case (fid_src_port (al_flow a), fid_dst_port (al_flow a)) of
        (Some sp, Some dp) \<Rightarrow>
          Inr \<lparr>ch_alert_id = al_id a, ch_timestamp = al_timestamp a, ch_threat_class = al_threat_class a,
               ch_severity = severity_str (al_severity a), ch_confidence = al_confidence a,
               ch_src_ip = fid_src_ip (al_flow a), ch_dst_ip = fid_dst_ip (al_flow a),
               ch_src_port = sp, ch_dst_port = dp, ch_protocol = fid_protocol (al_flow a),
               ch_explanation = ev_explanation (al_evidence a),
               ch_features = dump_features (ev_features (al_evidence a)),
               ch_related_ids = json_dumps (al_related a)\<rparr>
      | _ \<Rightarrow> Inl TypeError)"

fun ch_build_rows :: "(fvec \<Rightarrow> string) \<Rightarrow> alert list \<Rightarrow> ch_row list" where
  "ch_build_rows dump_features [] = []"
| "ch_build_rows dump_features (a # as) =
     (case ch_row_of dump_features a of
        Inr r \<Rightarrow> r # ch_build_rows dump_features as
      | Inl _ \<Rightarrow> ch_build_rows dump_features as)"

definition ch_flush_locked :: "(fvec \<Rightarrow> string) \<Rightarrow> bool \<Rightarrow> ch_store \<Rightarrow> ch_store" where
  "ch_flush_locked dump_features fails s =
     (if \<not> ch_client s \<or> ch_pending s = [] then s
      else (let rows = ch_build_rows dump_features (ch_pending s)
            in if rows = [] then s\<lparr>ch_pending := []\<rparr>
               else if fails then s
               else s\<lparr>ch_rows := ch_rows s @ rows, ch_pending := []\<rparr>))"

definition ch_append :: "(fvec \<Rightarrow> string) \<Rightarrow> bool \<Rightarrow> ch_store \<Rightarrow> alert \<Rightarrow> ch_store" where
  "ch_append dump_features fails s a =
     (let s = s\<lparr>ch_pending := ch_pending s @ [a]\<rparr>
      in if ch_batch_size s \<le> length (ch_pending s) then ch_flush_locked dump_features fails s else s)"

definition ch_flush :: "(fvec \<Rightarrow> string) \<Rightarrow> bool \<Rightarrow> ch_store \<Rightarrow> ch_store" where
  "ch_flush dump_features fails s = ch_flush_locked dump_features fails s"

definition writer_tick :: "(fvec \<Rightarrow> string) \<Rightarrow> bool \<Rightarrow> ch_store \<Rightarrow> ch_store" where
  "writer_tick dump_features fails s =
     (if ch_stop s then s
      else if ch_pending s \<noteq> [] then ch_flush_locked dump_features fails s else s)"

definition ch_close :: "(fvec \<Rightarrow> string) \<Rightarrow> bool \<Rightarrow> ch_store \<Rightarrow> ch_store" where
  "ch_close dump_features fails s = ch_flush dump_features fails (s\<lparr>ch_stop := True\<rparr>)"

text \<open>\<open>newest_first\<close> is the engine's \<^verbatim>\<open>ORDER BY timestamp DESC\<close>.\<close>

definition ch_read_alerts ::
    "(ch_row list \<Rightarrow> ch_row list) \<Rightarrow> bool \<Rightarrow> nat \<Rightarrow> string option \<Rightarrow> ch_store \<Rightarrow> ch_row list" where
  "ch_read_alerts newest_first fails limit sev s =
     (if \<not> ch_client s \<or> fails then []
      else take limit (newest_first (case sev of None \<Rightarrow> ch_rows s
             | Some v \<Rightarrow> if v = [] then ch_rows s else filter (\<lambda>r. ch_severity r = v) (ch_rows s))))"

definition ch_get_summary :: "sql \<Rightarrow> bool \<Rightarrow> ch_store \<Rightarrow> summary" where
  "ch_get_summary q fails s =
     (if \<not> ch_client s \<or> fails then \<lparr>rate_by_class = [], top_talkers = [], total_alerts = 0\<rparr>
      else \<lparr>rate_by_class = order_counts q (group_count q (map ch_threat_class (ch_rows s))),
            top_talkers = take 10 (order_counts q (group_count q (map ch_src_ip (ch_rows s)))),
            total_alerts = length (ch_rows s)\<rparr>)"

section \<open>What reaches the table\<close>

lemma ch_build_rows_append:
  "ch_build_rows d (as @ bs) = ch_build_rows d as @ ch_build_rows d bs"
  by (induction as) (simp_all split: sum.splits)

definition ch_absorb :: "(fvec \<Rightarrow> string) \<Rightarrow> ch_row list \<Rightarrow> alert \<Rightarrow> ch_row list" where
  "ch_absorb d rs a = rs @ ch_build_rows d [a]"

lemma ch_absorb_all: "foldl (ch_absorb d) rs as = rs @ ch_build_rows d as"
proof (induction as arbitrary: rs)
  case (Cons a as)
  then show ?case using ch_build_rows_append [of d "[a]" as] by (simp add: ch_absorb_def)
qed simp

lemma ch_flush_fields:
  assumes "ch_client s"
  shows "ch_rows (ch_flush_locked d False s) = ch_rows s @ ch_build_rows d (ch_pending s)"
    "ch_pending (ch_flush_locked d False s) = []" "ch_client (ch_flush_locked d False s)"
    "ch_batch_size (ch_flush_locked d False s) = ch_batch_size s"
  using assms by (auto simp: ch_flush_locked_def Let_def)

interpretation clickhouse: alert_sink ch_client ch_batch_size ch_rows ch_pending
    "ch_absorb d" "ch_append d False" "ch_flush d False" for d
proof
  fix s :: ch_store and a assume c: "ch_client s"
  let ?s = "s\<lparr>ch_pending := ch_pending s @ [a]\<rparr>"
  have c': "ch_client ?s" using c by simp
  note f = ch_flush_fields [OF c', of d]
  show "ch_client (ch_append d False s a) \<and> ch_batch_size (ch_append d False s a) = ch_batch_size s"
    using c f by (simp add: ch_append_def Let_def)
  show "foldl (ch_absorb d) (ch_rows (ch_append d False s a)) (ch_pending (ch_append d False s a))
    = ch_absorb d (foldl (ch_absorb d) (ch_rows s) (ch_pending s)) a"
    using f unfolding ch_absorb_all ch_absorb_def
    by (simp add: ch_append_def Let_def ch_build_rows_append del: ch_build_rows.simps(2))
  show "length (ch_pending (ch_append d False s a)) < max 1 (ch_batch_size s)"
    using f by (auto simp: ch_append_def Let_def)
next
  fix s :: ch_store assume c: "ch_client s"
  note f = ch_flush_fields [OF c, of d]
  show "ch_client (ch_flush d False s) \<and> ch_batch_size (ch_flush d False s) = ch_batch_size s"
    "ch_pending (ch_flush d False s) = []"
    using f by (simp_all add: ch_flush_def)
  show "ch_rows (ch_flush d False s) = foldl (ch_absorb d) (ch_rows s) (ch_pending s)"
    unfolding ch_absorb_all using f by (simp add: ch_flush_def)
qed

definition has_ports :: "alert \<Rightarrow> bool" where
  "has_ports a \<longleftrightarrow> fid_src_port (al_flow a) \<noteq> None \<and> fid_dst_port (al_flow a) \<noteq> None"

lemma ch_build_rows_ids: "map ch_alert_id (ch_build_rows d as) = map al_id (filter has_ports as)"
  by (induction as) (auto simp: ch_row_of_def has_ports_def split: option.splits)

text \<open>
  With a client, every appended alert that has both ports reaches the table exactly once
  per append, in order and without de-duplication (unlike the SQLite store), and an alert
  with a missing port, which the alert schema allows, is silently dropped: it is in neither
  the table nor the pending list after the flush. At no time is a full batch pending.
\<close>

theorem clickhouse_table_after_appends:
  assumes "ch_client s" and "ch_pending s = []" and "ch_rows s = []"
  shows "map ch_alert_id (ch_rows (ch_flush d False (foldl (ch_append d False) s as))) = map al_id (filter has_ports as)
    \<and> ch_pending (ch_flush d False (foldl (ch_append d False) s as)) = []
    \<and> length (ch_pending (foldl (ch_append d False) s as)) < max 1 (ch_batch_size s)"
proof -
  have "ch_rows (ch_flush d False (foldl (ch_append d False) s as)) = ch_build_rows d as"
    using clickhouse.flushed_run [OF assms(1), of d as] assms
    by (simp add: clickhouse.contents_def ch_absorb_all)
  moreover have "ch_client (foldl (ch_append d False) s as)"
    using clickhouse.run_contents [OF assms(1)] by blast
  ultimately show ?thesis
    using clickhouse.flush_empties clickhouse.run_bounded [OF assms(1,2)] by (simp add: ch_build_rows_ids)
qed

theorem clickhouse_table_after_appends_witness:
  "map ch_alert_id (ch_rows (ch_flush (\<lambda>_. []) False (foldl (ch_append (\<lambda>_. []) False) (ch_init (Inr ()) [] 500)
     [sample_store_alert ''a'' 1,
      (sample_store_alert ''b'' 2)\<lparr>al_flow := \<lparr>fid_src_ip = ''10.0.0.1'', fid_dst_ip = ''8.8.8.8'',
         fid_src_port = None, fid_dst_port = None, fid_protocol = ''ICMP''\<rparr>\<rparr>]))) = [''a'']"
  using clickhouse_table_after_appends [of "ch_init (Inr ()) [] 500" "\<lambda>_. []"
      "[sample_store_alert ''a'' 1,
        (sample_store_alert ''b'' 2)\<lparr>al_flow := \<lparr>fid_src_ip = ''10.0.0.1'', fid_dst_ip = ''8.8.8.8'',
           fid_src_port = None, fid_dst_port = None, fid_protocol = ''ICMP''\<rparr>\<rparr>]"]
  by (simp add: ch_init_def ch_connect_def has_ports_def sample_store_alert_def)

text \<open>
  Failed inserts are retried and a missing client is not noticed: while every insert
  fails nothing is lost, and the first successful flush writes all of it; but when the
  connection could not be opened at start-up, which the store only logs, every alert
  appended since stays in memory for ever: after any appends and writer runs the pending
  list holds all of them and the table none.
\<close>

theorem clickhouse_pending_kept:
  assumes "has_ports a" and "a \<in> set (ch_pending s)"
  shows "ch_pending (ch_flush d True s) = ch_pending s \<and> ch_rows (ch_flush d True s) = ch_rows s
    \<and> (ch_client s \<longrightarrow> ch_rows (ch_flush d False (ch_flush d True s)) = ch_rows s @ ch_build_rows d (ch_pending s))
    \<and> (\<not> ch_client s \<longrightarrow>
         ch_pending (foldl (\<lambda>s a. writer_tick d False (ch_append d False s a)) s as) = ch_pending s @ as
         \<and> ch_rows (foldl (\<lambda>s a. writer_tick d False (ch_append d False s a)) s as) = ch_rows s)"
proof -
  have "al_id a \<in> set (map ch_alert_id (ch_build_rows d (ch_pending s)))"
    unfolding ch_build_rows_ids using assms by auto
  then have ne: "ch_build_rows d (ch_pending s) \<noteq> []" by auto
  have fail: "ch_flush d True s = s" using ne by (simp add: ch_flush_def ch_flush_locked_def Let_def)
  have idle: "ch_pending (foldl (\<lambda>s a. writer_tick d False (ch_append d False s a)) s as) = ch_pending s @ as
      \<and> ch_rows (foldl (\<lambda>s a. writer_tick d False (ch_append d False s a)) s as) = ch_rows s"
    if "\<not> ch_client s" for s as
    using that
  proof (induction as arbitrary: s)
    case (Cons a as)
    have "writer_tick d False (ch_append d False s a) = s\<lparr>ch_pending := ch_pending s @ [a]\<rparr>"
      using Cons.prems by (simp add: writer_tick_def ch_append_def ch_flush_locked_def Let_def)
    with Cons show ?case by simp
  qed simp
  show ?thesis using fail ch_flush_fields(1) [of s d] idle [of s as] by (simp add: ch_flush_def)
qed

theorem clickhouse_pending_kept_witness:
  "let s = (ch_init (Inl RuntimeError) [] 500)\<lparr>ch_pending := [sample_store_alert ''a'' 1]\<rparr>
   in length (ch_pending (foldl (\<lambda>s a. writer_tick (\<lambda>_. []) False (ch_append (\<lambda>_. []) False s a)) s
        (replicate 600 (sample_store_alert ''b'' 2)))) = 601"
proof -
  let ?s = "(ch_init (Inl RuntimeError) [] 500)\<lparr>ch_pending := [sample_store_alert ''a'' 1]\<rparr>"
  have "has_ports (sample_store_alert ''a'' 1)" by (simp add: has_ports_def sample_store_alert_def)
  moreover have "\<not> ch_client ?s" by (simp add: ch_init_def ch_connect_def)
  ultimately show ?thesis
    using clickhouse_pending_kept [of "sample_store_alert ''a'' 1" ?s "\<lambda>_. []"
        "replicate 600 (sample_store_alert ''b'' 2)"] by (simp add: Let_def)
qed

end
