(* ===== verification/Worker.thy ===== *)
theory Worker
  imports Onnx Correlator ClickHouse
begin

text \<open>
  The streaming worker of \<^verbatim>\<open>inference/worker.py\<close>: Kafka messages are turned into one feature
  vector per model, collected into batches, scored by the ONNX sessions, and what is flagged
  is normalized, correlated, stored in ClickHouse and published. Kafka, ONNX Runtime and the
  thread pool are third-party code; what they do enters through the environment record. The
  theorems show that batching is transparent (which alerts a model raises does not depend on
  the batch size or on where the batches fall) and which models are never consulted.

  A message is a feature record of the ingestor: numbers, ports and strings under their keys,
  any of which may be absent. Values of another type are outside the model.
\<close>

section \<open>Model sessions\<close>

definition model_files :: "(string, string) dict" where
  "model_files =
     [(''ddos'', ''ddos_lgbm.onnx''), (''beaconing'', ''beaconing_ocsvm.onnx''), (''dga'', ''dga_gbt.onnx''),
      (''encrypted'', ''encrypted_rf.onnx''), (''recon'', ''recon_iso.onnx''), (''exfil'', ''exfil_iso.onnx'')]"

text \<open>\<open>load\<close> is \<open>None\<close> for a missing file; a file that does not load raises out of the constructor.\<close>

fun load_sessions ::
    "(string \<Rightarrow> session result option) \<Rightarrow> (string, string) dict \<Rightarrow> (string, session) dict
      \<Rightarrow> (string, session) dict result" where
  "load_sessions load [] sessions = Inr sessions"
| "load_sessions load ((name, file) # rest) sessions =
     (case load file of
        None \<Rightarrow> load_sessions load rest sessions
      | Some (Inl e) \<Rightarrow> Inl e
      | Some (Inr s) \<Rightarrow> load_sessions load rest (dict_set name s sessions))"

definition model_manager_init ::
    "bool \<Rightarrow> (string \<Rightarrow> session result option) \<Rightarrow> (string, session) dict result" where
  "model_manager_init have_onnxruntime load =
     (if \<not> have_onnxruntime then Inl RuntimeError else load_sessions load model_files [])"

definition positive_prob :: "real list \<Rightarrow> real result" where
  "positive_prob p = (if 1 < length p then Inr (p ! 1) else py_index p 0)"

definition key_prob :: "(int, real) dict \<Rightarrow> real result" where
  "key_prob d = (case map_of d (if 1 < length d then 1 else 0) of None \<Rightarrow> Inl KeyError | Some p \<Rightarrow> Inr p)"

text \<open>The probability column; a row of a one-dimensional array has no length.\<close>

fun row_probs :: "tensor \<Rightarrow> real list result" where
  "row_probs (RealMat rows) = map_result positive_prob rows"
| "row_probs (IntMat rows) = map_result positive_prob (map (map of_int) rows)"
| "row_probs (DictList ds) = map_result key_prob ds"
| "row_probs (RealVec xs) = (if xs = [] then Inr [] else Inl TypeError)"
| "row_probs (IntVec xs) = (if xs = [] then Inr [] else Inl TypeError)"

definition row_label :: "real list \<Rightarrow> bool result" where
  "row_label r = (if length r = 1 then Inr (r ! 0 = -1) else Inl ValueError)"

fun label_flags :: "tensor \<Rightarrow> bool list result" where
  "label_flags (IntVec ls) = Inr (map (\<lambda>l. l = -1) ls)"
| "label_flags (RealVec ls) = Inr (map (\<lambda>l. l = -1) ls)"
| "label_flags (IntMat rows) = map_result row_label (map (map of_int) rows)"
| "label_flags (RealMat rows) = map_result row_label rows"
| "label_flags (DictList ds) = Inr (map (\<lambda>_. False) ds)"

definition score_outputs :: "tensor list \<Rightarrow> (real \<times> bool) list result" where
  "score_outputs outs =
     (if 2 \<le> length outs
      then bind_result (row_probs (outs ! 1)) (\<lambda>ps. Inr (map (\<lambda>p. (p, 1 / 2 < p)) ps))
      else bind_result (py_index outs 0) (\<lambda>t.
           bind_result (label_flags t) (\<lambda>bs. Inr (map (\<lambda>b. (if b then 1 else 0, b)) bs))))"

definition predict_batch :: "session option \<Rightarrow> real list list \<Rightarrow> (real \<times> bool) list" where
  "predict_batch sess batch =
     (case sess of None \<Rightarrow> replicate (length batch) (0, False)
      | Some run \<Rightarrow>
          (case bind_result (run batch) score_outputs of
             Inr rs \<Rightarrow> rs
           | Inl _ \<Rightarrow> replicate (length batch) (0, False)))"

section \<open>Messages\<close>

record wrecord =
  wr_nums :: "(string, real) dict"
  wr_ports :: "(string, int) dict"
  wr_strs :: "(string, string) dict"

definition num :: "wrecord \<Rightarrow> string \<Rightarrow> real" where
  "num r k = dict_get (wr_nums r) k 0"

definition extract_features_for_model :: "string \<Rightarrow> wrecord \<Rightarrow> real list option" where
  "extract_features_for_model model r =
     (if model = ''ddos'' then
        Some [num r ''pkt_rate_1s'', num r ''byte_rate_1s'', num r ''syn_rate_1s'', num r ''unique_dst_ports_1s'',
              num r ''ip_len'', num r ''tcp_flags'', num r ''flow_pkt_count'', num r ''flow_byte_count'']
      else if model = ''recon'' then
        Some [num r ''unique_ports_scanned'', num r ''pkt_rate_1s'', if num r ''is_port_scan'' \<noteq> 0 then 1 else 0,
              num r ''flow_duration'', num r ''tcp_flags'']
      else if model \<in> set [''beaconing'', ''exfil'', ''encrypted''] then
        Some [num r ''flow_duration'', num r ''flow_pkt_count'', num r ''flow_byte_count'',
              num r ''byte_rate_1s'', num r ''pkt_rate_1s'']
      else None)"

datatype kafka_msg = NoMessage | BrokerError | NotJson | NotUtf8 | Features wrecord

section \<open>The worker\<close>

text \<open>
  What surrounds the worker: whether a model's result arrives within the time limit, whether
  publishing raises, the clock, fresh alert ids, the iteration order of sets, the serialiser
  of features and whether ClickHouse inserts fail.
\<close>

record wenv =
  on_time :: "string \<Rightarrow> bool"
  publish :: "alert \<Rightarrow> unit result"
  clock :: real
  uuid :: "nat \<Rightarrow> string"
  set_order :: "string list \<Rightarrow> string list"
  dump_feats :: "fvec \<Rightarrow> string"
  insert_fails :: bool

record worker =
  wk_sessions :: "(string, session) dict"
  wk_normalizer :: normalizer
  wk_pending :: "(string, real list list) dict"
  wk_meta :: "(string, wrecord list) dict"
  wk_correlator :: correlator
  wk_store :: ch_store
  wk_published :: "alert list"
  wk_issued :: nat

definition no_pending :: "(string, session) dict \<Rightarrow> (string, 'a list) dict" where
  "no_pending sessions = map (\<lambda>(m, _). (m, [])) sessions"

definition worker_init :: "(string, session) dict \<Rightarrow> normalizer \<Rightarrow> ch_store \<Rightarrow> worker" where
  "worker_init sessions cals store =
     \<lparr>wk_sessions = sessions, wk_normalizer = cals, wk_pending = no_pending sessions,
      wk_meta = no_pending sessions, wk_correlator = correlator_init 600, wk_store = store,
      wk_published = [], wk_issued = 0\<rparr>"

definition worker_flow :: "wrecord \<Rightarrow> flow_info" where
  "worker_flow r =
     \<lparr>fi_src_ip = Some (Some (dict_get (wr_strs r) ''src_ip'' ''0.0.0.0'')),
      fi_dst_ip = Some (Some (dict_get (wr_strs r) ''dst_ip'' ''0.0.0.0'')),
      fi_src_port = Some (dict_get (wr_ports r) ''src_port'' 0),
      fi_dst_port = Some (dict_get (wr_ports r) ''dst_port'' 0),
      fi_protocol = Some (Some (dict_get (wr_strs r) ''protocol'' ''TCP''))\<rparr>"

definition worker_alert :: "normalizer \<Rightarrow> real \<Rightarrow> string \<Rightarrow> string \<Rightarrow> real \<Rightarrow> wrecord \<Rightarrow> alert result" where
  "worker_alert cals now i model score r =
     normalize cals i model score
       (map (\<lambda>k. (k, num r k)) [''pkt_rate_1s'', ''byte_rate_1s'', ''syn_rate_1s'', ''flow_duration'', ''flow_pkt_count''])
       (''ONNX '' @ model @ '' anomaly score='' @ fmt_fixed 3 score) (worker_flow r)
       (dict_get (wr_nums r) ''timestamp'' now) None None"

text \<open>
  The loop over one model's results; an exception ends it and is logged, so the rest of the
  batch is skipped.
\<close>

fun emit_alerts :: "wenv \<Rightarrow> string \<Rightarrow> wrecord list \<Rightarrow> nat \<Rightarrow> (real \<times> bool) list \<Rightarrow> worker \<Rightarrow> worker" where
  "emit_alerts env model metas idx [] w = w"
| "emit_alerts env model metas idx ((score, is_anomaly) # rest) w =
     (if is_anomaly \<and> 1 / 2 < score then
        (case py_index metas idx of Inl _ \<Rightarrow> w
         | Inr r \<Rightarrow>
             (case worker_alert (wk_normalizer w) (clock env) (uuid env (wk_issued w)) model score r of
                Inl _ \<Rightarrow> w
              | Inr a \<Rightarrow>
                  (let (a, corr) = correlate (set_order env) (wk_correlator w) a;
                       w = w\<lparr>wk_issued := wk_issued w + 1, wk_correlator := corr,
                              wk_store := ch_append (dump_feats env) (insert_fails env) (wk_store w) a\<rparr>
                   in case publish env a of
                        Inl _ \<Rightarrow> w
                      | Inr _ \<Rightarrow> emit_alerts env model metas (idx + 1) rest
                                   (w\<lparr>wk_published := wk_published w @ [a]\<rparr>))))
      else emit_alerts env model metas (idx + 1) rest w)"

definition flush_model :: "wenv \<Rightarrow> worker \<Rightarrow> string \<times> real list list \<Rightarrow> worker" where
  "flush_model env w mb =
     (let (model, batch) = mb
      in if batch = [] \<or> \<not> on_time env model then w
         else emit_alerts env model (dict_get (wk_meta w) model []) 0
                (predict_batch (map_of (wk_sessions w) model) batch) w)"

definition flush_batch :: "wenv \<Rightarrow> worker \<Rightarrow> worker" where
  "flush_batch env w = foldl (flush_model env) w (wk_pending w)"

definition accumulate :: "wrecord \<Rightarrow> worker \<Rightarrow> string \<Rightarrow> worker" where
  "accumulate r w model =
     (case extract_features_for_model model r of
        None \<Rightarrow> w
      | Some feats \<Rightarrow>
          if feats = [] then w
          else w\<lparr>wk_pending := dict_set model (dict_get (wk_pending w) model [] @ [feats]) (wk_pending w),
                 wk_meta := dict_set model (dict_get (wk_meta w) model [] @ [r]) (wk_meta w)\<rparr>)"

definition worker_message :: "nat \<Rightarrow> wenv \<Rightarrow> wrecord \<Rightarrow> worker \<Rightarrow> worker" where
  "worker_message batch_sz env r w =
     (let w = foldl (accumulate r) w (map fst (wk_sessions w))
      in if \<exists>b\<in>set (map snd (wk_pending w)). batch_sz \<le> length b
         then (flush_batch env w)\<lparr>wk_pending := no_pending (wk_sessions w), wk_meta := no_pending (wk_sessions w)\<rparr>
         else w)"

text \<open>
  The polled messages up to the stop request. A message that is not JSON is skipped; one that
  is not even UTF-8 raises another exception, which ends the worker with its batches unscored.
\<close>

fun worker_loop :: "nat \<Rightarrow> wenv \<Rightarrow> kafka_msg list \<Rightarrow> worker \<Rightarrow> worker result" where
  "worker_loop batch_sz env [] w = Inr w"
| "worker_loop batch_sz env (msg # msgs) w =
     (case msg of
        Features r \<Rightarrow> worker_loop batch_sz env msgs (worker_message batch_sz env r w)
      | NotUtf8 \<Rightarrow> Inl ValueError
      | _ \<Rightarrow> worker_loop batch_sz env msgs w)"

definition worker_run :: "nat \<Rightarrow> wenv \<Rightarrow> kafka_msg list \<Rightarrow> worker \<Rightarrow> worker result" where
  "worker_run batch_sz env msgs w =
     bind_result (worker_loop batch_sz env msgs w) (\<lambda>w.
       let w = (if \<exists>b\<in>set (map snd (wk_pending w)). b \<noteq> [] then flush_batch env w else w)
       in Inr (w\<lparr>wk_store := ch_close (dump_feats env) (insert_fails env) (wk_store w)\<rparr>))"

section \<open>Batching is transparent\<close>

definition core :: "alert \<Rightarrow> alert" where
  "core a = a\<lparr>al_id := [], al_related := []\<rparr>"

definition prob_of :: "real list \<Rightarrow> real" where
  "prob_of p = (if 1 < length p then p ! 1 else p ! 0)"

definition scored :: "(string \<Rightarrow> real list \<Rightarrow> real list) \<Rightarrow> string \<Rightarrow> real list \<Rightarrow> real \<times> bool" where
  "scored probs m x = (prob_of (probs m x), 1 / 2 < prob_of (probs m x))"

text \<open>
  The undisturbed worker: results arrive in time, publishing works, and every session scores
  its input row by row, returning one non-empty row of probabilities per input.
\<close>

definition undisturbed :: "wenv \<Rightarrow> (string, session) dict \<Rightarrow> (string \<Rightarrow> real list \<Rightarrow> real list) \<Rightarrow> bool" where
  "undisturbed env sessions probs \<longleftrightarrow>
     (\<forall>m. on_time env m) \<and> (\<forall>a. publish env a = Inr ()) \<and> dict_wf sessions
     \<and> (\<forall>m x. probs m x \<noteq> [])
     \<and> (\<forall>m run. map_of sessions m = Some run \<longrightarrow> (\<forall>X. \<exists>labels. run X = Inr [labels, RealMat (map (probs m) X)]))"

text \<open>The alerts one message owes one model.\<close>

definition owed :: "normalizer \<Rightarrow> real \<Rightarrow> (string \<Rightarrow> real list \<Rightarrow> real list) \<Rightarrow> string \<Rightarrow> wrecord \<Rightarrow> alert list" where
  "owed cals now probs m r =
     (case extract_features_for_model m r of None \<Rightarrow> []
      | Some x \<Rightarrow> if 1 / 2 < prob_of (probs m x)
                  then [core (projr (worker_alert cals now [] m (prob_of (probs m x)) r))] else [])"

definition raised_by :: "string \<Rightarrow> alert list \<Rightarrow> alert list" where
  "raised_by m as = filter (\<lambda>a. al_detector a = m) (map core as)"

lemma core_detector [simp]: "al_detector (core a) = al_detector a"
  by (simp add: core_def)

lemma raised_by_append [simp]: "raised_by m (as @ bs) = raised_by m as @ raised_by m bs"
  by (simp add: raised_by_def)

lemma worker_alert_core:
  obtains a where "worker_alert cals now i m s r = Inr a" "al_detector a = m"
    "core a = core (projr (worker_alert cals now [] m s r))"
  by (simp add: worker_alert_def normalize_def make_flow_id_def worker_flow_def str_field_def core_def Let_def)

lemma correlate_core: "core (fst (correlate od c a)) = core a" "al_detector (fst (correlate od c a)) = al_detector a"
  by (simp_all add: correlate_def core_def Let_def case_prod_unfold)

lemma predict_batch_rowwise:
  assumes "undisturbed env sessions probs" and "map_of sessions m = Some run"
  shows "predict_batch (Some run) X = map (scored probs m) X"
proof -
  obtain labels where "run X = Inr [labels, RealMat (map (probs m) X)]"
    using assms unfolding undisturbed_def by blast
  moreover have "positive_prob (probs m x) = Inr (prob_of (probs m x))" for x
    using assms(1) by (simp add: undisturbed_def positive_prob_def prob_of_def py_index_def)
  then have "map_result positive_prob (map (probs m) X) = Inr (map prob_of (map (probs m) X))"
    by (intro map_result_Inr) auto
  ultimately show ?thesis by (simp add: predict_batch_def score_outputs_def scored_def comp_def)
qed

definition same_frame :: "worker \<Rightarrow> worker \<Rightarrow> bool" where
  "same_frame w w' \<longleftrightarrow> wk_sessions w' = wk_sessions w \<and> wk_normalizer w' = wk_normalizer w
     \<and> wk_pending w' = wk_pending w \<and> wk_meta w' = wk_meta w"

definition emitted :: "wenv \<Rightarrow> (string \<Rightarrow> real list \<Rightarrow> real list) \<Rightarrow> string \<Rightarrow> wrecord list \<Rightarrow> worker \<Rightarrow> worker \<Rightarrow> bool" where
  "emitted env probs m rs w w' \<longleftrightarrow> (\<exists>new. wk_published w' = wk_published w @ new
     \<and> map core new = concat (map (owed (wk_normalizer w) (clock env) probs m) rs)
     \<and> (\<forall>a\<in>set new. al_detector a = m)
     \<and> wk_store w' = foldl (ch_append (dump_feats env) (insert_fails env)) (wk_store w) new \<and> same_frame w w')"

lemma owed_cases:
  assumes "extract_features_for_model m r = Some x"
  shows "\<not> 1 / 2 < prob_of (probs m x) \<Longrightarrow> owed cals now probs m r = []"
    and "1 / 2 < prob_of (probs m x)
      \<Longrightarrow> owed cals now probs m r = [core (projr (worker_alert cals now [] m (prob_of (probs m x)) r))]"
  using assms by (simp_all add: owed_def)

lemma emitted_Cons:
  assumes "emitted env probs m rs v w'" and "wk_published v = wk_published w @ [b]" and "al_detector b = m"
    and "owed (wk_normalizer w) (clock env) probs m r = [core b]" and "same_frame w v"
    and "wk_store v = ch_append (dump_feats env) (insert_fails env) (wk_store w) b"
  shows "emitted env probs m (r # rs) w w'"
proof -
  obtain new where new: "wk_published w' = wk_published v @ new"
    "map core new = concat (map (owed (wk_normalizer v) (clock env) probs m) rs)" "\<forall>a\<in>set new. al_detector a = m"
    "wk_store w' = foldl (ch_append (dump_feats env) (insert_fails env)) (wk_store v) new" "same_frame v w'"
    using assms(1) unfolding emitted_def by blast
  show ?thesis
    unfolding emitted_def
    by (rule exI [of _ "b # new"]) (use new assms(2-6) in \<open>auto simp: same_frame_def\<close>)
qed

lemma emit_alerts_rowwise:
  assumes pub: "\<And>a. publish env a = Inr ()"
    and "\<And>r. r \<in> set rs \<Longrightarrow> extract_features_for_model m r = Some (f r)" and "drop idx metas = rs"
  shows "emitted env probs m rs w (emit_alerts env m metas idx (map (scored probs m) (map f rs)) w)"
  using assms(2,3)
proof (induction rs arbitrary: idx w)
  case Nil
  then show ?case by (simp add: same_frame_def emitted_def)
next
  case (Cons r rs)
  let ?p = "prob_of (probs m (f r))"
  have meta: "py_index metas idx = Inr r" and rest: "drop (idx + 1) metas = rs"
    using Cons.prems(2) by (auto simp: py_index_def nth_via_drop drop_Suc tl_drop)
      (metis drop_all list.distinct(1) not_le, metis drop_Suc list.sel(3) tl_drop)
  have IH: "emitted env probs m rs v (emit_alerts env m metas (idx + 1) (map (scored probs m) (map f rs)) v)" for v
    by (rule Cons.IH [OF _ rest]) (simp add: Cons.prems(1))
  have x: "extract_features_for_model m r = Some (f r)" using Cons.prems(1) by simp
  show ?case
  proof (cases "1 / 2 < ?p")
    case False
    then show ?thesis using IH [of w] owed_cases(1) [where probs = probs, OF x False] by (simp add: scored_def [of probs m "f r"] emitted_def)
  next
    case True
    obtain a where a: "worker_alert (wk_normalizer w) (clock env) (uuid env (wk_issued w)) m ?p r = Inr a"
      "al_detector a = m" "core a = core (projr (worker_alert (wk_normalizer w) (clock env) [] m ?p r))"
      by (rule worker_alert_core)
    obtain b corr where b: "correlate (set_order env) (wk_correlator w) a = (b, corr)" by (rule prod.exhaust)
    have bc: "core b = core a" "al_detector b = m"
      using correlate_core [of "set_order env" "wk_correlator w" a] a(2) by (simp_all add: b)
    define v where "v = w\<lparr>wk_issued := wk_issued w + 1, wk_correlator := corr,
      wk_store := ch_append (dump_feats env) (insert_fails env) (wk_store w) b,
      wk_published := wk_published w @ [b]\<rparr>"
    have "emit_alerts env m metas idx (map (scored probs m) (map f (r # rs))) w
      = emit_alerts env m metas (idx + 1) (map (scored probs m) (map f rs)) v"
      using True meta a(1) b pub by (simp add: v_def scored_def [of probs m "f r"])
    moreover have "emitted env probs m (r # rs) w (emit_alerts env m metas (idx + 1) (map (scored probs m) (map f rs)) v)"
      by (rule emitted_Cons [OF IH, where b = b])
        (use owed_cases(2) [where probs = probs, OF x True] bc a(3) in \<open>simp_all add: v_def same_frame_def\<close>)
    ultimately show ?thesis by simp
  qed
qed

text \<open>The batches hold, for every session, the features of the records \<open>recs m\<close> waiting for it.\<close>

definition waiting :: "(string \<Rightarrow> wrecord list) \<Rightarrow> worker \<Rightarrow> bool" where
  "waiting recs w \<longleftrightarrow> map fst (wk_pending w) = map fst (wk_sessions w)
     \<and> (\<forall>m\<in>fst ` set (wk_sessions w).
          map_of (wk_pending w) m = Some (map (\<lambda>r. the (extract_features_for_model m r)) (recs m))
          \<and> map_of (wk_meta w) m = Some (recs m)
          \<and> (\<forall>r\<in>set (recs m). extract_features_for_model m r \<noteq> None))"

lemma waitingD:
  assumes "waiting recs w" and "m \<in> fst ` set (wk_sessions w)"
  shows "map_of (wk_pending w) m = Some (map (\<lambda>r. the (extract_features_for_model m r)) (recs m))
    \<and> map_of (wk_meta w) m = Some (recs m)"
  using assms unfolding waiting_def by blast

lemma flush_model_emitted:
  assumes "undisturbed env (wk_sessions w) probs" and "waiting recs w"
    and "(m, batch) \<in> set (wk_pending w)"
  shows "emitted env probs m (recs m) w (flush_model env w (m, batch))"
proof -
  let ?f = "\<lambda>r. the (extract_features_for_model m r)"
  have wf: "dict_wf (wk_pending w)" using assms(1,2) by (simp add: undisturbed_def waiting_def dict_wf_def)
  have m: "m \<in> fst ` set (wk_sessions w)"
    using assms(2,3) unfolding waiting_def by (metis fst_conv image_eqI list.set_map)
  then have batch: "batch = map ?f (recs m)" and meta: "map_of (wk_meta w) m = Some (recs m)"
    and x: "\<And>r. r \<in> set (recs m) \<Longrightarrow> extract_features_for_model m r = Some (?f r)"
    using assms(2,3) wf by (auto simp: waiting_def dict_wf_def dest: map_of_is_SomeI)
  obtain run where run: "map_of (wk_sessions w) m = Some run" using m by (metis map_of_eq_None_iff not_None_eq)
  show ?thesis
  proof (cases "batch = []")
    case True
    then show ?thesis using batch by (simp add: flush_model_def emitted_def same_frame_def)
  next
    case False
    have "emitted env probs m (recs m) w (emit_alerts env m (recs m) 0 (map (scored probs m) (map ?f (recs m))) w)"
      by (rule emit_alerts_rowwise) (use assms(1) x in \<open>auto simp: undisturbed_def\<close>)
    moreover have "on_time env m" using assms(1) by (simp add: undisturbed_def)
    ultimately show ?thesis
      using False run meta predict_batch_rowwise [OF assms(1) run]
      by (simp add: flush_model_def batch dict_get_def)
  qed
qed

lemma same_frame_waiting: "same_frame w w' \<Longrightarrow> waiting recs w' = waiting recs w"
  by (simp add: same_frame_def waiting_def)

lemma emitted_raised:
  assumes "emitted env probs m rs w w'"
  shows "raised_by m' (wk_published w') = raised_by m' (wk_published w)
     @ (if m' = m then concat (map (owed (wk_normalizer w) (clock env) probs m) rs) else [])"
proof -
  obtain new where new: "wk_published w' = wk_published w @ new"
    "map core new = concat (map (owed (wk_normalizer w) (clock env) probs m) rs)" "\<forall>a\<in>set new. al_detector a = m"
    using assms unfolding emitted_def by blast
  have "raised_by m' new = (if m' = m then map core new else [])"
    using new(3) by (auto simp: raised_by_def filter_id_conv filter_empty_conv)
  with new(1,2) show ?thesis by simp
qed

definition stored_published :: "wenv \<Rightarrow> ch_store \<Rightarrow> worker \<Rightarrow> bool" where
  "stored_published env s0 w \<longleftrightarrow>
     wk_store w = foldl (ch_append (dump_feats env) (insert_fails env)) s0 (wk_published w)"

lemma emitted_stored: "emitted env probs m rs w w' \<Longrightarrow> stored_published env s0 w \<Longrightarrow> stored_published env s0 w'"
  by (auto simp: emitted_def stored_published_def)

lemma flush_models:
  assumes "undisturbed env (wk_sessions w) probs" and "waiting recs w" and "stored_published env s0 w"
    and "set items \<subseteq> set (wk_pending w)" and "distinct (map fst items)"
  shows "let w' = foldl (flush_model env) w items
    in same_frame w w' \<and> stored_published env s0 w'
     \<and> (\<forall>m. raised_by m (wk_published w') = raised_by m (wk_published w)
          @ (if m \<in> fst ` set items then concat (map (owed (wk_normalizer w) (clock env) probs m) (recs m)) else []))"
  using assms
proof (induction items arbitrary: w)
  case Nil
  then show ?case by (simp add: same_frame_def)
next
  case (Cons it items)
  obtain m batch where it: "it = (m, batch)" by (rule prod.exhaust)
  let ?v = "flush_model env w it"
  have e: "emitted env probs m (recs m) w ?v"
    unfolding it by (rule flush_model_emitted) (use Cons.prems it in auto)
  then have fr: "same_frame w ?v" by (auto simp: emitted_def)
  note v = fr [unfolded same_frame_def]
  have IH: "let w' = foldl (flush_model env) ?v items
    in same_frame ?v w' \<and> stored_published env s0 w'
     \<and> (\<forall>m. raised_by m (wk_published w') = raised_by m (wk_published ?v)
          @ (if m \<in> fst ` set items then concat (map (owed (wk_normalizer ?v) (clock env) probs m) (recs m)) else []))"
    by (rule Cons.IH)
      (use Cons.prems v same_frame_waiting [OF fr] emitted_stored [OF e] in auto)
  show ?case
    using IH v emitted_raised [OF e] Cons.prems(5) by (auto simp: Let_def same_frame_def it)
qed

text \<open>Between messages: nothing is lost, nothing is raised twice, and what was published was stored.\<close>

definition caught_up ::
    "wenv \<Rightarrow> (string \<Rightarrow> real list \<Rightarrow> real list) \<Rightarrow> ch_store \<Rightarrow> (string, session) dict \<Rightarrow> normalizer
      \<Rightarrow> wrecord list \<Rightarrow> worker \<Rightarrow> bool" where
  "caught_up env probs s0 sessions cals rs w \<longleftrightarrow>
     wk_sessions w = sessions \<and> wk_normalizer w = cals \<and> stored_published env s0 w
     \<and> (\<exists>recs. waiting recs w \<and> (\<forall>m\<in>fst ` set sessions.
           raised_by m (wk_published w) @ concat (map (owed cals (clock env) probs m) (recs m))
             = concat (map (owed cals (clock env) probs m) rs)))"

lemma flush_batch_caught_up:
  assumes "undisturbed env sessions probs" and "caught_up env probs s0 sessions cals rs w"
  shows "let w' = flush_batch env w
    in wk_sessions w' = sessions \<and> wk_normalizer w' = cals \<and> stored_published env s0 w'
     \<and> (\<forall>m\<in>fst ` set sessions. raised_by m (wk_published w') = concat (map (owed cals (clock env) probs m) rs))"
proof -
  obtain recs where w: "wk_sessions w = sessions" "wk_normalizer w = cals" "stored_published env s0 w" "waiting recs w"
    and own: "\<forall>m\<in>fst ` set sessions. raised_by m (wk_published w)
      @ concat (map (owed cals (clock env) probs m) (recs m)) = concat (map (owed cals (clock env) probs m) rs)"
    using assms(2) unfolding caught_up_def by blast
  have keys: "map fst (wk_pending w) = map fst sessions" using w(1,4) by (simp add: waiting_def)
  then have "distinct (map fst (wk_pending w))" using assms(1) by (simp add: undisturbed_def dict_wf_def)
  with flush_models [of env w probs recs s0 "wk_pending w"] assms(1) w
  have "let w' = flush_batch env w
    in same_frame w w' \<and> stored_published env s0 w'
     \<and> (\<forall>m. raised_by m (wk_published w') = raised_by m (wk_published w)
          @ (if m \<in> fst ` set (wk_pending w) then concat (map (owed cals (clock env) probs m) (recs m)) else []))"
    by (simp add: flush_batch_def Let_def)
  moreover have "fst ` set (wk_pending w) = fst ` set sessions" using keys by (metis list.set_map)
  ultimately show ?thesis using own w(1,2) by (simp add: Let_def same_frame_def)
qed

lemma accumulate_fields [simp]:
  "wk_sessions (accumulate r w m) = wk_sessions w" "wk_normalizer (accumulate r w m) = wk_normalizer w"
  "wk_store (accumulate r w m) = wk_store w" "wk_published (accumulate r w m) = wk_published w"
  by (simp_all add: accumulate_def split: option.splits)

lemma accumulate_all_fields [simp]:
  "wk_sessions (foldl (accumulate r) w ms) = wk_sessions w"
  "wk_normalizer (foldl (accumulate r) w ms) = wk_normalizer w"
  "wk_store (foldl (accumulate r) w ms) = wk_store w" "wk_published (foldl (accumulate r) w ms) = wk_published w"
  by (induction ms arbitrary: w) simp_all

definition take_up :: "wrecord \<Rightarrow> string list \<Rightarrow> (string \<Rightarrow> wrecord list) \<Rightarrow> string \<Rightarrow> wrecord list" where
  "take_up r ms recs m = recs m @ (if m \<in> set ms \<and> extract_features_for_model m r \<noteq> None then [r] else [])"

lemma extract_nonempty: "extract_features_for_model m r = Some x \<Longrightarrow> x \<noteq> []"
  by (auto simp: extract_features_for_model_def split: if_splits)

lemma accumulate_waiting:
  assumes "waiting recs w" and "m \<in> fst ` set (wk_sessions w)"
  shows "waiting (take_up r [m] recs) (accumulate r w m)"
proof (cases "extract_features_for_model m r")
  case None
  with assms show ?thesis by (auto simp: accumulate_def waiting_def take_up_def)
next
  case (Some x)
  have "map_of (wk_pending w) m \<noteq> None" using waitingD [OF assms] by simp
  then have "map fst (dict_set m v (wk_pending w)) = map fst (wk_pending w)" for v
    by (simp add: dict_keys_set dict_has_iff)
  with assms Some extract_nonempty [OF Some] show ?thesis
    by (auto simp: accumulate_def waiting_def take_up_def map_of_dict_set dict_get_def)
qed

lemma accumulate_all_waiting:
  assumes "waiting recs w" and "set ms \<subseteq> fst ` set (wk_sessions w)" and "distinct ms"
  shows "waiting (take_up r ms recs) (foldl (accumulate r) w ms)"
  using assms
proof (induction ms arbitrary: recs w)
  case Nil
  then show ?case by (simp add: take_up_def waiting_def)
next
  case (Cons m ms)
  have "waiting (take_up r ms (take_up r [m] recs)) (foldl (accumulate r) (accumulate r w m) ms)"
    by (rule Cons.IH) (use Cons.prems accumulate_waiting in auto)
  moreover have "take_up r ms (take_up r [m] recs) = take_up r (m # ms) recs"
    using Cons.prems(3) by (auto simp: take_up_def fun_eq_iff)
  ultimately show ?case by simp
qed

lemma no_pending_simps [simp]:
  "map fst (no_pending d) = map fst d" "m \<in> fst ` set d \<Longrightarrow> map_of (no_pending d) m = Some []"
  by (induction d) (auto simp: no_pending_def)

lemma no_pending_waiting:
  "wk_pending w = no_pending (wk_sessions w) \<Longrightarrow> wk_meta w = no_pending (wk_sessions w) \<Longrightarrow> waiting (\<lambda>_. []) w"
  unfolding waiting_def by (intro conjI ballI) simp_all

lemma worker_message_caught_up:
  assumes "undisturbed env sessions probs" and "caught_up env probs s0 sessions cals rs w"
  shows "caught_up env probs s0 sessions cals (rs @ [r]) (worker_message n env r w)"
proof -
  let ?acc = "foldl (accumulate r) w (map fst (wk_sessions w))"
  obtain recs where w: "wk_sessions w = sessions" "wk_normalizer w = cals" "stored_published env s0 w" "waiting recs w"
    and own: "\<forall>m\<in>fst ` set sessions. raised_by m (wk_published w)
      @ concat (map (owed cals (clock env) probs m) (recs m)) = concat (map (owed cals (clock env) probs m) rs)"
    using assms(2) unfolding caught_up_def by blast
  have "waiting (take_up r (map fst sessions) recs) ?acc"
    unfolding w(1) by (rule accumulate_all_waiting) (use assms(1) w in \<open>simp_all add: undisturbed_def dict_wf_def\<close>)
  moreover have "raised_by m (wk_published w)
      @ concat (map (owed cals (clock env) probs m) (take_up r (map fst sessions) recs m))
      = concat (map (owed cals (clock env) probs m) (rs @ [r]))" if "m \<in> fst ` set sessions" for m
    using own that by (cases "extract_features_for_model m r") (auto simp: take_up_def owed_def)
  ultimately have acc: "caught_up env probs s0 sessions cals (rs @ [r]) ?acc"
    using w(1-3) unfolding caught_up_def stored_published_def by (intro conjI exI) auto
  show ?thesis
  proof (cases "\<exists>b\<in>set (map snd (wk_pending ?acc)). n \<le> length b")
    case True
    let ?v = "(flush_batch env ?acc)\<lparr>wk_pending := no_pending sessions, wk_meta := no_pending sessions\<rparr>"
    have "caught_up env probs s0 sessions cals (rs @ [r]) ?v"
      using flush_batch_caught_up [OF assms(1) acc] no_pending_waiting [of ?v]
      unfolding caught_up_def stored_published_def by (intro conjI exI [of _ "\<lambda>_. []"]) (simp_all add: Let_def)
    then show ?thesis using True w(1) by (simp add: worker_message_def Let_def)
  next
    case False
    then show ?thesis using acc by (simp add: worker_message_def Let_def)
  qed
qed

definition feature_records :: "kafka_msg list \<Rightarrow> wrecord list" where
  "feature_records msgs = concat (map (\<lambda>m. case m of Features r \<Rightarrow> [r] | _ \<Rightarrow> []) msgs)"

lemma worker_loop_caught_up:
  assumes "undisturbed env sessions probs" and "caught_up env probs s0 sessions cals rs w"
    and "worker_loop n env msgs w = Inr w'"
  shows "caught_up env probs s0 sessions cals (rs @ feature_records msgs) w'"
  using assms(2,3)
proof (induction msgs arbitrary: rs w)
  case Nil
  then show ?case by (simp add: feature_records_def)
next
  case (Cons msg msgs)
  show ?case
  proof (cases msg)
    case (Features r)
    have "caught_up env probs s0 sessions cals ((rs @ [r]) @ feature_records msgs) w'"
      by (rule Cons.IH [OF worker_message_caught_up [OF assms(1) Cons.prems(1)]]) (use Cons.prems(2) Features in simp)
    then show ?thesis by (simp add: Features feature_records_def)
  qed (use Cons in \<open>auto simp: feature_records_def\<close>)
qed

lemma worker_loop_total: "NotUtf8 \<notin> set msgs \<Longrightarrow> \<exists>w'. worker_loop n env msgs w = Inr w'"
  by (induction msgs arbitrary: w) (auto split: kafka_msg.splits)

lemma nothing_waiting:
  assumes "caught_up env probs s0 sessions cals rs w" and "\<not> (\<exists>b\<in>set (map snd (wk_pending w)). b \<noteq> [])"
  shows "\<forall>m\<in>fst ` set sessions. raised_by m (wk_published w) = concat (map (owed cals (clock env) probs m) rs)"
proof
  fix m assume m: "m \<in> fst ` set sessions"
  obtain recs where w: "wk_sessions w = sessions" "waiting recs w"
    and own: "raised_by m (wk_published w)
      @ concat (map (owed cals (clock env) probs m) (recs m)) = concat (map (owed cals (clock env) probs m) rs)"
    using assms(1) m unfolding caught_up_def by blast
  have "map_of (wk_pending w) m = Some (map (\<lambda>r. the (extract_features_for_model m r)) (recs m))"
    using waitingD [OF w(2)] m w(1) by simp
  then have "map (\<lambda>r. the (extract_features_for_model m r)) (recs m) \<in> set (map snd (wk_pending w))"
    by (auto dest!: map_of_SomeD intro: rev_image_eqI)
  with assms(2) have "map (\<lambda>r. the (extract_features_for_model m r)) (recs m) = []" by blast
  then have "recs m = []" by simp
  with own show "raised_by m (wk_published w) = concat (map (owed cals (clock env) probs m) rs)" by simp
qed


definition sample_env :: wenv where
  "sample_env = \<lparr>on_time = (\<lambda>_. True), publish = (\<lambda>_. Inr ()), clock = 100, uuid = (\<lambda>n. nat_str n),
     set_order = (\<lambda>xs. xs), dump_feats = (\<lambda>_. []), insert_fails = False\<rparr>"

definition sample_session :: session where
  "sample_session X = Inr [IntVec (map (\<lambda>_. 1) X), RealMat (map (\<lambda>x. [1 / 4, 3 / 4]) X)]"


section \<open>What is never consulted\<close>

lemma accumulate_dga: "accumulate r w ''dga'' = w"
  by (simp add: accumulate_def extract_features_for_model_def)

definition no_dga :: "worker \<Rightarrow> bool" where
  "no_dga w \<longleftrightarrow> dict_get (wk_pending w) ''dga'' [] = [] \<and> dict_wf (wk_pending w)
     \<and> (\<forall>a\<in>set (wk_published w). al_detector a \<noteq> ''dga'')"

lemma no_dga_accumulate: "no_dga w \<Longrightarrow> no_dga (accumulate r w m)"
proof (cases "m = ''dga''")
  case True
  then show "no_dga w \<Longrightarrow> ?thesis" by (simp add: accumulate_dga)
next
  case False
  then show "no_dga w \<Longrightarrow> ?thesis"
    by (auto simp: no_dga_def accumulate_def dict_get_def map_of_dict_set split: option.splits)
qed

lemma worker_alert_detector: "worker_alert cals now i m s r = Inr a \<Longrightarrow> al_detector a = m"
  by (auto simp: worker_alert_def normalize_Inr)

lemma emit_alerts_detector:
  "m \<noteq> ''dga'' \<Longrightarrow> no_dga w \<Longrightarrow> no_dga (emit_alerts env m metas idx results w)"
proof (induction results arbitrary: idx w)
  case (Cons res rest)
  obtain score flag where res: "res = (score, flag)" by (rule prod.exhaust)
  show ?case
  proof (cases "flag \<and> 1 / 2 < score \<and> (\<exists>r a. py_index metas idx = Inr r
      \<and> worker_alert (wk_normalizer w) (clock env) (uuid env (wk_issued w)) m score r = Inr a)")
    case False
    then show ?thesis using Cons by (auto simp: res split: sum.splits)
  next
    case True
    then obtain r a where hit: "flag" "1 / 2 < score" and r: "py_index metas idx = Inr r"
      and a: "worker_alert (wk_normalizer w) (clock env) (uuid env (wk_issued w)) m score r = Inr a" by blast
    obtain b corr where b: "correlate (set_order env) (wk_correlator w) a = (b, corr)" by (rule prod.exhaust)
    let ?v = "w\<lparr>wk_issued := wk_issued w + 1, wk_correlator := corr,
        wk_store := ch_append (dump_feats env) (insert_fails env) (wk_store w) b\<rparr>"
    have "al_detector b = m"
      using correlate_core(2) [of "set_order env" "wk_correlator w" a] worker_alert_detector [OF a] by (simp add: b)
    then have v: "no_dga ?v" "no_dga (?v\<lparr>wk_published := wk_published ?v @ [b]\<rparr>)"
      using Cons.prems by (auto simp: no_dga_def)
    show ?thesis
      using hit r a b v(1) Cons.IH [OF Cons.prems(1) v(2)] by (cases "publish env b") (simp_all add: res)
  qed
qed simp

lemma emit_alerts_pending [simp]:
  "wk_pending (emit_alerts env m metas idx results w) = wk_pending w"
  "wk_sessions (emit_alerts env m metas idx results w) = wk_sessions w"
  by (induction env m metas idx results w rule: emit_alerts.induct)
    (auto simp: Let_def case_prod_unfold split: sum.splits)

lemma flush_model_pending [simp]:
  "wk_pending (flush_model env w mb) = wk_pending w" "wk_sessions (flush_model env w mb) = wk_sessions w"
  by (simp_all add: flush_model_def Let_def case_prod_unfold)

lemma flush_models_pending [simp]:
  "wk_pending (foldl (flush_model env) w items) = wk_pending w"
  "wk_sessions (foldl (flush_model env) w items) = wk_sessions w"
  by (induction items arbitrary: w) simp_all

lemma no_dga_flush: "no_dga w \<Longrightarrow> no_dga (flush_batch env w)"
  unfolding flush_batch_def
proof (rule foldl_invariant [where P = "\<lambda>v. no_dga v \<and> wk_pending v = wk_pending w", THEN conjunct1])
  fix v mb assume v: "no_dga v \<and> wk_pending v = wk_pending w" and mb: "mb \<in> set (wk_pending w)"
  obtain m b where "mb = (m, b)" by (rule prod.exhaust)
  moreover have "b = []" if "m = ''dga''"
    using v mb that calculation by (auto simp: no_dga_def dict_get_def dict_wf_def dest: map_of_is_SomeI)
  ultimately show "no_dga (flush_model env v mb) \<and> wk_pending (flush_model env v mb) = wk_pending w"
    using v emit_alerts_detector by (cases "m = ''dga''") (auto simp: flush_model_def)
qed simp

lemma no_dga_message:
  assumes "dict_wf (wk_sessions w)" and "no_dga w"
  shows "no_dga (worker_message n env r w) \<and> wk_sessions (worker_message n env r w) = wk_sessions w"
proof -
  have acc: "no_dga (foldl (accumulate r) w ms)" for ms
    using assms(2) by (rule foldl_invariant) (rule no_dga_accumulate)
  have "dict_get (no_pending (wk_sessions w)) ''dga'' [] = ([] :: real list list)"
    by (cases "''dga'' \<in> fst ` set (wk_sessions w)")
      (auto simp: dict_get_def map_of_eq_None_iff no_pending_def image_iff split: option.splits dest!: map_of_SomeD)
  then have "no_dga ((flush_batch env v)\<lparr>wk_pending := no_pending (wk_sessions w), wk_meta := e\<rparr>)" if "no_dga v" for v e
    using no_dga_flush [OF that] assms(1) by (simp add: no_dga_def dict_wf_def)
  with acc show ?thesis by (simp add: worker_message_def Let_def flush_batch_def [symmetric]) (simp add: flush_batch_def)
qed

lemma no_dga_loop:
  "dict_wf (wk_sessions w) \<Longrightarrow> no_dga w \<Longrightarrow> worker_loop n env msgs w = Inr w' \<Longrightarrow> no_dga w'"
proof (induction msgs arbitrary: w)
  case (Cons msg msgs)
  show ?case
  proof (cases msg)
    case (Features r)
    show ?thesis
      by (rule Cons.IH [of "worker_message n env r w"])
        (use Cons.prems no_dga_message [OF Cons.prems(1,2)] Features in simp_all)
  qed (use Cons in auto)
qed simp

text \<open>
  The DGA model is dead weight: the feature mapping has no case for it, so whatever sessions
  are loaded, whatever the messages are and however the environment behaves, no alert with
  detector \<^verbatim>\<open>dga\<close> is ever published.
\<close>

theorem worker_never_scores_dga:
  assumes "dict_wf sessions" and "worker_run n env msgs (worker_init sessions cals s0) = Inr w"
  shows "\<forall>a\<in>set (wk_published w). al_detector a \<noteq> ''dga''"
proof -
  obtain v where v: "worker_loop n env msgs (worker_init sessions cals s0) = Inr v"
    and w: "wk_published w = wk_published (if \<exists>b\<in>set (map snd (wk_pending v)). b \<noteq> [] then flush_batch env v else v)"
    using assms(2) by (auto simp: worker_run_def bind_result_Inr Let_def)
  have "dict_get (no_pending sessions) ''dga'' [] = ([] :: real list list)"
    by (auto simp: dict_get_def no_pending_def split: option.splits dest!: map_of_SomeD)
  then have "no_dga (worker_init sessions cals s0)"
    using assms(1) by (simp add: no_dga_def worker_init_def dict_wf_def)
  then have "no_dga v" using no_dga_loop [OF _ _ v] assms(1) by (simp add: worker_init_def)
  then show ?thesis using no_dga_flush [of v env] w by (auto simp: no_dga_def split: if_splits)
qed

theorem worker_never_scores_dga_witness:
  "\<exists>w. worker_run 1 sample_env [Features \<lparr>wr_nums = [], wr_ports = [], wr_strs = []\<rparr>]
      (worker_init [(''dga'', sample_session)] [] (ch_init (Inr ()) [] 500)) = Inr w
    \<and> (\<forall>a\<in>set (wk_published w). al_detector a \<noteq> ''dga'')"
proof -
  let ?i = "worker_init [(''dga'', sample_session)] [] (ch_init (Inr ()) [] 500)"
  let ?r = "\<lparr>wr_nums = [], wr_ports = [], wr_strs = []\<rparr>"
  obtain v where "worker_loop 1 sample_env [Features ?r] ?i = Inr v"
    using worker_loop_total [of "[Features ?r]" 1 sample_env ?i] by auto
  then obtain w where w: "worker_run 1 sample_env [Features ?r] ?i = Inr w" by (simp add: worker_run_def Let_def)
  then show ?thesis
    using worker_never_scores_dga [OF _ w] by (intro exI [of _ w]) (simp add: dict_wf_def)
qed

end
