(* ===== verification/Splits.thy ===== *)
theory Splits
  imports Prelude
begin

text \<open>
  The train/validation/test splits of \<^verbatim>\<open>data/splits/generate_splits.py\<close>. The theorems show
  that the chronological split is a partition in time order, that the entity holdout never
  shows a held-out entity to training or validation, and which record the holdout loses.
\<close>

text \<open>
  A data record as the code reads it: its timestamp, absent or present, and the values of its
  other keys, where an absent key and \<^verbatim>\<open>None\<close> are both \<open>None\<close> for \<^verbatim>\<open>get\<close>.
\<close>

record data_record =
  dr_timestamp :: "real option"
  dr_fields :: "(string, string) dict"

definition record_ts :: "data_record \<Rightarrow> real" where
  "record_ts r = (case dr_timestamp r of None \<Rightarrow> 0 | Some t \<Rightarrow> t)"

text \<open>The slice \<^verbatim>\<open>xs[a:b]\<close>: a negative bound counts from the end, both are clipped.\<close>

definition slice_bound :: "nat \<Rightarrow> int \<Rightarrow> nat" where
  "slice_bound n i = (if i < 0 then nat (int n + i) else min n (nat i))"

definition py_slice :: "int \<Rightarrow> int \<Rightarrow> 'a list \<Rightarrow> 'a list" where
  "py_slice a b xs =
     (let n = length xs in take (slice_bound n b - slice_bound n a) (drop (slice_bound n a) xs))"

definition generate_chronological_splits ::
    "real \<Rightarrow> real \<Rightarrow> data_record list \<Rightarrow> data_record list \<times> data_record list \<times> data_record list" where
  "generate_chronological_splits train_ratio val_ratio data =
     (let recs = sort_key record_ts data;
          total = length recs;
          train_end = py_int (real total * train_ratio);
          val_end = train_end + py_int (real total * val_ratio)
      in (py_slice 0 train_end recs, py_slice train_end val_end recs, py_slice val_end (int total) recs))"

text \<open>
  \<open>shuffled\<close> stands for \<^verbatim>\<open>list(set(...))\<close> followed by \<^verbatim>\<open>random.shuffle\<close>: some arrangement of the
  distinct entities. A missing or empty entity is falsy.
\<close>

definition entity_of :: "string \<Rightarrow> data_record \<Rightarrow> string option" where
  "entity_of key r = map_of (dr_fields r) key"

definition entities :: "string \<Rightarrow> data_record list \<Rightarrow> string list" where
  "entities key data = map the (filter (\<lambda>e. e \<noteq> None \<and> e \<noteq> Some []) (map (entity_of key) data))"

definition holdout_entities :: "real \<Rightarrow> string list \<Rightarrow> string list" where
  "holdout_entities ratio es = py_slice 0 (max 1 (py_int (real (length es) * ratio))) es"

definition generate_entity_holdout_splits ::
    "(string list \<Rightarrow> string list) \<Rightarrow> string \<Rightarrow> real \<Rightarrow> data_record list
      \<Rightarrow> data_record list \<times> data_record list \<times> data_record list" where
  "generate_entity_holdout_splits shuffled key ratio data =
     (let held = holdout_entities ratio (shuffled (entities key data));
          is_held = (\<lambda>r. case entity_of key r of None \<Rightarrow> False | Some e \<Rightarrow> e \<in> set held);
          test = filter is_held data;
          train_val = filter (\<lambda>r. \<not> is_held r) data;
          (train, val, _) = generate_chronological_splits (8 / 10) (2 / 10) train_val
      in (train, val, test))"

text \<open>The self-test; \<^verbatim>\<open>max\<close> and \<^verbatim>\<open>min\<close> of an empty split raise.\<close>

definition splits_test :: "data_record list \<Rightarrow> unit result" where
  "splits_test data =
     (case generate_chronological_splits (7 / 10) (15 / 100) data of
        (train, val, test) \<Rightarrow>
          if train = [] \<or> val = [] \<or> test = [] then Inl ValueError
          else if \<not> Max (set (map record_ts train)) < Min (set (map record_ts val)) then Inl AssertionError
          else if \<not> Max (set (map record_ts val)) < Min (set (map record_ts test)) then Inl AssertionError
          else Inr ())"

definition dummy_data :: "data_record list" where
  "dummy_data = map (\<lambda>i. \<lparr>dr_timestamp = Some (1600000000 + real i),
     dr_fields = [(''id'', nat_str i), (''src_ip'', ''10.0.0.'' @ nat_str (i mod 5))]\<rparr>) [0..<100]"

definition run_dummy_test :: "unit result" where
  "run_dummy_test = splits_test dummy_data"

section \<open>The chronological split\<close>

lemma py_slice_take [simp]: "0 \<le> b \<Longrightarrow> py_slice 0 b xs = take (nat b) xs"
  by (simp add: py_slice_def slice_bound_def Let_def min_def)

lemma py_slice_mid:
  "0 \<le> a \<Longrightarrow> a \<le> b \<Longrightarrow> b \<le> int (length xs) \<Longrightarrow> py_slice a b xs = take (nat b - nat a) (drop (nat a) xs)"
  by (simp add: py_slice_def slice_bound_def Let_def min_def)

lemma py_int_mult:
  assumes "0 \<le> r"
  shows "0 \<le> py_int (real n * r)" "real_of_int (py_int (real n * r)) \<le> real n * r"
    "real n * r < real_of_int (py_int (real n * r)) + 1"
  using assms by (simp_all add: py_int_def mult_nonneg_nonneg del: of_int_floor_le)
    (use of_int_floor_le floor_correct in blast)+

text \<open>The cut points of the split.\<close>

lemma chronological_cuts:
  assumes "0 \<le> tr" and "0 \<le> vr" and "tr + vr \<le> 1"
  obtains i j where "int i = py_int (real (length data) * tr)" "int j = py_int (real (length data) * vr)"
    and "i + j \<le> length data"
    and "generate_chronological_splits tr vr data
      = (take i (sort_key record_ts data), take j (drop i (sort_key record_ts data)), drop (i + j) (sort_key record_ts data))"
proof -
  let ?n = "length data" and ?s = "sort_key record_ts data"
  let ?a = "py_int (real ?n * tr)" and ?b = "py_int (real ?n * vr)"
  note bd = py_int_mult [OF assms(1), of ?n] py_int_mult [OF assms(2), of ?n]
  have "real_of_int (?a + ?b) \<le> real ?n * (tr + vr)" using bd(2,5) by (simp add: algebra_simps)
  also have "\<dots> \<le> real ?n" using assms(3) by (simp add: mult_left_le)
  finally have le: "?a + ?b \<le> int ?n" by linarith
  show thesis
  proof (rule that [of "nat ?a" "nat ?b"])
    show "generate_chronological_splits tr vr data
        = (take (nat ?a) ?s, take (nat ?b) (drop (nat ?a) ?s), drop (nat ?a + nat ?b) ?s)"
      using bd(1,4) le
      by (simp add: generate_chronological_splits_def Let_def py_slice_mid nat_add_distrib)
  qed (use bd(1,4) le in auto)
qed

text \<open>
  The chronological split is a partition in time order: for ratios that are not negative
  and add up to at most 1, the three parts together are exactly the given records, the first
  holds the floor of its share and the second the floor of its own, and no record of a part
  is later than a record of a following part.
\<close>

theorem chronological_split_partitions:
  assumes "0 \<le> tr" and "0 \<le> vr" and "tr + vr \<le> 1"
    and "generate_chronological_splits tr vr data = (train, val, test)"
  shows "mset (train @ val @ test) = mset data
    \<and> sorted (map record_ts (train @ val @ test))
    \<and> length train = nat \<lfloor>real (length data) * tr\<rfloor> \<and> length val = nat \<lfloor>real (length data) * vr\<rfloor>
    \<and> (\<forall>x\<in>set train. \<forall>y\<in>set (val @ test). record_ts x \<le> record_ts y)
    \<and> (\<forall>x\<in>set val. \<forall>y\<in>set test. record_ts x \<le> record_ts y)"
proof -
  obtain i j where ij: "int i = py_int (real (length data) * tr)" "int j = py_int (real (length data) * vr)"
    and le: "i + j \<le> length data"
    and eq: "generate_chronological_splits tr vr data
      = (take i (sort_key record_ts data), take j (drop i (sort_key record_ts data)), drop (i + j) (sort_key record_ts data))"
    by (rule chronological_cuts [OF assms(1-3)])
  have parts: "train = take i (sort_key record_ts data)" "val = take j (drop i (sort_key record_ts data))"
    "test = drop (i + j) (sort_key record_ts data)"
    using assms(4) unfolding eq by simp_all
  have "train @ val @ test = sort_key record_ts data"
    unfolding parts by (simp add: add.commute [of i] flip: drop_drop)
  then have all: "mset (train @ val @ test) = mset data" "sorted (map record_ts (train @ val @ test))"
    by simp_all
  have "length train = i" "length val = j" using le by (simp_all add: parts)
  moreover have "i = nat \<lfloor>real (length data) * tr\<rfloor>" "j = nat \<lfloor>real (length data) * vr\<rfloor>"
    using ij assms(1,2) by (simp_all add: py_int_def)
  moreover have "\<forall>x\<in>set train. \<forall>y\<in>set (val @ test). record_ts x \<le> record_ts y"
    "\<forall>x\<in>set val. \<forall>y\<in>set test. record_ts x \<le> record_ts y"
    using all(2) by (auto simp: sorted_append)
  ultimately show ?thesis using all by simp
qed

theorem chronological_split_partitions_witness:
  "\<exists>train val test. generate_chronological_splits (7 / 10) (15 / 100) dummy_data = (train, val, test)
     \<and> length train = 70 \<and> length val = 15 \<and> mset (train @ val @ test) = mset dummy_data"
proof -
  obtain train val test where e: "generate_chronological_splits (7 / 10) (15 / 100) dummy_data = (train, val, test)"
    by (rule prod_cases3)
  from chronological_split_partitions [OF _ _ _ e] e show ?thesis
    by (intro exI [of _ train] exI [of _ val] exI [of _ test]) (simp add: dummy_data_def)
qed

section \<open>The entity holdout\<close>

lemma floor_shares:
  "nat (py_int (real n * (8 / 10))) + nat (py_int (real n * (2 / 10))) = (if 5 dvd n then n else n - 1)"
proof -
  obtain q r where n: "n = 5 * q + r" and r: "r < 5"
    by (metis mult_div_mod_eq mod_less_divisor zero_less_numeral)
  have "r = 0 \<or> r = 1 \<or> r = 2 \<or> r = 3 \<or> r = 4" using r by linarith
  moreover have "\<lfloor>real n * (8 / 10)\<rfloor> = 4 * int q + \<lfloor>real r * (8 / 10)\<rfloor>"
    "\<lfloor>real n * (2 / 10)\<rfloor> = int q + \<lfloor>real r * (2 / 10)\<rfloor>"
    by (simp_all add: n algebra_simps floor_eq_iff)
  moreover have "5 dvd n \<longleftrightarrow> r = 0" using r by (auto simp: n dvd_add_right_iff)
  ultimately show ?thesis by (auto simp: py_int_def n)
qed

text \<open>
  The entity holdout keeps held-out entities out of training: for any arrangement of the
  distinct entities, the test part consists of exactly the records of the held-out entities,
  in the given order, and neither training nor validation has a record of one of them. The
  other records are split 80:20 in time order, but when their number is not a multiple of
  five, both shares are rounded down and the latest of them is in no part at all.
\<close>

theorem entity_holdout_disjoint_but_lossy:
  assumes "generate_entity_holdout_splits shuffled key ratio data = (train, val, test)"
    and "mset (shuffled (entities key data)) = mset (remdups (entities key data))"
    and "held = set (holdout_entities ratio (shuffled (entities key data)))"
    and "rest = filter (\<lambda>r. \<not> (\<exists>e\<in>held. entity_of key r = Some e)) data"
  shows "test = filter (\<lambda>r. \<exists>e\<in>held. entity_of key r = Some e) data
    \<and> (entities key data \<noteq> [] \<longrightarrow> held \<noteq> {} \<and> test \<noteq> [])
    \<and> (\<forall>r\<in>set (train @ val). \<forall>e\<in>held. entity_of key r \<noteq> Some e)
    \<and> train @ val = take (if 5 dvd length rest then length rest else length rest - 1) (sort_key record_ts rest)"
proof -
  let ?is = "\<lambda>r. \<exists>e\<in>held. entity_of key r = Some e"
  have is_held: "(case entity_of key r of None \<Rightarrow> False
      | Some e \<Rightarrow> e \<in> set (holdout_entities ratio (shuffled (entities key data)))) \<longleftrightarrow> ?is r" for r
    by (auto simp: assms(3) split: option.splits)
  obtain i j where ij: "int i = py_int (real (length rest) * (8 / 10))" "int j = py_int (real (length rest) * (2 / 10))"
    and eq: "generate_chronological_splits (8 / 10) (2 / 10) rest
      = (take i (sort_key record_ts rest), take j (drop i (sort_key record_ts rest)), drop (i + j) (sort_key record_ts rest))"
    by (rule chronological_cuts [of "8 / 10" "2 / 10" rest]) simp_all
  have parts: "train = take i (sort_key record_ts rest)" "val = take j (drop i (sort_key record_ts rest))"
    "test = filter ?is data"
    using assms(1) unfolding generate_entity_holdout_splits_def Let_def is_held assms(4) [symmetric] eq by simp_all
  have tv: "train @ val = take (i + j) (sort_key record_ts rest)" by (simp add: parts take_add)
  have "i + j = (if 5 dvd length rest then length rest else length rest - 1)"
    using floor_shares [of "length rest"] ij by (simp add: nat_int flip: ij)
  moreover have "\<forall>r\<in>set (train @ val). \<forall>e\<in>held. entity_of key r \<noteq> Some e"
    unfolding tv using set_take_subset [of "i + j" "sort_key record_ts rest"] by (auto simp: assms(4))
  moreover have "held \<noteq> {} \<and> test \<noteq> []" if "entities key data \<noteq> []"
  proof -
    let ?es = "shuffled (entities key data)"
    have "?es \<noteq> []" and sub: "set ?es = set (entities key data)"
      using that mset_eq_setD [OF assms(2)] by auto
    then obtain e es' where es: "?es = e # es'" by (cases ?es) auto
    obtain m where "nat (max 1 (py_int (real (length ?es) * ratio))) = Suc m"
      by (metis Suc_pred' max.cobounded1 nat_0_iff not_gr_zero zero_less_nat_eq zero_less_one order_less_le_trans)
    then have e: "e \<in> held" by (simp add: assms(3) holdout_entities_def es)
    have "e \<in> set (entities key data)" using sub es by auto
    then obtain r where "r \<in> set data" "entity_of key r = Some e" by (auto simp: entities_def)
    with e show ?thesis by (auto simp: parts filter_empty_conv)
  qed
  ultimately show ?thesis using tv parts(3) by simp
qed

definition sample_record :: "real \<Rightarrow> string \<Rightarrow> data_record" where
  "sample_record t ip = \<lparr>dr_timestamp = Some t, dr_fields = [(''src_ip'', ip)]\<rparr>"

theorem entity_holdout_disjoint_but_lossy_witness:
  "\<exists>train val test. generate_entity_holdout_splits remdups ''src_ip'' (2 / 10)
       [sample_record 1 ''a'', sample_record 2 ''b'', sample_record 3 ''b''] = (train, val, test)
     \<and> test = [sample_record 1 ''a''] \<and> length (train @ val) = 1"
proof -
  let ?data = "[sample_record 1 ''a'', sample_record 2 ''b'', sample_record 3 ''b'']"
  obtain train val test
    where e: "generate_entity_holdout_splits remdups ''src_ip'' (2 / 10) ?data = (train, val, test)"
    by (rule prod_cases3)
  have held: "set (holdout_entities (2 / 10) (remdups (entities ''src_ip'' ?data))) = {''a''}"
    by (simp add: holdout_entities_def entities_def entity_of_def sample_record_def py_int_def floor_eq_iff)
  have perm: "mset (remdups (entities ''src_ip'' ?data)) = mset (remdups (entities ''src_ip'' ?data))" ..
  have rest: "filter (\<lambda>r. \<not> (\<exists>e\<in>{''a''}. entity_of ''src_ip'' r = Some e)) ?data = [sample_record 2 ''b'', sample_record 3 ''b'']"
    and test: "filter (\<lambda>r. \<exists>e\<in>{''a''}. entity_of ''src_ip'' r = Some e) ?data = [sample_record 1 ''a'']"
    by (simp_all add: entity_of_def sample_record_def)
  note f = entity_holdout_disjoint_but_lossy [OF e perm held [symmetric] refl, unfolded rest test]
  have "test = [sample_record 1 ''a'']" using f by (elim conjE)
  moreover have "length (train @ val) = 1" proof -
    have "train @ val = take (if 5 dvd length [sample_record 2 ''b'', sample_record 3 ''b'']
        then length [sample_record 2 ''b'', sample_record 3 ''b'']
        else length [sample_record 2 ''b'', sample_record 3 ''b''] - 1)
        (sort_key record_ts [sample_record 2 ''b'', sample_record 3 ''b''])"
      using f by (elim conjE)
    moreover have "\<not> 5 dvd Suc (Suc 0)" by presburger
    ultimately show ?thesis by (simp del: append_eq_append_conv)
  qed
  ultimately show ?thesis using e by (intro exI conjI)
qed

text \<open>The self-test passes on its data, as it must on any records with distinct timestamps.\<close>

lemma strict_below:
  fixes f :: "'a \<Rightarrow> real"
  assumes "sorted (map f (xs @ ys))" and "distinct (map f (xs @ ys))" and "xs \<noteq> []" and "ys \<noteq> []"
  shows "Max (set (map f xs)) < Min (set (map f ys))"
proof -
  have "a < b" if "a \<in> set (map f xs)" "b \<in> set (map f ys)" for a b
  proof -
    have "a \<le> b" using that assms(1) by (auto simp: sorted_append)
    moreover have "a \<noteq> b" using that assms(2) by auto
    ultimately show ?thesis by simp
  qed
  then show ?thesis using assms(3,4) by (subst Max_less_iff) (auto simp: Min_gr_iff)
qed

lemma splits_test_passes:
  assumes "distinct (map record_ts data)" and "7 \<le> length data"
  shows "splits_test data = Inr ()"
proof -
  obtain i j where ij: "int i = py_int (real (length data) * (7 / 10))" "int j = py_int (real (length data) * (15 / 100))"
    and le: "i + j \<le> length data"
    and eq: "generate_chronological_splits (7 / 10) (15 / 100) data
      = (take i (sort_key record_ts data), take j (drop i (sort_key record_ts data)), drop (i + j) (sort_key record_ts data))"
    by (rule chronological_cuts [of "7 / 10" "15 / 100" data]) simp_all
  define s where "s = sort_key record_ts data"
  have n: "7 \<le> real (length data)" using assms(2) by simp
  have pos: "0 < i" "0 < j" "i + j < length data"
    using ij n by (auto simp: py_int_def) linarith+
  have s: "sorted (map record_ts s)" "distinct (map record_ts s)" "length s = length data"
    using assms(1) by (simp_all add: s_def distinct_map)
  have split: "s = take i s @ take j (drop i s) @ drop (i + j) s" "s = (take i s @ take j (drop i s)) @ drop (i + j) s"
    by (simp_all add: add.commute [of i] flip: drop_drop)
  have ne: "take i s \<noteq> []" "take j (drop i s) \<noteq> []" "drop (i + j) s \<noteq> []" using pos s(3) by auto
  have 1: "sorted (map record_ts (take i s @ take j (drop i s)))" "distinct (map record_ts (take i s @ take j (drop i s)))"
    using s(1,2) split(2) by (metis map_append sorted_append, metis map_append distinct_append)
  have 2: "sorted (map record_ts (take j (drop i s) @ drop (i + j) s))"
    "distinct (map record_ts (take j (drop i s) @ drop (i + j) s))"
    using s(1,2) split(1) by (metis map_append sorted_append, metis map_append distinct_append)
  show ?thesis
    using strict_below [OF 1 ne(1,2)] strict_below [OF 2 ne(2,3)] ne
    unfolding splits_test_def eq s_def [symmetric] by simp
qed

lemma run_dummy_test_passes: "run_dummy_test = Inr ()"
  unfolding run_dummy_test_def
  by (rule splits_test_passes) (simp_all add: dummy_data_def record_ts_def comp_def distinct_map inj_on_def)

end
