(* ===== verification/Replay.thy ===== *)
theory Replay
  imports Alerts PyText
begin

text \<open>
  The dataset replay of \<^verbatim>\<open>datasource/base.py\<close> and \<^verbatim>\<open>datasource/dataset_replay.py\<close>: loading of
  labelled flow records from CSV rows and JSON sidecars, the scenario mix, the synthetic
  fallback, the replay thread and the reads. Records are objects that the record list and the
  alert queue share and the replay thread mutates, so they live in an explicit heap and lists
  hold their addresses. Random numbers, the clock and fresh ids are parameters; parsed files
  are arguments.
\<close>

section \<open>Flow records\<close>

record flow_record =
  fr_timestamp :: real
  fr_src_ip :: string
  fr_dst_ip :: string
  fr_src_port :: int
  fr_dst_port :: int
  fr_protocol :: string
  fr_family :: string
  fr_severity :: severity
  fr_confidence :: real
  fr_generator :: string
  fr_features :: jval
  fr_explanation :: string
  fr_pkt_count :: int
  fr_byte_count :: int
  fr_duration :: real

definition detector_map :: "(string, string) dict" where
  "detector_map =
     [(''SYN_FLOOD'', ''ddos''), (''UDP_FLOOD'', ''ddos''), (''UDP_AMPLIFICATION'', ''ddos''),
      (''SLOWLORIS'', ''ddos''), (''DNS_TUNNEL'', ''dns_exfil''), (''DNS_EXFIL'', ''dns_exfil''),
      (''DGA'', ''dga''), (''C2_BEACON'', ''beaconing''), (''PORT_SCAN'', ''recon''),
      (''RECON'', ''recon''), (''EXFIL'', ''exfil''), (''BENIGN'', ''benign'')]"

definition threat_class_map :: "(string, string) dict" where
  "threat_class_map =
     [(''SYN_FLOOD'', ''SYN Flood''), (''UDP_FLOOD'', ''UDP Flood''), (''UDP_AMPLIFICATION'', ''UDP Amplification''),
      (''SLOWLORIS'', ''Slow HTTP Exhaustion''), (''DNS_TUNNEL'', ''DNS Tunneling''),
      (''DNS_EXFIL'', ''DNS Exfiltration''), (''DGA'', ''DGA Beaconing''), (''C2_BEACON'', ''C2 Beaconing''),
      (''PORT_SCAN'', ''Port Scan''), (''RECON'', ''Reconnaissance''), (''EXFIL'', ''Data Exfiltration''),
      (''BENIGN'', ''Benign'')]"

record alert_dict =
  ad_id :: string
  ad_timestamp :: real
  ad_detector :: string
  ad_threat_class :: string
  ad_severity :: severity
  ad_confidence :: real
  ad_flow :: flow_id
  ad_features :: jobj
  ad_explanation :: string
  ad_generator :: string

text \<open>\<open>i\<close> is the fresh id; features that are not a mapping raise.\<close>

definition to_alert_dict :: "string \<Rightarrow> flow_record \<Rightarrow> alert_dict result" where
  "to_alert_dict i r =
     bind_result (jobject (fr_features r)) (\<lambda>feats.
       let family = upper (fr_family r)
       in Inr \<lparr>ad_id = i, ad_timestamp = fr_timestamp r,
               ad_detector = dict_get detector_map family ''unknown'',
               ad_threat_class = dict_get threat_class_map family (fr_family r),
               ad_severity = fr_severity r, ad_confidence = fr_confidence r,
               ad_flow = \<lparr>fid_src_ip = fr_src_ip r, fid_dst_ip = fr_dst_ip r,
                          fid_src_port = Some (fr_src_port r), fid_dst_port = Some (fr_dst_port r),
                          fid_protocol = fr_protocol r\<rparr>,
               ad_features = dict_update feats
                 [(''pkt_count'', JNum (of_int (fr_pkt_count r))), (''byte_count'', JNum (of_int (fr_byte_count r))),
                  (''duration_s'', JNum (py_round (fr_duration r) 3))],
               ad_explanation = (if fr_explanation r \<noteq> [] then fr_explanation r
                 else ''Dataset replay: '' @ fr_family r @ '' detected by '' @ fr_generator r),
               ad_generator = fr_generator r\<rparr>)"

section \<open>Tables\<close>

definition replay_severity_map :: "(string, severity) dict" where
  "replay_severity_map =
     [(''BENIGN'', LOW), (''SYN_FLOOD'', CRITICAL), (''UDP_FLOOD'', HIGH), (''UDP_AMPLIFICATION'', CRITICAL),
      (''SLOWLORIS'', HIGH), (''DNS_TUNNEL'', CRITICAL), (''DNS_EXFIL'', HIGH), (''DGA'', HIGH),
      (''C2_BEACON'', CRITICAL), (''PORT_SCAN'', MEDIUM), (''RECON'', MEDIUM), (''EXFIL'', HIGH)]"

definition confidence_map :: "(string, real) dict" where
  "confidence_map =
     [(''BENIGN'', 10 / 100), (''SYN_FLOOD'', 97 / 100), (''UDP_FLOOD'', 93 / 100), (''UDP_AMPLIFICATION'', 98 / 100),
      (''SLOWLORIS'', 88 / 100), (''DNS_TUNNEL'', 95 / 100), (''DNS_EXFIL'', 91 / 100), (''DGA'', 87 / 100),
      (''C2_BEACON'', 94 / 100), (''PORT_SCAN'', 82 / 100), (''RECON'', 79 / 100), (''EXFIL'', 86 / 100)]"

definition SCENARIO_WEIGHTS :: "(string, (string, real) dict) dict" where
  "SCENARIO_WEIGHTS =
     [(''random'', []),
      (''massive_ddos'', [(''SYN_FLOOD'', 45 / 100), (''UDP_AMPLIFICATION'', 30 / 100), (''BENIGN'', 25 / 100)]),
      (''stealth_c2_exfil'',
        [(''C2_BEACON'', 35 / 100), (''DNS_TUNNEL'', 30 / 100), (''EXFIL'', 15 / 100), (''BENIGN'', 20 / 100)]),
      (''recon_storm'', [(''PORT_SCAN'', 55 / 100), (''RECON'', 30 / 100), (''BENIGN'', 15 / 100)]),
      (''quiet_hours'', [(''BENIGN'', 90 / 100), (''PORT_SCAN'', 5 / 100), (''C2_BEACON'', 5 / 100)]),
      (''coordinated_campaign'',
        [(''SYN_FLOOD'', 25 / 100), (''C2_BEACON'', 20 / 100), (''DNS_TUNNEL'', 15 / 100), (''PORT_SCAN'', 20 / 100),
         (''BENIGN'', 20 / 100)])]"

section \<open>Loading\<close>

text \<open>A CSV row as \<^verbatim>\<open>csv.DictReader\<close> yields it: a column missing at the end of a short row is
  \<open>None\<close>, and as a text field it is kept by its rendering.\<close>

type_synonym csv_row = "(string, string option) dict"

definition try_float :: "string option \<Rightarrow> jval" where
  "try_float v = (case v of None \<Rightarrow> JNull
     | Some s \<Rightarrow> (case float_text s of Inr x \<Rightarrow> JNum x | Inl _ \<Rightarrow> JStr s))"

definition csv_float :: "csv_row \<Rightarrow> string \<Rightarrow> real \<Rightarrow> real result" where
  "csv_float row k d = (case map_of row k of None \<Rightarrow> Inr d | Some None \<Rightarrow> Inl TypeError | Some (Some s) \<Rightarrow> float_text s)"

definition csv_int :: "csv_row \<Rightarrow> string \<Rightarrow> int result" where
  "csv_int row k = bind_result (csv_float row k 0) (\<lambda>x. Inr (py_int x))"

definition csv_str :: "csv_row \<Rightarrow> string \<Rightarrow> string \<Rightarrow> string" where
  "csv_str row k d = (case map_of row k of None \<Rightarrow> d | Some None \<Rightarrow> ''None'' | Some (Some s) \<Rightarrow> s)"

definition csv_family :: "csv_row \<Rightarrow> string result" where
  "csv_family row = (case map_of row ''attack_family'' of
       None \<Rightarrow> Inr ''BENIGN'' | Some None \<Rightarrow> Inl TypeError
     | Some (Some s) \<Rightarrow> Inr (spaces_to_underscores (upper s)))"

definition csv_record :: "real \<Rightarrow> string \<Rightarrow> csv_row \<Rightarrow> flow_record result" where
  "csv_record now file row =
     bind_result (csv_family row) (\<lambda>family.
     bind_result (csv_float row ''timestamp'' now) (\<lambda>ts.
     bind_result (csv_int row ''src_port'') (\<lambda>sp.
     bind_result (csv_int row ''dst_port'') (\<lambda>dp.
     bind_result (csv_int row ''pkt_count'') (\<lambda>pc.
     bind_result (csv_int row ''byte_count'') (\<lambda>bc.
     bind_result (csv_float row ''duration_s'' 0) (\<lambda>du.
       Inr \<lparr>fr_timestamp = ts, fr_src_ip = csv_str row ''src_ip'' ''0.0.0.0'',
            fr_dst_ip = csv_str row ''dst_ip'' ''0.0.0.0'', fr_src_port = sp, fr_dst_port = dp,
            fr_protocol = csv_str row ''protocol'' ''TCP'', fr_family = family,
            fr_severity = dict_get replay_severity_map family LOW,
            fr_confidence = dict_get confidence_map family (75 / 100),
            fr_generator = csv_str row ''generator'' ''nfstream'',
            fr_features = JObj (map (\<lambda>(k, v). (k, try_float v))
              (filter (\<lambda>(k, v). k \<notin> set [''timestamp'', ''src_ip'', ''dst_ip'', ''src_port'', ''dst_port'', ''protocol'',
                 ''attack_family'', ''severity'', ''generator'']) row)),
            fr_explanation = ''Dataset replay ['' @ file @ '']: '' @ family,
            fr_pkt_count = pc, fr_byte_count = bc, fr_duration = du\<rparr>)))))))"

text \<open>An exception ends the file; the records loaded before it are kept. \<open>None\<close> is a file that cannot be read.\<close>

fun load_rows :: "('a \<Rightarrow> 'r option result) \<Rightarrow> 'a list \<Rightarrow> 'r list" where
  "load_rows f [] = []"
| "load_rows f (x # xs) =
     (case f x of Inl _ \<Rightarrow> [] | Inr None \<Rightarrow> load_rows f xs | Inr (Some r) \<Rightarrow> r # load_rows f xs)"

definition load_csv :: "real \<Rightarrow> string \<Rightarrow> csv_row list option \<Rightarrow> flow_record list" where
  "load_csv now file rows =
     (case rows of None \<Rightarrow> []
      | Some rs \<Rightarrow> load_rows (\<lambda>row. bind_result (csv_record now file row) (\<lambda>r. Inr (Some r))) rs)"

definition jget :: "jobj \<Rightarrow> string \<Rightarrow> jval \<Rightarrow> jval" where
  "jget d k v = dict_get d k v"

text \<open>
  One JSON label entry; \<open>None\<close> for a benign one, which is skipped. A text field of another type
  is kept by its rendering.
\<close>

definition json_record :: "(jval \<Rightarrow> string) \<Rightarrow> real \<Rightarrow> string \<Rightarrow> jval \<Rightarrow> flow_record option result" where
  "json_record render now file v =
     bind_result (jobject v) (\<lambda>entry.
       let family = spaces_to_underscores (upper (jstr render
             (jget entry ''attack_family'' (jget entry ''label'' (JStr ''BENIGN'')))))
       in if family = ''BENIGN'' then Inr None
          else
            bind_result (jfloat (jget entry ''timestamp'' (JNum now))) (\<lambda>ts.
            bind_result (jobject (jget entry ''flow'' (JObj []))) (\<lambda>flow.
              let text = (\<lambda>k d. jstr render (jget flow k (jget entry k (JStr d))))
              in
              bind_result (jint (jget flow ''src_port'' (jget entry ''src_port'' (JNum 0)))) (\<lambda>sp.
              bind_result (jint (jget flow ''dst_port'' (jget entry ''dst_port'' (JNum 0)))) (\<lambda>dp.
              bind_result (jfloat (jget entry ''confidence'' (JNum (dict_get confidence_map family (80 / 100))))) (\<lambda>conf.
              bind_result (jint (jget entry ''pkt_count'' (JNum 1))) (\<lambda>pc.
              bind_result (jint (jget entry ''byte_count'' (JNum (real (length (render v)))))) (\<lambda>bc.
              bind_result (jfloat (jget entry ''duration_s'' (JNum (1 / 1000)))) (\<lambda>du.
                Inr (Some \<lparr>fr_timestamp = ts, fr_src_ip = text ''src_ip'' ''0.0.0.0'',
                     fr_dst_ip = text ''dst_ip'' ''0.0.0.0'', fr_src_port = sp, fr_dst_port = dp,
                     fr_protocol = text ''protocol'' ''TCP'', fr_family = family,
                     fr_severity = dict_get replay_severity_map family MEDIUM, fr_confidence = conf,
                     fr_generator = jstr render (jget entry ''generator'' (JStr ''dataset'')),
                     fr_features = jget entry ''features'' (JObj []),
                     fr_explanation = jstr render (jget entry ''explanation''
                       (JStr (''Dataset replay ['' @ file @ '']: '' @ family))),
                     fr_pkt_count = pc, fr_byte_count = bc, fr_duration = du\<rparr>)))))))))) "

text \<open>The entries of a sidecar: a list, or the list under \<^verbatim>\<open>labels\<close> or \<^verbatim>\<open>packets\<close> of an object.\<close>

definition label_entries :: "jval \<Rightarrow> jval list result" where
  "label_entries raw =
     (case (case raw of JObj d \<Rightarrow> jget d ''labels'' (jget d ''packets'' (JArr [])) | _ \<Rightarrow> raw) of
        JArr xs \<Rightarrow> Inr xs | JObj d \<Rightarrow> Inr (map (\<lambda>(k, v). JStr k) d) | JStr s \<Rightarrow> Inr (map (\<lambda>c. JStr [c]) s)
      | _ \<Rightarrow> Inl TypeError)"

definition load_json_labels :: "(jval \<Rightarrow> string) \<Rightarrow> real \<Rightarrow> string \<Rightarrow> jval option \<Rightarrow> flow_record list" where
  "load_json_labels render now file raw =
     (case raw of None \<Rightarrow> []
      | Some v \<Rightarrow> (case label_entries v of Inl _ \<Rightarrow> [] | Inr es \<Rightarrow> load_rows (json_record render now file) es))"

definition load_records ::
    "(jval \<Rightarrow> string) \<Rightarrow> real \<Rightarrow> (string \<times> csv_row list option) list \<Rightarrow> (string \<times> jval option) list \<Rightarrow> flow_record list" where
  "load_records render now csvs jsons =
     concat (map (\<lambda>(file, rows). load_csv now file rows) csvs)
     @ concat (map (\<lambda>(file, raw). load_json_labels render now file raw) jsons)"

section \<open>The scenario mix\<close>

type_synonym heap = "flow_record list"

definition family_of :: "heap \<Rightarrow> nat \<Rightarrow> string" where
  "family_of h a = upper (fr_family (h ! a))"

definition group_families :: "heap \<Rightarrow> nat list \<Rightarrow> (string, nat list) dict" where
  "group_families h addrs =
     foldl (\<lambda>d a. dict_set (family_of h a) (dict_get d (family_of h a) [] @ [a]) d) [] addrs"

text \<open>\<^verbatim>\<open>while len(sampled) < target: sampled.extend(pool)\<close>, which an empty pool would never leave.\<close>

partial_function (option) fill_pool :: "'a list \<Rightarrow> int \<Rightarrow> 'a list \<Rightarrow> 'a list option" where
  "fill_pool pool target sampled =
     (if int (length sampled) < target then fill_pool pool target (sampled @ pool) else Some sampled)"

definition draw :: "'a list \<Rightarrow> int \<Rightarrow> 'a list option" where
  "draw pool target = map_option (take (nat target)) (fill_pool pool target [])"

fun draw_listed :: "(string, nat list) dict \<Rightarrow> nat \<Rightarrow> (string, real) dict \<Rightarrow> nat list \<Rightarrow> nat list option" where
  "draw_listed groups n_total [] res = Some res"
| "draw_listed groups n_total ((family, w) # ws) res =
     (let target = py_int (real n_total * w); pool = dict_get groups family []
      in if pool = [] then draw_listed groups n_total ws res
         else (case draw pool target of None \<Rightarrow> None
               | Some picked \<Rightarrow> draw_listed groups n_total ws (res @ picked)))"

fun draw_unlisted :: "(string, nat list) dict \<Rightarrow> int \<Rightarrow> string list \<Rightarrow> nat list \<Rightarrow> nat list option" where
  "draw_unlisted groups per [] res = Some res"
| "draw_unlisted groups per (f # fs) res =
     (case draw (dict_get groups f []) per of None \<Rightarrow> None
      | Some picked \<Rightarrow> draw_unlisted groups per fs (res @ picked))"

definition filter_by_scenario :: "(nat list \<Rightarrow> nat list) \<Rightarrow> heap \<Rightarrow> string \<Rightarrow> nat list \<Rightarrow> nat list option" where
  "filter_by_scenario shuffle h scenario addrs =
     (let weights = dict_get SCENARIO_WEIGHTS scenario []
      in if weights = [] then Some addrs
         else
           (let groups = group_families h addrs; n_total = length addrs
            in case draw_listed groups n_total weights [] of None \<Rightarrow> None
               | Some res \<Rightarrow>
                   (let unlisted = filter (\<lambda>f. f \<notin> set (map fst weights)) (map fst groups);
                        per = (if unlisted = [] then 0 else max 0 (int n_total - int (length res)) div int (length unlisted))
                    in case draw_unlisted groups per unlisted res of None \<Rightarrow> None
                       | Some res \<Rightarrow> Some (let res = shuffle res in if res = [] then addrs else res))))"

section \<open>The synthetic fallback\<close>

text \<open>\<open>u k\<close> is the \<open>k\<close>-th uniform number in [0, 1] drawn for a record.\<close>

definition uniform :: "real \<Rightarrow> real \<Rightarrow> real \<Rightarrow> real" where
  "uniform a b x = a + (b - a) * x"

definition randint :: "int \<Rightarrow> int \<Rightarrow> real \<Rightarrow> int" where
  "randint a b x = min b (a + \<lfloor>of_int (b - a + 1) * x\<rfloor>)"

definition fake_features :: "(nat \<Rightarrow> real) \<Rightarrow> string \<Rightarrow> jobj" where
  "fake_features u family =
     (if str_contains ''SYN'' family then
        [(''syn_synack_ratio'', JNum (uniform 10 50 (u 0))), (''dst_pkt_ewma'', JNum (uniform 800 3000 (u 1))),
         (''src_ip_entropy'', JNum (uniform (35 / 10) 5 (u 2)))]
      else if str_contains ''UDP'' family then
        [(''amp_byte_ratio'', JNum (uniform 10 80 (u 0))), (''dst_pkt_ewma'', JNum (uniform 500 2000 (u 1)))]
      else if str_contains ''C2'' family \<or> str_contains ''BEACON'' family then
        [(''iat_cv'', JNum (uniform (2 / 100) (1 / 10) (u 0))), (''mean_iat'', JNum (uniform 25 60 (u 1)))]
      else if str_contains ''DNS'' family \<or> str_contains ''TUNNEL'' family then
        [(''txt_cname_avg_entropy'', JNum (uniform (45 / 10) (55 / 10) (u 0))),
         (''txt_cname_avg_len'', JNum (uniform 40 80 (u 1))), (''txt_cname_rate'', JNum (uniform 5 30 (u 2)))]
      else if str_contains ''PORT'' family \<or> str_contains ''RECON'' family then
        [(''syn_only_ratio'', JNum (uniform (85 / 100) 1 (u 0))), (''scan_activity_score'', JNum (uniform 50 300 (u 1)))]
      else if str_contains ''EXFIL'' family then
        [(''outbound_inbound_ratio'', JNum (uniform 10 50 (u 0))),
         (''outbound_bytes_ewma'', JNum (uniform 5000 50000 (u 1)))]
      else [(''pkt_rate'', JNum (uniform 10 200 (u 0)))])"

definition fallback_record :: "real \<Rightarrow> string \<Rightarrow> string \<Rightarrow> (nat \<Rightarrow> real) \<Rightarrow> nat \<Rightarrow> flow_record" where
  "fallback_record t scenario family u i =
     (let src = ''10.'' @ int_str (randint 0 255 (u 0)) @ ''.'' @ int_str (randint 0 255 (u 1)) @ ''.''
                  @ int_str (randint 1 254 (u 2));
          dst = ''192.168.'' @ int_str (randint 0 10 (u 3)) @ ''.'' @ int_str (randint 1 254 (u 4));
          proto = (if str_contains ''DNS'' family \<or> str_contains ''UDP'' family then ''UDP'' else ''TCP'');
          dport = (if str_contains ''DNS'' family then 53
                   else if str_contains ''HTTP'' family \<or> family = ''BENIGN'' then 80
                   else if str_contains ''C2'' family \<or> str_contains ''BEACON'' family then 443
                   else randint 1024 65535 (u 5))
      in \<lparr>fr_timestamp = t + real i * (5 / 100) + uniform 0 (2 / 100) (u 6), fr_src_ip = src, fr_dst_ip = dst,
          fr_src_port = randint 1024 65535 (u 7), fr_dst_port = dport, fr_protocol = proto, fr_family = family,
          fr_severity = dict_get replay_severity_map family LOW,
          fr_confidence = dict_get confidence_map family (75 / 100) + uniform (- 5 / 100) (5 / 100) (u 8),
          fr_generator = ''synthetic_fallback'', fr_features = JObj (fake_features (\<lambda>k. u (12 + k)) family),
          fr_explanation = ''Synthetic fallback ['' @ scenario @ '']: '' @ family,
          fr_pkt_count = randint 1 500 (u 9), fr_byte_count = randint 64 65000 (u 10),
          fr_duration = py_round (uniform (1 / 1000) 30 (u 11)) 3\<rparr>)"

definition fallback_weights :: "(string, real) dict" where
  "fallback_weights = [(''SYN_FLOOD'', 15 / 100), (''UDP_AMPLIFICATION'', 10 / 100), (''C2_BEACON'', 15 / 100),
     (''DNS_TUNNEL'', 15 / 100), (''PORT_SCAN'', 20 / 100), (''BENIGN'', 25 / 100)]"

definition synthesize_fallback_records ::
    "(flow_record list \<Rightarrow> flow_record list) \<Rightarrow> (string \<Rightarrow> nat \<Rightarrow> nat \<Rightarrow> real) \<Rightarrow> real \<Rightarrow> string \<Rightarrow> nat \<Rightarrow> flow_record list" where
  "synthesize_fallback_records shuffle rng t scenario how_many =
     shuffle (concat (map (\<lambda>(family, w).
         map (\<lambda>i. fallback_record t scenario family (rng family i) i) [0..<nat (max 1 (py_int (real how_many * w)))])
       (dict_get SCENARIO_WEIGHTS scenario fallback_weights)))"

section \<open>The replay thread\<close>

record replay =
  rp_heap :: heap
  rp_queue :: "nat list"
  rp_max_queue :: int
  rp_speed :: real
  rp_stop :: bool
  rp_running :: bool
  rp_pkts :: int
  rp_bytes :: int
  rp_flows :: "(string \<times> string \<times> int) list"
  rp_telem_t0 :: real
  rp_scenario :: string
  rp_issued :: nat

definition replay_init :: "real \<Rightarrow> int \<Rightarrow> real \<Rightarrow> replay" where
  "replay_init speed_factor max_queue now =
     \<lparr>rp_heap = [], rp_queue = [], rp_max_queue = max_queue, rp_speed = max (1 / 100) speed_factor,
      rp_stop = False, rp_running = False, rp_pkts = 0, rp_bytes = 0, rp_flows = [], rp_telem_t0 = now,
      rp_scenario = ''random'', rp_issued = 0\<rparr>"

text \<open>A thread that is asked to stop does so within its join timeout here.\<close>

definition replay_stop :: "replay \<Rightarrow> replay" where
  "replay_stop s = s\<lparr>rp_stop := True, rp_running := False, rp_queue := []\<rparr>"

definition replay_start :: "string \<Rightarrow> replay \<Rightarrow> replay" where
  "replay_start scenario s = (replay_stop s)\<lparr>rp_stop := False, rp_scenario := scenario, rp_running := True\<rparr>"

definition put_alert :: "replay \<Rightarrow> nat \<Rightarrow> replay" where
  "put_alert s a =
     (if 0 < rp_max_queue s \<and> rp_max_queue s \<le> int (length (rp_queue s)) then s
      else s\<lparr>rp_queue := rp_queue s @ [a]\<rparr>)"

definition remap :: "real \<Rightarrow> real \<Rightarrow> real \<Rightarrow> real \<Rightarrow> real" where
  "remap speed ref wall t = wall + (t - ref) / speed"

definition replay_one :: "real \<Rightarrow> real \<Rightarrow> replay \<Rightarrow> nat \<Rightarrow> replay" where
  "replay_one ref wall s a =
     (let r = rp_heap s ! a;
          r = r\<lparr>fr_timestamp := remap (rp_speed s) ref wall (fr_timestamp r)\<rparr>;
          s = s\<lparr>rp_heap := (rp_heap s)[a := r],
                 rp_pkts := rp_pkts s + (if fr_pkt_count r \<noteq> 0 then fr_pkt_count r else 1),
                 rp_bytes := rp_bytes s + (if fr_byte_count r \<noteq> 0 then fr_byte_count r else 256),
                 rp_flows := List.insert (fr_src_ip r, fr_dst_ip r, fr_dst_port r) (rp_flows s)\<rparr>
      in put_alert s a)"

definition replay_lap :: "real \<Rightarrow> real \<Rightarrow> nat list \<Rightarrow> replay \<Rightarrow> replay" where
  "replay_lap ref wall addrs s = foldl (replay_one ref wall) s addrs"

text \<open>
  The endless loop up to its stop: one wall-clock start per lap, the last of which ends after
  \<open>k\<close> records. Reading the first record of an empty list raises, which ends the thread.
\<close>

fun replay_laps :: "nat list \<Rightarrow> real list \<Rightarrow> nat \<Rightarrow> real \<Rightarrow> replay \<Rightarrow> replay result" where
  "replay_laps addrs [] k ref s = Inr s"
| "replay_laps addrs [wall] k ref s = Inr (replay_lap ref wall (take k addrs) s)"
| "replay_laps addrs (wall # walls) k ref s =
     (let s = replay_lap ref wall addrs s
      in if addrs = [] then Inl IndexError
         else replay_laps addrs walls k (fr_timestamp (rp_heap s ! hd addrs)) (s\<lparr>rp_telem_t0 := hd walls\<rparr>))"

definition replay_reset :: "real \<Rightarrow> replay \<Rightarrow> replay" where
  "replay_reset now s = s\<lparr>rp_pkts := 0, rp_bytes := 0, rp_flows := [], rp_telem_t0 := now\<rparr>"

definition replay_thread ::
    "(nat list \<Rightarrow> nat list) \<Rightarrow> (flow_record list \<Rightarrow> flow_record list) \<Rightarrow> (string \<Rightarrow> nat \<Rightarrow> nat \<Rightarrow> real) \<Rightarrow> real
      \<Rightarrow> flow_record list \<Rightarrow> real list \<Rightarrow> nat \<Rightarrow> replay \<Rightarrow> replay result option" where
  "replay_thread shuffle shuffle_recs rng now loaded walls k s =
     (let h = (if loaded = [] then synthesize_fallback_records shuffle_recs rng now (rp_scenario s) 500 else loaded)
      in case (if loaded = [] then Some [0..<length h]
               else filter_by_scenario shuffle h (rp_scenario s) [0..<length h]) of
           None \<Rightarrow> None
         | Some addrs \<Rightarrow>
             (let addrs = sort_key (\<lambda>a. fr_timestamp (h ! a)) addrs;
                  ref = (if addrs = [] then now else fr_timestamp (h ! hd addrs))
              in Some (replay_laps addrs walls k ref (replay_reset now (s\<lparr>rp_heap := h\<rparr>)))))"

section \<open>Reads\<close>

fun drain :: "(nat \<Rightarrow> string) \<Rightarrow> real \<Rightarrow> nat list \<Rightarrow> replay \<Rightarrow> alert_dict list result \<times> replay" where
  "drain new_id since [] s = (Inr [], s\<lparr>rp_queue := []\<rparr>)"
| "drain new_id since (a # q) s =
     (let r = rp_heap s ! a
      in if since < fr_timestamp r \<and> upper (fr_family r) \<noteq> ''BENIGN'' then
           (case to_alert_dict (new_id (rp_issued s)) r of
              Inl e \<Rightarrow> (Inl e, s\<lparr>rp_queue := q\<rparr>)
            | Inr d \<Rightarrow> (case drain new_id since q (s\<lparr>rp_issued := rp_issued s + 1\<rparr>) of
                          (Inl e, s) \<Rightarrow> (Inl e, s)
                        | (Inr ds, s) \<Rightarrow> (Inr (d # ds), s)))
         else drain new_id since q s)"

definition replay_read_alerts :: "(nat \<Rightarrow> string) \<Rightarrow> real \<Rightarrow> replay \<Rightarrow> alert_dict list result \<times> replay" where
  "replay_read_alerts new_id since s = drain new_id since (rp_queue s) s"

record telemetry =
  tm_pkts_per_sec :: int
  tm_mbps :: real
  tm_active_flows :: int
  tm_latency_ms :: real
  tm_diode_mode :: string
  tm_status :: string
  tm_updated_at :: real

definition or_else :: "'a :: zero \<Rightarrow> 'a \<Rightarrow> 'a" where
  "or_else x d = (if x = 0 then d else x)"

text \<open>\<open>j\<close> and \<open>latency\<close> are the random factors.\<close>

definition replay_read_telemetry :: "real \<Rightarrow> real \<Rightarrow> real \<Rightarrow> replay \<Rightarrow> telemetry" where
  "replay_read_telemetry now j latency s =
     (let elapsed = max (1 / 1000) (now - rp_telem_t0 s);
          pps = of_int (rp_pkts s) / elapsed;
          mbps = of_int (rp_bytes s * 8) / (elapsed * 1000000)
      in \<lparr>tm_pkts_per_sec = or_else (py_int (pps * j)) (py_int (1200 * j)),
          tm_mbps = or_else (py_round (mbps * j) 1) (py_round (84 / 10 * j) 1),
          tm_active_flows = or_else (int (length (rp_flows s))) (py_int (48 * j)),
          tm_latency_ms = py_round latency 2,
          tm_diode_mode = ''DATASET REPLAY (Labeled Ground Truth)'',
          tm_status = (if rp_running s then ''STREAMING'' else ''IDLE_BASELINE''),
          tm_updated_at = now\<rparr>)"

definition replay_get_summary :: "replay \<Rightarrow> (string, nat) dict" where
  "replay_get_summary s =
     foldl (\<lambda>d a. let k = fr_family (rp_heap s ! a) in dict_set k (dict_get d k 0 + 1) d) [] (rp_queue s)"

section \<open>Sampling terminates and hits its targets\<close>

lemma fill_pool_total:
  assumes "pool \<noteq> []"
  shows "\<exists>r. fill_pool pool target sampled = Some r \<and> target \<le> int (length r) \<and> set r \<subseteq> set sampled \<union> set pool"
proof (induction "nat (target - int (length sampled))" arbitrary: sampled rule: less_induct)
  case less
  show ?case
  proof (cases "int (length sampled) < target")
    case True
    have "0 < length pool" using assms by simp
    then have "nat (target - int (length (sampled @ pool))) < nat (target - int (length sampled))" using True by simp
    from less [OF this] True show ?thesis by (subst fill_pool.simps) auto
  next
    case False
    then show ?thesis by (subst fill_pool.simps) auto
  qed
qed

lemma fill_pool_empty_diverges: "int (length sampled) < target \<Longrightarrow> fill_pool [] target sampled = None"
proof (rule ccontr)
  assume lt: "int (length sampled) < target" and "fill_pool [] target sampled \<noteq> None"
  then obtain r where "fill_pool [] target sampled = Some r" by auto
  moreover have "fill_pool p t s = Some r \<Longrightarrow> p = [] \<longrightarrow> t \<le> int (length s)" for p :: "'a list" and t s r
    by (rule fill_pool.raw_induct [where P = "\<lambda>p t s r. p = [] \<longrightarrow> t \<le> int (length s)"])
      (force split: if_splits)+
  ultimately show False using lt by fastforce
qed

lemma draw_total:
  assumes "pool \<noteq> []"
  shows "\<exists>p. draw pool target = Some p \<and> length p = nat target \<and> set p \<subseteq> set pool"
  using fill_pool_total [OF assms, of target "[]"] by (auto simp: draw_def dest!: in_set_takeD)

definition family_count :: "heap \<Rightarrow> nat list \<Rightarrow> string \<Rightarrow> nat" where
  "family_count h xs f = length (filter (\<lambda>a. family_of h a = f) xs)"

lemma family_count_append [simp]: "family_count h (xs @ ys) f = family_count h xs f + family_count h ys f"
  by (simp add: family_count_def)

lemma family_count_pure:
  "\<forall>a\<in>set xs. family_of h a = g \<Longrightarrow> family_count h xs f = (if f = g then length xs else 0)"
  by (auto simp: family_count_def filter_id_conv filter_empty_conv)

lemma family_count_mset: "mset xs = mset ys \<Longrightarrow> family_count h xs f = family_count h ys f"
  unfolding family_count_def by (metis mset_filter size_mset)

lemma group_families_lookup:
  "dict_get (group_families h addrs) f [] = filter (\<lambda>a. family_of h a = f) addrs
   \<and> dict_wf (group_families h addrs) \<and> fst ` set (group_families h addrs) = family_of h ` set addrs"
proof (induction addrs rule: rev_induct)
  case Nil
  then show ?case by (simp add: group_families_def dict_get_def)
next
  case (snoc a addrs)
  let ?g = "group_families h addrs"
  have g: "group_families h (addrs @ [a]) = dict_set (family_of h a) (dict_get ?g (family_of h a) [] @ [a]) ?g"
    by (simp add: group_families_def)
  have keys: "fst ` set (dict_set k v d) = insert k (fst ` set d)" for k v and d :: "(string, nat list) dict"
    by (metis dict_keys_set dict_has_def insert_absorb list.set_map set_append Un_insert_right list.simps(15)
        list.set(1) sup_bot.right_neutral)
  have "dict_get (dict_set k v d) f w = (if f = k then v else dict_get d f w)" for k v w and d :: "(string, nat list) dict"
    by (simp add: dict_get_def map_of_dict_set)
  with snoc show ?case unfolding g keys by auto
qed

lemmas group_families_pool = group_families_lookup [THEN conjunct1]

text \<open>What the listed families contribute.\<close>

lemma draw_listed_total:
  assumes "dict_wf ws" and "\<forall>w\<in>set (map snd ws). 0 \<le> w" and "groups = group_families h addrs"
  shows "\<exists>new. draw_listed groups n ws res = Some (res @ new) \<and> set new \<subseteq> set addrs
    \<and> (\<forall>f. family_count h new f = (case map_of ws f of None \<Rightarrow> 0
         | Some w \<Rightarrow> if family_count h addrs f = 0 then 0 else nat (py_int (real n * w))))
    \<and> real (length new) \<le> real n * sum_list (map snd ws)"
  using assms(1,2)
proof (induction ws arbitrary: res)
  case Nil
  then show ?case by (simp add: family_count_def)
next
  case (Cons fw ws)
  obtain f w where fw: "fw = (f, w)" by (rule prod.exhaust)
  let ?pool = "dict_get groups f []" and ?t = "py_int (real n * w)"
  have pool: "?pool = filter (\<lambda>a. family_of h a = f) addrs" using assms(3) group_families_pool by simp
  have f: "map_of ws f = None" and w: "0 \<le> w" using Cons.prems by (auto simp: fw dict_wf_def map_of_eq_None_iff)
  have t: "0 \<le> ?t" "real_of_int ?t \<le> real n * w" using py_int_nonneg_bounds [of "real n * w"] w by auto
  have IH: "\<exists>new. draw_listed groups n ws r = Some (r @ new) \<and> set new \<subseteq> set addrs
    \<and> (\<forall>f. family_count h new f = (case map_of ws f of None \<Rightarrow> 0
         | Some w \<Rightarrow> if family_count h addrs f = 0 then 0 else nat (py_int (real n * w))))
    \<and> real (length new) \<le> real n * sum_list (map snd ws)" for r
    using Cons by (simp add: dict_wf_def)
  show ?case
  proof (cases "?pool = []")
    case True
    then have "family_count h addrs f = 0" by (simp add: pool family_count_def)
    moreover obtain new where "draw_listed groups n ws res = Some (res @ new)" "set new \<subseteq> set addrs"
      "\<forall>f. family_count h new f = (case map_of ws f of None \<Rightarrow> 0
         | Some w \<Rightarrow> if family_count h addrs f = 0 then 0 else nat (py_int (real n * w)))"
      "real (length new) \<le> real n * sum_list (map snd ws)" using IH by blast
    moreover have "0 \<le> real n * w" using w by simp
    ultimately show ?thesis using True f
      by (intro exI [of _ new]) (auto simp: fw distrib_left)
  next
    case False
    obtain p where p: "draw ?pool ?t = Some p" "length p = nat ?t" "set p \<subseteq> set ?pool"
      using draw_total [OF False] by blast
    obtain new where new: "draw_listed groups n ws (res @ p) = Some ((res @ p) @ new)" "set new \<subseteq> set addrs"
      "\<forall>f. family_count h new f = (case map_of ws f of None \<Rightarrow> 0
         | Some w \<Rightarrow> if family_count h addrs f = 0 then 0 else nat (py_int (real n * w)))"
      "real (length new) \<le> real n * sum_list (map snd ws)" using IH by blast
    have "\<forall>a\<in>set p. family_of h a = f" using p(3) by (auto simp: pool)
    then have pc: "family_count h p g = (if g = f then nat ?t else 0)" for g
      using family_count_pure p(2) by metis
    have ne: "family_count h addrs f \<noteq> 0" using False by (simp add: pool family_count_def)
    have "real (length p) \<le> real n * w" using p(2) t by simp
    moreover have "set p \<subseteq> set addrs" using p(3) by (auto simp: pool)
    ultimately show ?thesis using False new p(1) pc ne f
      by (intro exI [of _ "p @ new"]) (auto simp: fw distrib_left)
  qed
qed

lemma draw_unlisted_total:
  assumes "groups = group_families h addrs" and "distinct fs" and "set fs \<subseteq> family_of h ` set addrs" and "0 \<le> per"
  shows "\<exists>new. draw_unlisted groups per fs res = Some (res @ new) \<and> set new \<subseteq> set addrs
    \<and> (\<forall>f. family_count h new f = (if f \<in> set fs then nat per else 0)) \<and> length new = length fs * nat per"
  using assms(2,3)
proof (induction fs arbitrary: res)
  case Nil
  then show ?case by (simp add: family_count_def)
next
  case (Cons f fs)
  let ?pool = "dict_get groups f []"
  have pool: "?pool = filter (\<lambda>a. family_of h a = f) addrs" using assms(1) group_families_pool by simp
  then have "?pool \<noteq> []" using Cons.prems(2) by (auto simp: filter_empty_conv)
  then obtain p where p: "draw ?pool per = Some p" "length p = nat per" "set p \<subseteq> set ?pool"
    using draw_total by blast
  obtain new where new: "draw_unlisted groups per fs (res @ p) = Some ((res @ p) @ new)" "set new \<subseteq> set addrs"
    "\<forall>f. family_count h new f = (if f \<in> set fs then nat per else 0)" "length new = length fs * nat per"
    using Cons.IH [of "res @ p"] Cons.prems by (auto simp only: distinct.simps list.simps insert_subset)
  have "\<forall>a\<in>set p. family_of h a = f" using p(3) by (auto simp: pool)
  then have pc: "family_count h p g = (if g = f then nat per else 0)" for g
    using family_count_pure p(2) by metis
  have "set p \<subseteq> set addrs" using p(3) by (auto simp: pool)
  then show ?case using new p(1,2) pc Cons.prems(1) by (intro exI [of _ "p @ new"]) auto
qed

lemma scenario_weights_ok:
  "dict_wf (dict_get SCENARIO_WEIGHTS scenario [])
   \<and> (\<forall>w\<in>set (map snd (dict_get SCENARIO_WEIGHTS scenario [])). 0 \<le> w)
   \<and> sum_list (map snd (dict_get SCENARIO_WEIGHTS scenario [])) \<le> 1"
  by (auto simp: SCENARIO_WEIGHTS_def dict_get_def dict_wf_def split: option.splits if_splits)

lemma even_share:
  fixes fs :: "'a list"
  assumes "k \<le> n"
  defines "per \<equiv> (if fs = [] then 0 else max 0 (int n - int k) div int (length fs))"
  shows "0 \<le> per" "int (length fs) * per \<le> int n - int k"
proof -
  have "int (length fs) * (x div int (length fs)) = x - x mod int (length fs)" for x
    by (simp add: minus_mod_eq_mult_div)
  moreover have "0 \<le> x mod int (length fs)" if "fs \<noteq> []" for x using that by simp
  ultimately show "int (length fs) * per \<le> int n - int k" using assms(1) by (simp add: per_def)
  show "0 \<le> per" by (simp add: per_def div_int_pos_iff)
qed


definition sample_flow_record :: "string \<Rightarrow> real \<Rightarrow> flow_record" where
  "sample_flow_record family t = (fallback_record 0 ''random'' family (\<lambda>_. 0) 0)\<lparr>fr_timestamp := t\<rparr>"


section \<open>What a lap does to the timestamps\<close>

definition addrs_ok :: "nat list \<Rightarrow> heap \<Rightarrow> bool" where
  "addrs_ok addrs h \<longleftrightarrow> (\<forall>a\<in>set addrs. a < length h)"

definition stamp_of :: "heap \<Rightarrow> nat \<Rightarrow> real" where
  "stamp_of h a = fr_timestamp (h ! a)"

lemma put_alert_fields [simp]:
  "rp_heap (put_alert s a) = rp_heap s" "rp_speed (put_alert s a) = rp_speed s"
  "rp_max_queue (put_alert s a) = rp_max_queue s" "rp_issued (put_alert s a) = rp_issued s"
  by (simp_all add: put_alert_def)

lemma replay_one_fields [simp]:
  "length (rp_heap (replay_one ref wall s a)) = length (rp_heap s)" "rp_speed (replay_one ref wall s a) = rp_speed s"
  "rp_max_queue (replay_one ref wall s a) = rp_max_queue s" "rp_issued (replay_one ref wall s a) = rp_issued s"
  by (simp_all add: replay_one_def Let_def)

lemma replay_lap_fields [simp]:
  "length (rp_heap (replay_lap ref wall addrs s)) = length (rp_heap s)"
  "rp_speed (replay_lap ref wall addrs s) = rp_speed s" "rp_max_queue (replay_lap ref wall addrs s) = rp_max_queue s"
  "rp_issued (replay_lap ref wall addrs s) = rp_issued s"
  unfolding replay_lap_def by (induction addrs arbitrary: s) simp_all

lemma replay_one_stamp:
  assumes "a < length (rp_heap s)"
  shows "stamp_of (rp_heap (replay_one ref wall s b)) a
    = (if a = b then remap (rp_speed s) ref wall (stamp_of (rp_heap s) a) else stamp_of (rp_heap s) a)"
  using assms by (simp add: replay_one_def stamp_of_def Let_def nth_list_update)

lemma replay_lap_stamp:
  assumes "a < length (rp_heap s)"
  shows "stamp_of (rp_heap (replay_lap ref wall addrs s)) a
    = ((remap (rp_speed s) ref wall) ^^ count_list addrs a) (stamp_of (rp_heap s) a)"
  using assms unfolding replay_lap_def
proof (induction addrs arbitrary: s)
  case (Cons b addrs)
  then show ?case by (simp add: replay_one_stamp funpow_swap1)
qed simp

lemma remap_again:
  assumes "0 < speed" and "ref \<le> wall" and "ref \<le> t" and "2 \<le> n"
  shows "wall + (wall - ref) / speed \<le> ((remap speed ref wall) ^^ n) t"
proof -
  have step: "wall + (wall - ref) / speed \<le> remap speed ref wall x" if "wall \<le> x" for x
    using that assms(1) by (simp add: remap_def divide_right_mono)
  have first: "wall \<le> remap speed ref wall t" using assms by (simp add: remap_def)
  have later: "wall \<le> remap speed ref wall x" if "wall \<le> x" for x
    using step [OF that] assms(1,2) by (smt (verit) divide_nonneg_pos)
  have "wall \<le> ((remap speed ref wall) ^^ Suc m) t" for m
    by (induction m) (use first later in auto)
  moreover obtain m where "n = Suc (Suc m)" using assms(4) by (metis Suc_le_D numeral_2_eq_2 Suc_le_mono)
  ultimately show ?thesis using step by simp
qed

text \<open>
  A record is re-timed once per occurrence: after one lap its timestamp is the wall-clock
  mapping applied as often as the record occurs in the list. A record that occurs once gets
  its place on the wall clock; but the scenario filter repeats records to fill a sample, the
  copies are the same object, and a record that occurs twice is moved into the future by at
  least the age of the dataset.
\<close>

theorem replay_lap_remaps_per_occurrence:
  assumes "a < length (rp_heap s)" and "0 < rp_speed s" and "ref \<le> stamp_of (rp_heap s) a" and "ref \<le> wall"
  shows "stamp_of (rp_heap (replay_lap ref wall addrs s)) a
      = ((\<lambda>t. wall + (t - ref) / rp_speed s) ^^ count_list addrs a) (stamp_of (rp_heap s) a)
    \<and> (2 \<le> count_list addrs a \<longrightarrow>
         wall + (wall - ref) / rp_speed s \<le> stamp_of (rp_heap (replay_lap ref wall addrs s)) a)"
proof -
  have "remap (rp_speed s) ref wall = (\<lambda>t. wall + (t - ref) / rp_speed s)" by (simp add: remap_def fun_eq_iff)
  then show ?thesis
    using replay_lap_stamp [OF assms(1), of ref wall addrs] remap_again [OF assms(2,4,3)] by metis
qed

definition sample_replay :: "real \<Rightarrow> flow_record list \<Rightarrow> replay" where
  "sample_replay speed h = (replay_init speed 5000 0)\<lparr>rp_heap := h\<rparr>"

theorem replay_lap_remaps_per_occurrence_witness:
  "10000 + (10000 - 100) \<le> stamp_of (rp_heap (replay_lap 100 10000 [0, 0]
      (sample_replay 1 [sample_flow_record ''SYN_FLOOD'' 100]))) 0"
  using replay_lap_remaps_per_occurrence [of 0 "sample_replay 1 [sample_flow_record ''SYN_FLOOD'' 100]" 100 10000 "[0, 0]"]
  by (simp add: sample_replay_def replay_init_def sample_flow_record_def stamp_of_def)

lemma replay_lap_stamp_once:
  assumes "distinct addrs" and "a \<in> set addrs" and "addrs_ok addrs (rp_heap s)"
  shows "stamp_of (rp_heap (replay_lap ref wall addrs s)) a = remap (rp_speed s) ref wall (stamp_of (rp_heap s) a)"
proof -
  have "a < length (rp_heap s)" using assms by (simp add: addrs_ok_def)
  moreover have "count_list addrs a = 1" using assms(1,2) by (induction addrs) (auto simp: count_list_0_iff)
  ultimately show ?thesis by (simp add: replay_lap_stamp)
qed

text \<open>
  The replay speeds up with every lap: when no record occurs twice, after \<open>n\<close> laps every
  record is placed after the start of the last lap at its original distance from the first
  record divided by the \<open>n\<close>-th power of the speed factor, because each lap scales the
  timestamps the previous lap has already scaled. Only for a factor of 1 do all laps keep the
  capture's spacing.
\<close>

theorem replay_speed_compounds:
  assumes "distinct addrs" and "addrs \<noteq> []" and "addrs_ok addrs (rp_heap s)" and "0 < rp_speed s"
    and "walls \<noteq> []" and "length addrs \<le> k" and "ref = stamp_of (rp_heap s) (hd addrs)"
  shows "\<exists>s'. replay_laps addrs walls k ref s = Inr s'
    \<and> (\<forall>a\<in>set addrs. stamp_of (rp_heap s') a
         = last walls + (stamp_of (rp_heap s) a - ref) / rp_speed s ^ length walls)"
proof -
  have "\<exists>s'. replay_laps addrs walls k ref s = Inr s'
    \<and> (\<forall>a\<in>set addrs. stamp_of (rp_heap s') a
         = last walls + (stamp_of (rp_heap s) a - ref) / v ^ length walls)"
    if "rp_speed s = v" for v
    using assms(3,5,7) that
  proof (induction walls arbitrary: s ref)
    case (Cons wall walls)
    let ?s = "replay_lap ref wall addrs s"
    have lap: "stamp_of (rp_heap ?s) a = wall + (stamp_of (rp_heap s) a - ref) / v" if "a \<in> set addrs" for a
      using replay_lap_stamp_once [OF assms(1) that Cons.prems(1)] Cons.prems(4) by (simp add: remap_def)
    show ?case
    proof (cases walls)
      case Nil
      then show ?thesis using lap assms(6) by simp
    next
      case (Cons w ws)
      let ?t = "?s\<lparr>rp_telem_t0 := w\<rparr>"
      have hd: "stamp_of (rp_heap ?t) (hd addrs) = wall" using lap [of "hd addrs"] assms(2) Cons.prems(3) by simp
      have "\<exists>s'. replay_laps addrs walls k wall ?t = Inr s' \<and> (\<forall>a\<in>set addrs. stamp_of (rp_heap s') a
           = last walls + (stamp_of (rp_heap ?t) a - wall) / v ^ length walls)"
        by (rule Cons.IH) (use Cons.prems hd Cons in \<open>simp_all add: addrs_ok_def\<close>)
      moreover have "replay_laps addrs (wall # walls) k ref s = replay_laps addrs walls k wall ?t"
        using Cons assms(2) hd by (simp add: stamp_of_def)
      ultimately show ?thesis
        using lap Cons by (simp add: field_simps)
    qed
  qed simp
  then show ?thesis by blast
qed

theorem replay_speed_compounds_witness:
  "\<exists>s'. replay_laps [0, 1] [1000, 2000] 2 100
       (sample_replay 10 [sample_flow_record ''SYN_FLOOD'' 100, sample_flow_record ''SYN_FLOOD'' 200]) = Inr s'
     \<and> stamp_of (rp_heap s') 1 = 2001"
proof -
  let ?s = "sample_replay 10 [sample_flow_record ''SYN_FLOOD'' 100, sample_flow_record ''SYN_FLOOD'' 200]"
  have s: "stamp_of (rp_heap ?s) 0 = 100" "stamp_of (rp_heap ?s) 1 = 200" "rp_speed ?s = 10" "addrs_ok [0, 1] (rp_heap ?s)"
    by (simp_all add: sample_replay_def replay_init_def sample_flow_record_def stamp_of_def addrs_ok_def)
  have "\<exists>s'. replay_laps [0, 1] [1000, 2000] 2 100 ?s = Inr s'
    \<and> (\<forall>a\<in>set [0, 1]. stamp_of (rp_heap s') a
         = last [1000, 2000] + (stamp_of (rp_heap ?s) a - 100) / rp_speed ?s ^ length [1000, 2000 :: real])"
    by (rule replay_speed_compounds) (use s in simp_all)
  then obtain s' where "replay_laps [0, 1] [1000, 2000] 2 100 ?s = Inr s'"
    and "stamp_of (rp_heap s') 1 = 2000 + (stamp_of (rp_heap ?s) 1 - 100) / rp_speed ?s ^ 2"
    by (auto simp: numeral_2_eq_2)
  then show ?thesis unfolding s by (intro exI [of _ s']) simp
qed

section \<open>What the dashboard reads\<close>

lemma replay_one_record:
  "rp_heap (replay_one ref wall s a) = (rp_heap s)[a := (rp_heap s ! a)\<lparr>fr_timestamp := remap (rp_speed s) ref wall (fr_timestamp (rp_heap s ! a))\<rparr>]"
  by (simp add: replay_one_def Let_def)

lemma replay_one_queue:
  "0 < rp_max_queue s \<Longrightarrow> int (length (rp_queue s)) < rp_max_queue s
    \<Longrightarrow> rp_queue (replay_one ref wall s a) = rp_queue s @ [a]"
  by (simp add: replay_one_def put_alert_def Let_def)

lemma replay_lap_queue:
  "int (length (rp_queue s) + length addrs) \<le> rp_max_queue s
    \<Longrightarrow> rp_queue (replay_lap ref wall addrs s) = rp_queue s @ addrs"
  unfolding replay_lap_def
proof (induction addrs arbitrary: s)
  case (Cons a addrs)
  then show ?case by (simp add: replay_one_queue)
qed simp

lemma replay_lap_record:
  "a < length (rp_heap s) \<Longrightarrow>
    rp_heap (replay_lap ref wall addrs s) ! a
      = (rp_heap s ! a)\<lparr>fr_timestamp := stamp_of (rp_heap (replay_lap ref wall addrs s)) a\<rparr>"
  unfolding replay_lap_def
proof (induction addrs arbitrary: s)
  case Nil
  then show ?case by (simp add: stamp_of_def)
next
  case (Cons b addrs)
  have "rp_heap (replay_one ref wall s b) ! a = (rp_heap s ! a)\<lparr>fr_timestamp := t\<rparr>
      \<or> rp_heap (replay_one ref wall s b) ! a = rp_heap s ! a"
    if "t = remap (rp_speed s) ref wall (fr_timestamp (rp_heap s ! a))" for t
    using that Cons.prems by (cases "a = b") (simp_all add: replay_one_record)
  then show ?case using Cons by auto
qed

lemma to_alert_dict_timestamp: "to_alert_dict i r = Inr d \<Longrightarrow> ad_timestamp d = fr_timestamp r \<and> ad_id d = i"
  by (auto simp: to_alert_dict_def bind_result_Inr Let_def)

lemma drain_alerts:
  assumes "\<And>a. a \<in> set q \<Longrightarrow> \<exists>d. fr_features (rp_heap s ! a) = JObj d"
  shows "\<exists>ds s'. drain new_id since q s = (Inr ds, s') \<and> rp_queue s' = []
    \<and> map ad_timestamp ds = map (stamp_of (rp_heap s))
        (filter (\<lambda>a. since < stamp_of (rp_heap s) a \<and> family_of (rp_heap s) a \<noteq> ''BENIGN'') q)
    \<and> map ad_id ds = map new_id [rp_issued s..<rp_issued s + length ds]"
  using assms
proof (induction q arbitrary: s)
  case Nil
  then show ?case by simp
next
  case (Cons a q)
  obtain d where d: "fr_features (rp_heap s ! a) = JObj d" using Cons.prems by auto
  then obtain ad where ad: "to_alert_dict (new_id (rp_issued s)) (rp_heap s ! a) = Inr ad"
    by (simp add: to_alert_dict_def Let_def)
  let ?s = "s\<lparr>rp_issued := rp_issued s + 1\<rparr>"
  have IH: "\<exists>ds s'. drain new_id since q t = (Inr ds, s') \<and> rp_queue s' = []
    \<and> map ad_timestamp ds = map (stamp_of (rp_heap t))
        (filter (\<lambda>a. since < stamp_of (rp_heap t) a \<and> family_of (rp_heap t) a \<noteq> ''BENIGN'') q)
    \<and> map ad_id ds = map new_id [rp_issued t..<rp_issued t + length ds]" if "rp_heap t = rp_heap s" for t
    by (rule Cons.IH) (use Cons.prems that in simp)
  show ?case
  proof (cases "since < stamp_of (rp_heap s) a \<and> family_of (rp_heap s) a \<noteq> ''BENIGN''")
    case True
    obtain ds s' where ds: "drain new_id since q ?s = (Inr ds, s')" "rp_queue s' = []"
      "map ad_timestamp ds = map (stamp_of (rp_heap s))
        (filter (\<lambda>a. since < stamp_of (rp_heap s) a \<and> family_of (rp_heap s) a \<noteq> ''BENIGN'') q)"
      "map ad_id ds = map new_id [rp_issued s + 1..<rp_issued s + 1 + length ds]"
      using IH [of ?s] by auto
    have "drain new_id since (a # q) s = (Inr (ad # ds), s')"
      using True ds(1) ad by (simp add: stamp_of_def family_of_def Let_def)
    moreover have "[rp_issued s..<rp_issued s + length (ad # ds)] = rp_issued s # [rp_issued s + 1..<rp_issued s + 1 + length ds]"
      by (subst upt_conv_Cons) simp_all
    ultimately show ?thesis
      using True ds(2-4) to_alert_dict_timestamp [OF ad]
      by (intro exI [of _ "ad # ds"] exI [of _ s']) (simp add: stamp_of_def)
  next
    case False
    then have "drain new_id since (a # q) s = drain new_id since q s" by (auto simp: stamp_of_def family_of_def Let_def)
    then show ?thesis using IH [of s] False by auto
  qed
qed

text \<open>
  C38. One lap, as the dashboard sees it: when the list has no repeated record and the queue has
  room, a read after a lap returns exactly the attack records newer than the given time, in
  list order, each at its wall-clock time (start of the lap plus original distance divided by
  the speed), with consecutive fresh ids, and leaves the queue empty; benign records are never
  returned.
\<close>

theorem replay_read_after_lap:
  assumes "distinct addrs" and "addrs_ok addrs (rp_heap s)" and "rp_queue s = []"
    and "int (length addrs) \<le> rp_max_queue s"
    and "\<forall>a\<in>set addrs. \<exists>d. fr_features (rp_heap s ! a) = JObj d"
  shows "\<exists>ds s'. replay_read_alerts new_id since (replay_lap ref wall addrs s) = (Inr ds, s') \<and> rp_queue s' = []
    \<and> map ad_timestamp ds
      = filter (\<lambda>t. since < t) (map (\<lambda>a. wall + (stamp_of (rp_heap s) a - ref) / rp_speed s)
          (filter (\<lambda>a. family_of (rp_heap s) a \<noteq> ''BENIGN'') addrs))
    \<and> map ad_id ds = map new_id [rp_issued s..<rp_issued s + length ds]"
proof -
  let ?s = "replay_lap ref wall addrs s"
  have q: "rp_queue ?s = addrs" using replay_lap_queue [of s addrs] assms(3,4) by simp
  have rec: "rp_heap ?s ! a = (rp_heap s ! a)\<lparr>fr_timestamp := stamp_of (rp_heap ?s) a\<rparr>" if "a \<in> set addrs" for a
    using replay_lap_record assms(2) that by (simp add: addrs_ok_def)
  have st: "stamp_of (rp_heap ?s) a = wall + (stamp_of (rp_heap s) a - ref) / rp_speed s"
    and fam: "family_of (rp_heap ?s) a = family_of (rp_heap s) a" if "a \<in> set addrs" for a
    using replay_lap_stamp_once [OF assms(1) that assms(2)] rec [OF that] by (simp_all add: remap_def family_of_def)
  have feats: "\<exists>d. fr_features (rp_heap ?s ! a) = JObj d" if "a \<in> set addrs" for a
    using assms(5) that by (simp add: rec)
  obtain ds s' where ds: "drain new_id since addrs ?s = (Inr ds, s')" "rp_queue s' = []"
    "map ad_timestamp ds = map (stamp_of (rp_heap ?s))
        (filter (\<lambda>a. since < stamp_of (rp_heap ?s) a \<and> family_of (rp_heap ?s) a \<noteq> ''BENIGN'') addrs)"
    "map ad_id ds = map new_id [rp_issued ?s..<rp_issued ?s + length ds]"
    using drain_alerts [of addrs ?s, OF feats] by blast
  have "map (stamp_of (rp_heap ?s)) (filter (\<lambda>a. since < stamp_of (rp_heap ?s) a \<and> family_of (rp_heap ?s) a \<noteq> ''BENIGN'') xs)
      = filter (\<lambda>t. since < t) (map (\<lambda>a. wall + (stamp_of (rp_heap s) a - ref) / rp_speed s)
          (filter (\<lambda>a. family_of (rp_heap s) a \<noteq> ''BENIGN'') xs))" if "set xs \<subseteq> set addrs" for xs
    using that by (induction xs) (auto simp: st fam)
  with ds q show ?thesis by (simp add: replay_read_alerts_def)
qed

theorem replay_read_after_lap_witness:
  "\<exists>ds s'. replay_read_alerts nat_str 0 (replay_lap 100 1000 [0, 1]
       (sample_replay 10 [sample_flow_record ''SYN_FLOOD'' 100, sample_flow_record ''BENIGN'' 200])) = (Inr ds, s')
     \<and> map ad_timestamp ds = [1000]"
proof -
  let ?s = "sample_replay 10 [sample_flow_record ''SYN_FLOOD'' 100, sample_flow_record ''BENIGN'' 200]"
  have fam: "family_of (rp_heap ?s) 0 = ''SYN_FLOOD''" "family_of (rp_heap ?s) (Suc 0) = ''BENIGN''"
    by (simp_all add: family_of_def sample_replay_def sample_flow_record_def fallback_record_def upper_def upper_char_def Let_def)
  have s: "stamp_of (rp_heap ?s) 0 = 100" "rp_speed ?s = 10" "addrs_ok [0, 1] (rp_heap ?s)" "rp_queue ?s = []"
    "rp_max_queue ?s = 5000"
    by (simp_all add: sample_replay_def replay_init_def sample_flow_record_def stamp_of_def addrs_ok_def)
  have feats: "\<forall>a\<in>set [0, 1]. \<exists>d. fr_features (rp_heap ?s ! a) = JObj d"
    by (simp add: sample_replay_def sample_flow_record_def fallback_record_def Let_def)
  obtain ds s' where "replay_read_alerts nat_str 0 (replay_lap 100 1000 [0, 1] ?s) = (Inr ds, s')"
    "map ad_timestamp ds = filter (\<lambda>t. 0 < t) (map (\<lambda>a. 1000 + (stamp_of (rp_heap ?s) a - 100) / rp_speed ?s)
          (filter (\<lambda>a. family_of (rp_heap ?s) a \<noteq> ''BENIGN'') [0, 1]))"
    using replay_read_after_lap [OF _ s(3,4) _ feats, of nat_str 0 100 1000] s(5) by auto
  then show ?thesis by (intro exI [of _ ds] exI [of _ s']) (simp add: fam s)
qed

text \<open>
  Without dataset files the default scenario replays nothing: its entry in the scenario
  table is empty, so no fallback record is made, and the thread ends with an index error
  after its first, empty lap; every family of a scenario's weights, or of the default weights
  for a scenario that is not in the table, gets at least one record. The jitter on the fallback's confidence also leaves
  the unit interval.
\<close>

theorem fallback_default_scenario_dies:
  assumes "\<And>xs. mset (shuffle_recs xs) = mset xs" and "rp_scenario s = ''random''" and "rp_queue s = []"
  shows "synthesize_fallback_records shuffle_recs rng now ''random'' 500 = []
    \<and> replay_thread shuffle shuffle_recs rng now [] (wall # wall' # walls) k s = Some (Inl IndexError)
    \<and> (\<forall>(f, w)\<in>set (dict_get SCENARIO_WEIGHTS scenario fallback_weights).
         \<exists>r\<in>set (synthesize_fallback_records shuffle_recs rng now scenario 500). fr_family r = f)
    \<and> fr_confidence (fallback_record now scenario ''UDP_AMPLIFICATION'' (\<lambda>_. 1) i) = 103 / 100"
proof -
  have none: "synthesize_fallback_records shuffle_recs rng now ''random'' 500 = []"
    using assms(1) [of "[]"] by (simp add: synthesize_fallback_records_def SCENARIO_WEIGHTS_def dict_get_def)
  have fam: "fr_family (fallback_record now sc f u i) = f" for sc f u i by (simp add: fallback_record_def Let_def)
  have "\<exists>r\<in>set (synthesize_fallback_records shuffle_recs rng now scenario 500). fr_family r = f"
    if f: "(f, w) \<in> set (dict_get SCENARIO_WEIGHTS scenario fallback_weights)" for f w
  proof -
    have "0 \<in> set [0..<nat (max 1 (py_int (real 500 * w)))]" by simp
    then have "fallback_record now scenario f (rng f 0) 0
        \<in> set (synthesize_fallback_records shuffle_recs rng now scenario 500)"
      using f mset_eq_setD [OF assms(1)] by (fastforce simp: synthesize_fallback_records_def)
    with fam show ?thesis by blast
  qed
  moreover have "fr_confidence (fallback_record now scenario ''UDP_AMPLIFICATION'' (\<lambda>_. 1) i) = 103 / 100"
    by (simp add: fallback_record_def Let_def confidence_map_def dict_get_def uniform_def)
  moreover have "replay_thread shuffle shuffle_recs rng now [] (wall # wall' # walls) k s = Some (Inl IndexError)"
    using assms(2) none by (simp add: replay_thread_def Let_def)
  ultimately show ?thesis using none by (intro conjI) auto
qed

theorem fallback_default_scenario_dies_witness:
  "replay_thread rev rev (\<lambda>_ _ _. 0) 5 [] [10, 20] 0 (replay_start ''random'' (replay_init 1 5000 0)) = Some (Inl IndexError)"
  using fallback_default_scenario_dies [of rev "replay_start ''random'' (replay_init 1 5000 0)" "\<lambda>_ _ _. 0" 5 rev 10 20 "[]" 0]
  by (simp add: replay_start_def replay_stop_def replay_init_def)

end
