(* ===== verification/Dashboard.thy ===== *)
theory Dashboard
  imports Replay ClickHouse
begin

text \<open>
  The dashboard server of \<^verbatim>\<open>dashboard/api/server.py\<close>: start-up with its baseline alerts, the
  summary cache, the read endpoints, telemetry, the event stream and the control of replays.
  FastAPI, Kafka, child processes and the clock are outside; what they deliver are arguments
  or state (the set of live child processes). The stream is one iteration of its generator;
  the control of replays is a step relation over the request threads, since the races
  between them matter.
\<close>

section \<open>State\<close>

datatype any_store = SqliteStore alert_store | ClickHouseStore ch_store

record summary_cache =
  sc_ttl :: real
  sc_last_time :: real
  sc_cached :: "summary option"

text \<open>The replay child process the server knows of, the children that are alive, and the next process id.\<close>

record procs =
  pr_current :: "nat option"
  pr_live :: "nat set"
  pr_next :: nat

record server =
  sv_kafka :: bool
  sv_alert_queue :: "jval list"
  sv_telem_queue :: "jval list"
  sv_store :: any_store
  sv_cache :: summary_cache
  sv_mode :: string
  sv_dataset :: "replay option"
  sv_available :: bool
  sv_telem_file :: "jval result option"
  sv_can_kill :: bool
  sv_procs :: procs

section \<open>The summary cache\<close>

definition cache_init :: "real \<Rightarrow> summary_cache" where
  "cache_init ttl = \<lparr>sc_ttl = ttl, sc_last_time = 0, sc_cached = None\<rparr>"

definition cache_invalidate :: "summary_cache \<Rightarrow> summary_cache" where
  "cache_invalidate c = c\<lparr>sc_cached := None, sc_last_time := 0\<rparr>"

text \<open>
  \<open>fetch\<close> is the call of the store's \<^verbatim>\<open>get_summary_stats\<close>; an exception leaves the cache as it
  is, \<open>None\<close> is a call that never returns.
\<close>

definition cache_get_summary ::
    "real \<Rightarrow> ('s \<Rightarrow> (summary result \<times> 's) option) \<Rightarrow> summary_cache \<Rightarrow> 's \<Rightarrow> (summary result \<times> summary_cache \<times> 's) option" where
  "cache_get_summary now fetch c s =
     (case sc_cached c of
        Some data \<Rightarrow>
          if now - sc_last_time c < sc_ttl c then Some (Inr data, c, s)
          else (case fetch s of None \<Rightarrow> None
                | Some (Inl e, s) \<Rightarrow> Some (Inl e, c, s)
                | Some (Inr data, s) \<Rightarrow> Some (Inr data, c\<lparr>sc_cached := Some data, sc_last_time := now\<rparr>, s))
      | None \<Rightarrow>
          (case fetch s of None \<Rightarrow> None
           | Some (Inl e, s) \<Rightarrow> Some (Inl e, c, s)
           | Some (Inr data, s) \<Rightarrow> Some (Inr data, c\<lparr>sc_cached := Some data, sc_last_time := now\<rparr>, s)))"

section \<open>Start-up\<close>

definition baseline_alert ::
    "string \<Rightarrow> real \<Rightarrow> string \<Rightarrow> string \<Rightarrow> severity \<Rightarrow> real \<Rightarrow> flow_id \<Rightarrow> fvec \<Rightarrow> string \<Rightarrow> alert" where
  "baseline_alert i t det cls sev conf fid feats expl =
     \<lparr>al_id = i, al_timestamp = t, al_detector = det, al_flow = fid, al_threat_class = cls, al_severity = sev,
      al_confidence = conf, al_evidence = \<lparr>ev_features = feats, ev_explanation = expl, ev_window_start = None,
      ev_window_end = None\<rparr>, al_related = []\<rparr>"

definition flow5 :: "string \<Rightarrow> string \<Rightarrow> int \<Rightarrow> int \<Rightarrow> string \<Rightarrow> flow_id" where
  "flow5 src dst sp dp proto = \<lparr>fid_src_ip = src, fid_dst_ip = dst, fid_src_port = Some sp, fid_dst_port = Some dp,
     fid_protocol = proto\<rparr>"

definition baseline_alerts :: "real \<Rightarrow> alert list" where
  "baseline_alerts now =
     [baseline_alert ''init-alert-1'' (now - 120) ''ddos'' ''SYN Flood'' HIGH (92 / 100)
        (flow5 ''192.168.1.105'' ''10.0.0.1'' 52341 80 ''TCP'') [(''syn_ratio'', 152 / 10), (''pkt_rate'', 1200)]
        ''Volumetric SYN surge detected'',
      baseline_alert ''init-alert-2'' (now - 80) ''recon'' ''Port Scan'' MEDIUM (88 / 100)
        (flow5 ''192.168.1.110'' ''10.0.0.1'' 44120 443 ''TCP'') [(''unique_dst_ports'', 45)]
        ''Horizontal port reconnaissance detected'',
      baseline_alert ''init-alert-3'' (now - 30) ''beaconing'' ''C2 Beaconing'' HIGH (95 / 100)
        (flow5 ''192.168.1.115'' ''185.220.101.5'' 49812 8443 ''TCP'') [(''jitter'', 4 / 100), (''interval_mean'', 30)]
        ''Periodic C2 beaconing pattern identified'',
      baseline_alert ''init-alert-4'' (now - 10) ''dns_exfil'' ''DNS Tunneling'' CRITICAL (97 / 100)
        (flow5 ''192.168.1.120'' ''8.8.8.8'' 53123 53 ''UDP'') [(''entropy'', 46 / 10), (''query_len'', 48)]
        ''High-entropy encoded DNS query tunneling payload'']"

text \<open>Operations of the store in sequence: an exception ends the sequence, \<open>None\<close> is a deadlock.\<close>

definition then_op :: "'a op \<Rightarrow> 'b op \<Rightarrow> 'b op" where
  "then_op m k s = (case m s of None \<Rightarrow> None | Some (Inl e, s) \<Rightarrow> Some (Inl e, s) | Some (Inr _, s) \<Rightarrow> k s)"

definition seed_baseline_alerts :: "codec \<Rightarrow> bool \<Rightarrow> real \<Rightarrow> unit op" where
  "seed_baseline_alerts cd fails now = then_op (store_append_batch cd fails (baseline_alerts now)) (store_flush cd fails)"

definition lifespan_local ::
    "codec \<Rightarrow> db_file \<Rightarrow> string option \<Rightarrow> bool \<Rightarrow> bool \<Rightarrow> real \<Rightarrow> (unit result \<times> alert_store) option" where
  "lifespan_local cd file env clear_fails seed_fails now =
     (case store_init file 50 None env of None \<Rightarrow> None
      | Some (Inl e, s) \<Rightarrow> Some (Inl e, s)
      | Some (Inr _, s) \<Rightarrow> then_op (store_clear clear_fails) (seed_baseline_alerts cd seed_fails now) s)"

definition lifespan_kafka :: "unit result \<Rightarrow> ch_row list \<Rightarrow> server \<Rightarrow> server" where
  "lifespan_kafka opened table sv =
     sv\<lparr>sv_kafka := True, sv_store := ClickHouseStore (ch_init opened table 500), sv_alert_queue := [], sv_telem_queue := []\<rparr>"

text \<open>A Kafka consumer thread: what does not fit or does not parse is dropped.\<close>

definition kafka_consume :: "nat \<Rightarrow> jval result \<Rightarrow> jval list \<Rightarrow> jval list" where
  "kafka_consume maxsize msg q =
     (case msg of Inl _ \<Rightarrow> q | Inr v \<Rightarrow> if maxsize \<le> length q then q else q @ [v])"

section \<open>Read endpoints\<close>

text \<open>The ClickHouse store has none of the three methods the endpoints call.\<close>

definition get_alerts ::
    "codec \<Rightarrow> sql \<Rightarrow> bool \<Rightarrow> int \<Rightarrow> int \<Rightarrow> string option \<Rightarrow> string option \<Rightarrow> server
      \<Rightarrow> ((nat \<times> alert list) result \<times> server) option" where
  "get_alerts cd q fails limit offset detector sev sv =
     (case sv_store sv of
        ClickHouseStore _ \<Rightarrow> Some (Inl AttributeError, sv)
      | SqliteStore s \<Rightarrow>
          map_option (\<lambda>(r, s). (r, sv\<lparr>sv_store := SqliteStore s\<rparr>))
            (read_alerts_paginated cd q fails limit offset detector sev s))"

definition get_alert :: "codec \<Rightarrow> bool \<Rightarrow> string \<Rightarrow> server \<Rightarrow> (alert result \<times> server) option" where
  "get_alert cd fails i sv =
     (case sv_store sv of
        ClickHouseStore _ \<Rightarrow> Some (Inl AttributeError, sv)
      | SqliteStore s \<Rightarrow>
          map_option (\<lambda>(r, s). (bind_result r (\<lambda>a. case a of None \<Rightarrow> Inl (HTTPException 404) | Some a \<Rightarrow> Inr a),
                                sv\<lparr>sv_store := SqliteStore s\<rparr>))
            (get_alert_by_id cd fails i s))"

definition get_summary :: "codec \<Rightarrow> sql \<Rightarrow> bool \<Rightarrow> real \<Rightarrow> server \<Rightarrow> (summary result \<times> server) option" where
  "get_summary cd q fails now sv =
     map_option (\<lambda>(r, c, st). (r, sv\<lparr>sv_cache := c, sv_store := st\<rparr>))
       (cache_get_summary now (\<lambda>st. case st of
            ClickHouseStore _ \<Rightarrow> Some (Inl AttributeError, st)
          | SqliteStore s \<Rightarrow> map_option (\<lambda>(r, s). (r, SqliteStore s)) (get_summary_stats cd q fails s))
        (sv_cache sv) (sv_store sv))"

section \<open>Telemetry\<close>

datatype telem = Snapshot jval | Computed telemetry

definition baseline_telemetry :: "real \<Rightarrow> real \<Rightarrow> telemetry" where
  "baseline_telemetry now j =
     \<lparr>tm_pkts_per_sec = py_int (3600 * j), tm_mbps = py_round (248 / 10 * j) 1, tm_active_flows = py_int (164 * j),
      tm_latency_ms = py_round (118 / 100 * j) 2, tm_diode_mode = ''PASSIVE RX ONLY (Tx Physically Disabled)'',
      tm_status = ''IDLE_BASELINE'', tm_updated_at = now\<rparr>"

fun jarith :: "jval \<Rightarrow> real result" where
  "jarith (JNum x) = Inr x"
| "jarith (JBool b) = Inr (if b then 1 else 0)"
| "jarith v = Inl TypeError"

text \<open>The telemetry file when it exists, parses and is less than 15 seconds old; otherwise the baseline.\<close>

definition get_current_telemetry :: "real \<Rightarrow> real \<Rightarrow> jval result option \<Rightarrow> telem" where
  "get_current_telemetry now j file =
     (case file of
        Some r \<Rightarrow>
          (case bind_result r (\<lambda>v. bind_result (jobject v) (\<lambda>d.
                  bind_result (jarith (dict_get d ''updated_at'' (JNum 0))) (\<lambda>t. Inr (v, now - t < 15)))) of
             Inr (v, True) \<Rightarrow> Snapshot v
           | _ \<Rightarrow> Computed (baseline_telemetry now j))
      | None \<Rightarrow> Computed (baseline_telemetry now j))"

definition latest_snapshot :: "jval list \<Rightarrow> jval" where
  "latest_snapshot q = (if q = [] then JNull else last q)"

definition get_telemetry :: "real \<Rightarrow> real \<Rightarrow> server \<Rightarrow> telem \<times> server" where
  "get_telemetry now j sv =
     (if sv_kafka sv \<and> jtrue (latest_snapshot (sv_telem_queue sv))
      then (Snapshot (latest_snapshot (sv_telem_queue sv)), sv\<lparr>sv_telem_queue := []\<rparr>)
      else (get_current_telemetry now j (sv_telem_file sv),
            if sv_kafka sv then sv\<lparr>sv_telem_queue := []\<rparr> else sv))"

section \<open>The event stream\<close>

datatype event = TelemetryEvent telem | AlertEvent alert | DatasetEvent alert_dict | KafkaEvent jobj

text \<open>The generator's local state; the set of sent ids lists its elements in the order they were added.\<close>

record sse =
  ss_last_ts :: real
  ss_sent :: "jval list"

definition sse_init :: "real \<Rightarrow> sse" where
  "sse_init now = \<lparr>ss_last_ts = now - 3600, ss_sent = []\<rparr>"

definition mark_sent :: "jval \<Rightarrow> sse \<Rightarrow> sse" where
  "mark_sent i st = st\<lparr>ss_sent := ss_sent st @ [i]\<rparr>"

text \<open>At most fifty alerts whose ids were not sent before; \<open>n\<close> have been pushed already.\<close>

fun push_new :: "('a \<Rightarrow> jval) \<Rightarrow> ('a \<Rightarrow> real) \<Rightarrow> nat \<Rightarrow> 'a list \<Rightarrow> sse \<Rightarrow> 'a list \<times> sse" where
  "push_new ident ts n [] st = ([], st)"
| "push_new ident ts n (a # as) st =
     (if ident a \<in> set (ss_sent st) then push_new ident ts n as st
      else (let st = (mark_sent (ident a) st)\<lparr>ss_last_ts := max (ss_last_ts st) (ts a)\<rparr>
            in if 50 \<le> n + 1 then ([a], st)
               else (let (out, st) = push_new ident ts (n + 1) as st in (a # out, st))))"

text \<open>\<open>order\<close> is the unspecified order of \<^verbatim>\<open>list(sent_alert_ids)\<close>.\<close>

definition trim_sent :: "(jval list \<Rightarrow> jval list) \<Rightarrow> sse \<Rightarrow> sse" where
  "trim_sent order st =
     (if 10000 < length (ss_sent st) then st\<lparr>ss_sent := last_n 5000 (order (ss_sent st))\<rparr> else st)"

text \<open>
  Draining the Kafka queue: at most fifty messages; a message that is not an object or whose
  id cannot be a set element is consumed and ends the round.
\<close>

fun hashable :: "jval \<Rightarrow> bool" where
  "hashable (JArr _) = False"
| "hashable (JObj _) = False"
| "hashable v = True"

fun drain_kafka :: "nat \<Rightarrow> jval list \<Rightarrow> sse \<Rightarrow> jobj list \<times> jval list \<times> sse" where
  "drain_kafka 0 q st = ([], q, st)"
| "drain_kafka (Suc n) [] st = ([], [], st)"
| "drain_kafka (Suc n) (v # q) st =
     (case jobject v of
        Inl _ \<Rightarrow> ([], q, st)
      | Inr d \<Rightarrow>
          (let i = dict_get d ''alert_id'' (JStr [])
           in if jtrue i \<and> \<not> hashable i then ([], q, st)
              else if jtrue i \<and> i \<notin> set (ss_sent st) then
                (let (out, q, st) = drain_kafka n q (mark_sent i st) in (d # out, q, st))
              else drain_kafka n q st))"

record tick_env =
  te_codec :: codec
  te_sql :: sql
  te_fails :: bool
  te_now :: real
  te_jitter :: real
  te_latency :: real
  te_new_id :: "nat \<Rightarrow> string"
  te_order :: "jval list \<Rightarrow> jval list"

definition stream_telemetry :: "tick_env \<Rightarrow> server \<Rightarrow> telem \<times> server" where
  "stream_telemetry env sv =
     (if sv_kafka sv then get_telemetry (te_now env) (te_jitter env) sv
      else (case sv_dataset sv of
              Some ds \<Rightarrow>
                if sv_mode sv = ''dataset''
                then (Computed (replay_read_telemetry (te_now env) (te_jitter env) (te_latency env) ds), sv)
                else (get_current_telemetry (te_now env) (te_jitter env) (sv_telem_file sv), sv)
            | None \<Rightarrow> (get_current_telemetry (te_now env) (te_jitter env) (sv_telem_file sv), sv)))"

definition proc_running :: "procs \<Rightarrow> bool" where
  "proc_running ps = (case pr_current ps of None \<Rightarrow> False | Some p \<Rightarrow> p \<in> pr_live ps)"

definition dataset_running :: "server \<Rightarrow> bool" where
  "dataset_running sv = (case sv_dataset sv of None \<Rightarrow> False | Some ds \<Rightarrow> rp_running ds)"

text \<open>The branch for local simulations; a failing read ends the stream.\<close>

definition stream_local ::
    "tick_env \<Rightarrow> server \<Rightarrow> sse \<Rightarrow> (alert list result \<times> sse \<times> server) option" where
  "stream_local env sv st =
     (if \<not> proc_running (sv_procs sv) then Some (Inr [], st\<lparr>ss_last_ts := te_now env\<rparr>, sv)
      else (case sv_store sv of
              ClickHouseStore _ \<Rightarrow> Some (Inl TypeError, st, sv)
            | SqliteStore s \<Rightarrow>
                (case read_alerts (te_codec env) (te_sql env) (te_fails env) (Some (ss_last_ts st)) None None None s of
                   None \<Rightarrow> None
                 | Some (Inl e, s) \<Rightarrow> Some (Inl e, st, sv\<lparr>sv_store := SqliteStore s\<rparr>)
                 | Some (Inr as, s) \<Rightarrow>
                     (let (out, st) = push_new (\<lambda>a. JStr (al_id a)) al_timestamp 0 as st
                      in Some (Inr out, trim_sent (te_order env) st, sv\<lparr>sv_store := SqliteStore s\<rparr>)))))"

definition stream_dataset :: "tick_env \<Rightarrow> server \<Rightarrow> replay \<Rightarrow> sse \<Rightarrow> alert_dict list result \<times> sse \<times> server" where
  "stream_dataset env sv ds st =
     (case replay_read_alerts (te_new_id env) (ss_last_ts st) ds of
        (Inl e, ds) \<Rightarrow> (Inl e, st, sv\<lparr>sv_dataset := Some ds\<rparr>)
      | (Inr as, ds) \<Rightarrow>
          (let (out, st) = push_new (\<lambda>a. JStr (ad_id a)) ad_timestamp 0 (filter (\<lambda>a. ad_id a \<noteq> []) as) st
           in (Inr out, trim_sent (te_order env) st, sv\<lparr>sv_dataset := Some ds\<rparr>)))"

definition stream_tick :: "tick_env \<Rightarrow> server \<Rightarrow> sse \<Rightarrow> (event list \<times> unit result \<times> sse \<times> server) option" where
  "stream_tick env sv st =
     (let (telem, sv) = stream_telemetry env sv; beat = TelemetryEvent telem
      in if sv_kafka sv then
           (let (out, q, st) = drain_kafka 50 (sv_alert_queue sv) st
            in Some (beat # map KafkaEvent out, Inr (), st, sv\<lparr>sv_alert_queue := q\<rparr>))
         else if sv_mode sv = ''dataset'' \<and> dataset_running sv then
           (case stream_dataset env sv (the (sv_dataset sv)) st of
              (Inl e, st, sv) \<Rightarrow> Some ([beat], Inl e, st, sv)
            | (Inr out, st, sv) \<Rightarrow> Some (beat # map DatasetEvent out, Inr (), st, sv))
         else
           (case stream_local env sv st of None \<Rightarrow> None
            | Some (Inl e, st, sv) \<Rightarrow> Some ([beat], Inl e, st, sv)
            | Some (Inr out, st, sv) \<Rightarrow> Some (beat # map AlertEvent out, Inr (), st, sv)))"

section \<open>Data-source control\<close>

definition SCENARIOS :: "string list" where
  "SCENARIOS = [''random'', ''massive_ddos'', ''stealth_c2_exfil'', ''recon_storm'', ''quiet_hours'', ''coordinated_campaign'']"

definition effective_mode :: "string option \<Rightarrow> server \<Rightarrow> string" where
  "effective_mode m sv = (case m of Some x \<Rightarrow> if x \<in> set [''simulated'', ''dataset''] then x else sv_mode sv
     | None \<Rightarrow> sv_mode sv)"

definition scenario_clean :: "string option \<Rightarrow> string" where
  "scenario_clean s = (case s of Some x \<Rightarrow> if x \<in> set SCENARIOS then x else ''random'' | None \<Rightarrow> ''random'')"

text \<open>\<open>get_or_create\<close> of the singleton data source.\<close>

definition get_or_create_dataset_source :: "real \<Rightarrow> server \<Rightarrow> replay option \<times> server" where
  "get_or_create_dataset_source now sv =
     (if \<not> sv_available sv then (None, sv)
      else (case sv_dataset sv of
              Some ds \<Rightarrow> (Some ds, sv)
            | None \<Rightarrow> (let ds = replay_init 1 5000 now in (Some ds, sv\<lparr>sv_dataset := Some ds\<rparr>))))"

definition stop_dataset :: "server \<Rightarrow> server" where
  "stop_dataset sv = (if dataset_running sv then sv\<lparr>sv_dataset := map_option replay_stop (sv_dataset sv)\<rparr> else sv)"

definition idle_file :: "real \<Rightarrow> jval" where
  "idle_file now = JObj [(''pkts_per_sec'', JNum 3600), (''mbps'', JNum (248 / 10)), (''active_flows'', JNum 164),
     (''latency_ms'', JNum (118 / 100)), (''diode_mode'', JStr ''PASSIVE RX ONLY (Tx Physically Disabled)''),
     (''status'', JStr ''IDLE_BASELINE''), (''updated_at'', JNum now)]"

text \<open>
  The process and its children are killed, if the platform's means to do so work: an exception
  there is swallowed and the process forgotten all the same. The telemetry file, if there is
  one, is reset.
\<close>

definition stop_process :: "real \<Rightarrow> server \<Rightarrow> server" where
  "stop_process now sv =
     (if proc_running (sv_procs sv) then
        sv\<lparr>sv_procs := (sv_procs sv)\<lparr>pr_live := (if sv_can_kill sv then pr_live (sv_procs sv) - {the (pr_current (sv_procs sv))}
                                             else pr_live (sv_procs sv)), pr_current := None\<rparr>,
           sv_telem_file := map_option (\<lambda>_. Inr (idle_file now)) (sv_telem_file sv)\<rparr>
      else sv)"

definition stop_active_replay :: "real \<Rightarrow> server \<Rightarrow> server" where
  "stop_active_replay now sv = stop_process now (stop_dataset sv)"

text \<open>What follows the stop in \<^verbatim>\<open>run_replay_script\<close>, up to the wait for the replay to end.\<close>

definition start_replay :: "real \<Rightarrow> string \<Rightarrow> string \<Rightarrow> server \<Rightarrow> server" where
  "start_replay now scenario m sv =
     (if m = ''dataset'' then
        (case get_or_create_dataset_source now sv of
           (None, sv) \<Rightarrow> sv
         | (Some ds, sv) \<Rightarrow> sv\<lparr>sv_dataset := Some (replay_start scenario ds)\<rparr>)
      else sv\<lparr>sv_procs := \<lparr>pr_current = Some (pr_next (sv_procs sv)),
                pr_live = insert (pr_next (sv_procs sv)) (pr_live (sv_procs sv)), pr_next = pr_next (sv_procs sv) + 1\<rparr>\<rparr>)"

definition invalidate_summary :: "server \<Rightarrow> server" where
  "invalidate_summary sv = sv\<lparr>sv_cache := cache_invalidate (sv_cache sv)\<rparr>"

definition stop_replay :: "real \<Rightarrow> server \<Rightarrow> server" where
  "stop_replay now sv = invalidate_summary (stop_active_replay now sv)"

definition set_datasource_mode :: "real \<Rightarrow> string \<Rightarrow> server \<Rightarrow> string result \<times> server" where
  "set_datasource_mode now m sv =
     (if m \<notin> set [''simulated'', ''dataset''] then (Inl (HTTPException 400), sv)
      else if \<not> sv_available sv \<and> m = ''dataset'' then (Inl (HTTPException 503), sv)
      else (Inr m, invalidate_summary ((stop_active_replay now sv)\<lparr>sv_mode := m\<rparr>)))"

definition get_datasource_mode :: "server \<Rightarrow> string \<times> bool \<times> bool \<times> bool" where
  "get_datasource_mode sv = (sv_mode sv, proc_running (sv_procs sv), dataset_running sv, sv_available sv)"

section \<open>Replay requests as threads\<close>

text \<open>
  A replay request answers at once and leaves the work to a thread: it stops what is active,
  then starts its own replay. \<open>AtStop\<close> and \<open>AtStart\<close> are the points in between, with the
  thread's scenario and mode.
\<close>

datatype thread = AtStop string string | AtStart string string | Waiting

definition scenario_labels :: "(string, string) dict" where
  "scenario_labels =
     [(''random'', ''Dynamic Random Attack Mix''),
      (''massive_ddos'', ''Massive Volumetric DDoS (Thousands of alerts)''),
      (''stealth_c2_exfil'', ''Stealthy C2 & DNS Exfil (0 DDoS)''),
      (''recon_storm'', ''Reconnaissance Scan Storm (0 DDoS, 0 C2)''),
      (''quiet_hours'', ''Calm Baseline (Low Threat)''),
      (''coordinated_campaign'', ''Coordinated Multi-Vector Wave'')]"

text \<open>The answer to a replay request (label, mode, whether data sets are available) and the thread it starts.\<close>

definition trigger_replay :: "string option \<Rightarrow> string option \<Rightarrow> server \<Rightarrow> (string \<times> string \<times> bool) \<times> thread \<times> server" where
  "trigger_replay sc m sv =
     (let mode = effective_mode m sv; clean = scenario_clean sc
      in ((dict_get scenario_labels clean ''Dynamic Random Mix'', mode, sv_available sv),
          AtStop clean mode, invalidate_summary sv))"

record control =
  ct_server :: server
  ct_threads :: "thread list"

inductive ctl_step :: "control \<Rightarrow> control \<Rightarrow> bool" where
  trigger_replay: "ctl_step c (c\<lparr>ct_server := snd (snd (trigger_replay sc m (ct_server c))),
      ct_threads := ct_threads c @ [fst (snd (trigger_replay sc m (ct_server c)))]\<rparr>)"
| thread_stops: "i < length (ct_threads c) \<Longrightarrow> ct_threads c ! i = AtStop sc m \<Longrightarrow>
    ctl_step c (c\<lparr>ct_server := stop_active_replay now (ct_server c), ct_threads := (ct_threads c)[i := AtStart sc m]\<rparr>)"
| thread_starts: "i < length (ct_threads c) \<Longrightarrow> ct_threads c ! i = AtStart sc m \<Longrightarrow>
    ctl_step c (c\<lparr>ct_server := start_replay now sc m (ct_server c), ct_threads := (ct_threads c)[i := Waiting]\<rparr>)"
| stop_request: "ctl_step c (c\<lparr>ct_server := stop_replay now (ct_server c)\<rparr>)"
| mode_request: "ctl_step c (c\<lparr>ct_server := snd (set_datasource_mode now m (ct_server c))\<rparr>)"
| process_exits: "p \<in> pr_live (sv_procs (ct_server c)) \<Longrightarrow>
    ctl_step c (c\<lparr>ct_server := (ct_server c)\<lparr>sv_procs :=
      (sv_procs (ct_server c))\<lparr>pr_live := pr_live (sv_procs (ct_server c)) - {p}\<rparr>\<rparr>\<rparr>)"

inductive_cases ctl_stepE: "ctl_step c d"

section \<open>One replay at a time, and the race\<close>

lemma trigger_replay_parts [simp]:
  "fst (snd (trigger_replay sc m sv)) = AtStop (scenario_clean sc) (effective_mode m sv)"
  "snd (snd (trigger_replay sc m sv)) = invalidate_summary sv"
  by (simp_all add: trigger_replay_def Let_def)

definition orphan :: "nat \<Rightarrow> control \<Rightarrow> bool" where
  "orphan p c \<longleftrightarrow> p \<in> pr_live (sv_procs (ct_server c)) \<and> pr_current (sv_procs (ct_server c)) \<noteq> Some p
     \<and> p < pr_next (sv_procs (ct_server c))"

lemma stop_dataset_procs [simp]:
  "sv_procs (stop_dataset sv) = sv_procs sv" "sv_can_kill (stop_dataset sv) = sv_can_kill sv"
  by (simp_all add: stop_dataset_def)

lemma stop_active_procs:
  "sv_procs (stop_active_replay now sv) = (if proc_running (sv_procs sv)
     then (sv_procs sv)\<lparr>pr_live := (if sv_can_kill sv then pr_live (sv_procs sv) - {the (pr_current (sv_procs sv))}
                                    else pr_live (sv_procs sv)), pr_current := None\<rparr>
     else sv_procs sv)"
  by (simp add: stop_active_replay_def stop_process_def)

lemma control_can_kill [simp]:
  "sv_can_kill (stop_active_replay now sv) = sv_can_kill sv"
  "sv_can_kill (invalidate_summary sv) = sv_can_kill sv"
  "sv_can_kill (stop_replay now sv) = sv_can_kill sv"
  "sv_can_kill (start_replay now sc m sv) = sv_can_kill sv"
  "sv_can_kill (snd (set_datasource_mode now m sv)) = sv_can_kill sv"
  by (simp_all add: stop_active_replay_def stop_process_def invalidate_summary_def stop_replay_def start_replay_def
      get_or_create_dataset_source_def set_datasource_mode_def Let_def split: option.splits)

lemma start_replay_procs:
  "sv_procs (start_replay now sc m sv) = (if m = ''dataset'' then sv_procs sv
     else \<lparr>pr_current = Some (pr_next (sv_procs sv)), pr_live = insert (pr_next (sv_procs sv)) (pr_live (sv_procs sv)),
           pr_next = pr_next (sv_procs sv) + 1\<rparr>)"
  by (auto simp: start_replay_def get_or_create_dataset_source_def Let_def split: option.splits)

lemma control_procs [simp]:
  "sv_procs (invalidate_summary sv) = sv_procs sv"
  "sv_procs (stop_replay now sv) = sv_procs (stop_active_replay now sv)"
  by (simp_all add: invalidate_summary_def stop_replay_def)

lemma set_mode_procs:
  "sv_procs (snd (set_datasource_mode now m sv)) = sv_procs sv
   \<or> sv_procs (snd (set_datasource_mode now m sv)) = sv_procs (stop_active_replay now sv)"
  by (simp add: set_datasource_mode_def)

lemma orphan_survives_stop:
  assumes "p \<in> pr_live (sv_procs sv)" and "pr_current (sv_procs sv) \<noteq> Some p"
  shows "p \<in> pr_live (sv_procs (stop_active_replay now sv)) \<and> pr_current (sv_procs (stop_active_replay now sv)) \<noteq> Some p"
  using assms by (auto simp: stop_active_procs proc_running_def split: option.splits)

lemma stop_keeps_next [simp]: "pr_next (sv_procs (stop_active_replay now sv)) = pr_next (sv_procs sv)"
  by (simp add: stop_active_procs)

lemma orphan_step:
  assumes "orphan p c" and "ctl_step c d"
  shows "orphan p d \<or> p \<notin> pr_live (sv_procs (ct_server d))
    \<and> pr_live (sv_procs (ct_server d)) = pr_live (sv_procs (ct_server c)) - {p}"
  using assms(2)
proof cases
  case (thread_stops i sc m now)
  then show ?thesis using assms(1) orphan_survives_stop by (simp add: orphan_def)
next
  case (thread_starts i sc m now)
  then show ?thesis using assms(1) by (auto simp: orphan_def start_replay_procs)
next
  case (stop_request now)
  then show ?thesis using assms(1) orphan_survives_stop by (simp add: orphan_def)
next
  case (mode_request now m)
  then show ?thesis
    using assms(1) orphan_survives_stop set_mode_procs [of now m "ct_server c"] by (auto simp: orphan_def)
next
  case (process_exits q)
  then show ?thesis using assms(1) by (auto simp: orphan_def)
qed (use assms(1) in \<open>simp add: orphan_def\<close>)

definition idle_control :: "server \<Rightarrow> control" where
  "idle_control sv = \<lparr>ct_server = sv, ct_threads = []\<rparr>"

definition no_procs :: "server \<Rightarrow> bool" where
  "no_procs sv \<longleftrightarrow> pr_live (sv_procs sv) = {} \<and> pr_current (sv_procs sv) = None"

inductive ctl_reach :: "control \<Rightarrow> control \<Rightarrow> bool" for c where
  start: "ctl_reach c c"
| step: "ctl_reach c d \<Longrightarrow> ctl_step d e \<Longrightarrow> ctl_reach c e"


definition sample_server :: server where
  "sample_server = \<lparr>sv_kafka = False, sv_alert_queue = [], sv_telem_queue = [], sv_store = SqliteStore (sample_store 50),
     sv_cache = cache_init (75 / 100), sv_mode = ''simulated'', sv_dataset = None, sv_available = True,
     sv_telem_file = None, sv_can_kill = True, sv_procs = \<lparr>pr_current = None, pr_live = {}, pr_next = 0\<rparr>\<rparr>"


text \<open>Requests handled one after the other: at most one thread is on its way to start a replay.\<close>

definition pending_thread :: "thread \<Rightarrow> bool" where
  "pending_thread t \<longleftrightarrow> t \<noteq> Waiting"

definition serial :: "control \<Rightarrow> bool" where
  "serial c \<longleftrightarrow> length (filter pending_thread (ct_threads c)) \<le> 1"

inductive serial_reach :: "control \<Rightarrow> control \<Rightarrow> bool" for c where
  start: "serial c \<Longrightarrow> serial_reach c c"
| step: "serial_reach c d \<Longrightarrow> ctl_step d e \<Longrightarrow> serial e \<Longrightarrow> serial_reach c e"

definition is_start :: "thread \<Rightarrow> bool" where
  "is_start t = (case t of AtStart _ _ \<Rightarrow> True | _ \<Rightarrow> False)"

definition single_inv :: "control \<Rightarrow> bool" where
  "single_inv c \<longleftrightarrow> sv_can_kill (ct_server c) \<and> (\<forall>p\<in>pr_live (sv_procs (ct_server c)). pr_current (sv_procs (ct_server c)) = Some p)
     \<and> ((\<exists>t\<in>set (ct_threads c). is_start t) \<longrightarrow> pr_live (sv_procs (ct_server c)) = {})"

lemma stop_empties:
  "\<forall>p\<in>pr_live (sv_procs sv). pr_current (sv_procs sv) = Some p \<Longrightarrow> sv_can_kill sv \<Longrightarrow> pr_live (sv_procs (stop_active_replay now sv)) = {}"
  by (auto simp: stop_active_procs proc_running_def split: option.splits)

lemma serial_no_start_left:
  assumes "serial c" and "i < length (ct_threads c)" and "is_start (ct_threads c ! i)"
  shows "\<not> (\<exists>t\<in>set ((ct_threads c)[i := Waiting]). is_start t)"
proof -
  let ?ts = "ct_threads c"
  have split: "?ts = take i ?ts @ ?ts ! i # drop (Suc i) ?ts" using assms(2) by (rule id_take_nth_drop)
  have pend: "is_start t \<Longrightarrow> pending_thread t" for t by (cases t) (simp_all add: is_start_def pending_thread_def)
  have "length (filter pending_thread (take i ?ts @ ?ts ! i # drop (Suc i) ?ts)) \<le> 1"
    using assms(1) split by (simp add: serial_def)
  then have "filter pending_thread (take i ?ts @ drop (Suc i) ?ts) = []" using pend [OF assms(3)] by simp
  then have "\<forall>t\<in>set (take i ?ts @ drop (Suc i) ?ts). \<not> is_start t" using pend by (simp only: filter_empty_conv) blast
  then show ?thesis using assms(2) by (auto simp: upd_conv_take_nth_drop is_start_def)
qed

lemma single_inv_step:
  assumes "serial c" and "single_inv c" and "ctl_step c d"
  shows "single_inv d"
  using assms(3)
proof cases
  case (trigger_replay sc m)
  then show ?thesis using assms(2) by (auto simp: single_inv_def is_start_def)
next
  case (thread_stops i sc m now)
  then show ?thesis using assms(2) stop_empties by (simp add: single_inv_def)
next
  case (thread_starts i sc m now)
  have st: "is_start (ct_threads c ! i)" using thread_starts(3) by (simp add: is_start_def)
  then have none: "pr_live (sv_procs (ct_server c)) = {}"
    using assms(2) nth_mem [OF thread_starts(2)] unfolding single_inv_def by blast
  have "\<not> (\<exists>t\<in>set (ct_threads d). is_start t)"
    using serial_no_start_left [OF assms(1) thread_starts(2) st] thread_starts(1) by simp
  moreover have "sv_can_kill (ct_server c)" using assms(2) by (simp add: single_inv_def)
  ultimately show ?thesis
    using thread_starts(1) none by (simp add: single_inv_def start_replay_procs)
next
  case (stop_request now)
  then show ?thesis using assms(2) stop_empties by (simp add: single_inv_def)
next
  case (mode_request now m)
  then show ?thesis
    using assms(2) stop_empties [of "ct_server c" now] set_mode_procs [of now m "ct_server c"]
    by (auto simp: single_inv_def)
next
  case (process_exits p)
  have "q \<in> pr_live (sv_procs (ct_server c)) \<Longrightarrow> pr_current (sv_procs (ct_server c)) = Some q" for q
    using assms(2) by (simp add: single_inv_def)
  then have "pr_live (sv_procs (ct_server c)) \<subseteq> {p}" using process_exits(2) by (metis option.inject insertI1 subsetI)
  moreover have "sv_can_kill (ct_server c)" using assms(2) by (simp add: single_inv_def)
  ultimately show ?thesis using process_exits by (auto simp: single_inv_def)
qed

text \<open>
  C30. Handled one after the other, replay requests keep at most one replay process: where
  processes can be killed, in every state the server can reach from an idle start with at most
  one request thread on its way, every live replay process is the one the server knows, so a
  stop always leaves none.
\<close>

theorem serial_replays_single_process:
  assumes "serial_reach (idle_control sv) c" and "no_procs sv" and "sv_can_kill sv"
  shows "(\<forall>p\<in>pr_live (sv_procs (ct_server c)). pr_current (sv_procs (ct_server c)) = Some p)
    \<and> pr_live (sv_procs (stop_replay now (ct_server c))) = {}"
proof -
  have "serial c \<and> single_inv c"
    using assms(1)
  proof induction
    case start
    then show ?case using assms(2,3) by (simp add: single_inv_def idle_control_def no_procs_def)
  next
    case (step d e)
    then show ?case using single_inv_step by blast
  qed
  then show ?thesis using stop_empties by (auto simp: single_inv_def)
qed

theorem serial_replays_single_process_witness:
  "\<exists>c. serial_reach (idle_control sample_server) c \<and> ct_threads c \<noteq> []
     \<and> pr_live (sv_procs (stop_replay 0 (ct_server c))) = {}"
proof -
  let ?c = "(idle_control sample_server)\<lparr>
      ct_server := snd (snd (trigger_replay None None (ct_server (idle_control sample_server)))),
      ct_threads := ct_threads (idle_control sample_server)
        @ [fst (snd (trigger_replay None None (ct_server (idle_control sample_server))))]\<rparr>"
  have "serial_reach (idle_control sample_server) ?c"
    by (rule serial_reach.step [OF serial_reach.start ctl_step.trigger_replay])
      (simp_all add: serial_def idle_control_def pending_thread_def)
  from serial_replays_single_process [OF this, of 0] this show ?thesis
    by (intro exI [of _ ?c]) (simp add: no_procs_def sample_server_def)
qed

text \<open>Where the kill fails, the running replay is forgotten and goes on, whatever requests follow.\<close>

lemma failed_kill_orphans:
  assumes "pr_current (sv_procs sv) = Some p" and "p \<in> pr_live (sv_procs sv)" and "p < pr_next (sv_procs sv)"
    and "\<not> sv_can_kill sv"
  shows "orphan p \<lparr>ct_server = stop_replay now sv, ct_threads = ts\<rparr>"
  using assms by (simp add: orphan_def stop_active_procs proc_running_def)

section \<open>Staleness of the summary\<close>

text \<open>Any sequence of requests at the given times, against a store whose summary at each of them is given.\<close>

fun cache_run :: "(real \<times> summary) list \<Rightarrow> summary_cache \<Rightarrow> summary list" where
  "cache_run [] c = []"
| "cache_run ((now, actual) # calls) c =
     (case cache_get_summary now (\<lambda>s. Some (Inr actual, s)) c (0 :: nat) of
        Some (Inr x, c, _) \<Rightarrow> x # cache_run calls c
      | _ \<Rightarrow> [])"

lemma cache_get_cases:
  "cache_get_summary now (\<lambda>s. Some (Inr actual, s)) c s =
     (if sc_cached c \<noteq> None \<and> now - sc_last_time c < sc_ttl c then Some (Inr (the (sc_cached c)), c, s)
      else Some (Inr actual, c\<lparr>sc_cached := Some actual, sc_last_time := now\<rparr>, s))"
  by (auto simp: cache_get_summary_def split: option.splits)

lemma cache_run_length [simp]: "length (cache_run calls c) = length calls"
  by (induction calls c rule: cache_run.induct) (simp_all add: cache_get_cases)

lemma cache_run_stale:
  assumes "i < length calls" and "cache_run calls c ! i = y"
  shows "(y = snd (calls ! i) \<or> sc_cached c = Some y \<and> fst (calls ! i) - sc_last_time c < sc_ttl c
       \<or> (\<exists>j<i. y = snd (calls ! j) \<and> fst (calls ! i) - fst (calls ! j) < sc_ttl c))"
  using assms
proof (induction calls arbitrary: c i)
  case (Cons call calls)
  obtain now actual where call: "call = (now, actual)" by (rule prod.exhaust)
  let ?hit = "sc_cached c \<noteq> None \<and> now - sc_last_time c < sc_ttl c"
  define c' where "c' = (if ?hit then c else c\<lparr>sc_cached := Some actual, sc_last_time := now\<rparr>)"
  define a where "a = (if ?hit then the (sc_cached c) else actual)"
  have run: "cache_run (call # calls) c = a # cache_run calls c'"
    by (simp add: call cache_get_cases c'_def a_def)
  show ?case
  proof (cases i)
    case 0
    then have "y = a" using Cons.prems [unfolded run] by simp
    then show ?thesis using 0 unfolding a_def by (cases ?hit) (auto simp: call)
  next
    case (Suc k)
    have "cache_run calls c' ! k = y" "k < length calls" using Cons.prems by (simp_all add: run Suc)
    from Cons.IH [OF this(2,1)]
    consider "y = snd (calls ! k)" | "sc_cached c' = Some y" "fst (calls ! k) - sc_last_time c' < sc_ttl c'"
      | j where "j < k" "y = snd (calls ! j)" "fst (calls ! k) - fst (calls ! j) < sc_ttl c'" by blast
    then show ?thesis
    proof cases
      case 2
      then show ?thesis
        by (cases ?hit) (auto simp: c'_def Suc call intro!: exI [of _ 0])
    next
      case (3 j)
      moreover have "sc_ttl c' = sc_ttl c" by (simp add: c'_def)
      ultimately show ?thesis by (auto simp: Suc intro!: exI [of _ "Suc j"])
    qed (simp add: Suc)
  qed
qed simp

text \<open>
  The summary cache is never older than its time to live: after an invalidation, every
  answer is the store's summary at the moment of the request itself or of an earlier request
  less than the time to live before it, and the first answer is fresh.
\<close>

theorem summary_cache_staleness:
  assumes "i < length calls"
  shows "length (cache_run calls (cache_invalidate c)) = length calls
    \<and> (\<exists>j\<le>i. cache_run calls (cache_invalidate c) ! i = snd (calls ! j)
         \<and> (j = i \<or> fst (calls ! i) - fst (calls ! j) < sc_ttl c))
    \<and> cache_run calls (cache_invalidate c) ! 0 = snd (calls ! 0)"
proof -
  have "calls \<noteq> []" using assms by auto
  then obtain now actual rest where calls: "calls = (now, actual) # rest" by (cases calls) auto
  have "cache_run calls (cache_invalidate c) ! 0 = snd (calls ! 0)"
    by (simp add: calls cache_get_cases cache_invalidate_def)
  with cache_run_stale [of i calls "cache_invalidate c", OF assms refl] show ?thesis
    by (auto simp: cache_invalidate_def) (metis less_imp_le)+
qed

theorem summary_cache_staleness_witness:
  "cache_run [(5, \<lparr>rate_by_class = [], top_talkers = [], total_alerts = 3\<rparr>)] (cache_invalidate (cache_init (75 / 100))) ! 0
     = \<lparr>rate_by_class = [], top_talkers = [], total_alerts = 3\<rparr>"
  using summary_cache_staleness [of 0 "[(5, \<lparr>rate_by_class = [], top_talkers = [], total_alerts = 3\<rparr>)]" "cache_init (75 / 100)"]
  by simp

section \<open>The stream delivers every alert once\<close>

lemma push_new_take:
  assumes "distinct (map ident as)" and "n < 50"
  shows "push_new ident ts n as st =
    (let out = take (50 - n) (filter (\<lambda>a. ident a \<notin> set (ss_sent st)) as)
     in (out, st\<lparr>ss_sent := ss_sent st @ map ident out, ss_last_ts := foldl max (ss_last_ts st) (map ts out)\<rparr>))"
  using assms
proof (induction as arbitrary: n st)
  case (Cons a as)
  show ?case
  proof (cases "ident a \<in> set (ss_sent st)")
    case True
    then show ?thesis using Cons by (simp add: Let_def)
  next
    case False
    let ?st = "(mark_sent (ident a) st)\<lparr>ss_last_ts := max (ss_last_ts st) (ts a)\<rparr>"
    have same: "filter (\<lambda>x. ident x \<notin> set (ss_sent ?st)) as = filter (\<lambda>x. ident x \<notin> set (ss_sent st)) as"
    proof (rule filter_cong)
      fix x assume "x \<in> set as"
      then have "ident x \<in> ident ` set as" by (rule imageI)
      then have "ident x \<noteq> ident a" using Cons.prems(1) by auto
      then show "(ident x \<notin> set (ss_sent ?st)) = (ident x \<notin> set (ss_sent st))" by (simp add: mark_sent_def)
    qed simp
    show ?thesis
    proof (cases "50 \<le> n + 1")
      case True
      then have "n = 49" using Cons.prems(2) by simp
      then show ?thesis using False by (simp add: Let_def mark_sent_def)
    next
      case not_full: False
      have "push_new ident ts (n + 1) as ?st =
        (let out = take (50 - (n + 1)) (filter (\<lambda>a. ident a \<notin> set (ss_sent ?st)) as)
         in (out, ?st\<lparr>ss_sent := ss_sent ?st @ map ident out, ss_last_ts := foldl max (ss_last_ts ?st) (map ts out)\<rparr>))"
        using Cons.prems not_full by (intro Cons.IH) auto
      moreover have "take (50 - n) (a # xs) = a # take (50 - (n + 1)) xs" for xs
      proof -
        have "50 - n = Suc (50 - (n + 1))" using not_full by simp
        then show ?thesis by simp
      qed
      ultimately show ?thesis
        using False not_full unfolding same by (simp add: Let_def mark_sent_def)
    qed
  qed
qed simp

lemma read_since:
  assumes "codec_ok cd kept" and "sql_ok q" and "store_ok s" and "db_rows (flush_state cd s) = map (alert_row cd) kept"
  obtains out where "read_alerts cd q False (Some t) None None None s = Some (Inr out, flush_state cd s)"
    "mset out = mset (filter (\<lambda>a. t \<le> al_timestamp a) kept)" "sorted (map al_timestamp out)"
proof -
  let ?P = "\<lambda>a. t \<le> al_timestamp a"
  let ?rs = "order_asc q (map (alert_row cd) (filter ?P kept))"
  have cod: "codec_ok cd (filter ?P kept)" using assms(1) by (rule codec_ok_subset) auto
  have "mset ?rs = mset (map (alert_row cd) (filter ?P kept))" using assms(2) unfolding sql_ok_def by blast
  then obtain bs where bs: "?rs = map (alert_row cd) bs" "rows_alerts cd ?rs = Inr bs" "mset bs = mset (filter ?P kept)"
    by (rule decode_permuted_rows [OF cod])
  have "sorted (map r_timestamp ?rs)" using assms(2) unfolding sql_ok_def by blast
  then have "sorted (map al_timestamp bs)" by (simp add: bs(1) comp_def)
  moreover have "read_alerts cd q False (Some t) None None None s = Some (Inr bs, flush_state cd s)"
    using bs(2) by (simp add: read_alerts_def flush_then_ok [OF assms(3)] assms(4) filter_map comp_def opt_match_def)
  ultimately show thesis using bs(3) that by blast
qed

text \<open>A server that streams a local simulation whose store holds the alerts \<open>kept\<close>.\<close>

definition streaming :: "codec \<Rightarrow> alert list \<Rightarrow> server \<Rightarrow> bool" where
  "streaming cd kept sv \<longleftrightarrow> \<not> sv_kafka sv \<and> \<not> (sv_mode sv = ''dataset'' \<and> dataset_running sv)
     \<and> proc_running (sv_procs sv)
     \<and> (\<exists>s. sv_store sv = SqliteStore s \<and> store_ok s \<and> db_rows (flush_state cd s) = map (alert_row cd) kept)"

definition alert_ids :: "alert list \<Rightarrow> jval list" where
  "alert_ids as = map (\<lambda>a. JStr (al_id a)) as"

text \<open>What has been sent, and that nothing unsent lies before the read position.\<close>

definition sent_so_far :: "alert list \<Rightarrow> alert list \<Rightarrow> sse \<Rightarrow> bool" where
  "sent_so_far kept sent st \<longleftrightarrow> ss_sent st = alert_ids sent \<and> distinct (alert_ids sent) \<and> set sent \<subseteq> set kept
     \<and> (\<forall>a\<in>set kept - set sent. ss_last_ts st \<le> al_timestamp a)"

lemma foldl_max_sorted:
  fixes xs :: "real list"
  assumes "sorted (xs @ ys)" and "\<forall>y\<in>set ys. l \<le> y"
  shows "\<forall>y\<in>set ys. foldl max l xs \<le> y"
  using assms by (induction xs arbitrary: l) auto

lemma push_unsent:
  assumes inv: "sent_so_far kept sent st" and dist: "distinct (alert_ids kept)"
    and as: "mset as = mset (filter (\<lambda>a. ss_last_ts st \<le> al_timestamp a) kept)" "sorted (map al_timestamp as)"
    and push: "push_new (\<lambda>a. JStr (al_id a)) al_timestamp 0 as st = (out, st')"
  shows "sent_so_far kept (sent @ out) st' \<and> length out = min 50 (length kept - length sent)"
proof -
  define unsent where "unsent = filter (\<lambda>a. a \<notin> set sent) as"
  have si: "ss_sent st = alert_ids sent" "distinct (alert_ids sent)" "set sent \<subseteq> set kept"
    using inv unfolding sent_so_far_def by blast+
  have late: "ss_last_ts st \<le> al_timestamp a" if "a \<in> set kept" "a \<notin> set sent" for a
    using inv that unfolding sent_so_far_def by blast
  have dk: "distinct kept" and inj: "inj_on al_id (set kept)"
    using dist unfolding alert_ids_def by (auto simp: distinct_map inj_on_def)
  have setas: "set as = {a \<in> set kept. ss_last_ts st \<le> al_timestamp a}" using mset_eq_setD [OF as(1)] by simp
  have das: "distinct as" using as(1) dk by (metis distinct_filter mset_eq_imp_distinct_iff)
  have ids: "JStr (al_id a) \<in> set (ss_sent st) \<longleftrightarrow> a \<in> set sent" if "a \<in> set as" for a
  proof -
    have a: "a \<in> set kept" using that setas by blast
    show ?thesis
    proof
      assume "JStr (al_id a) \<in> set (ss_sent st)"
      then obtain b where b: "b \<in> set sent" "al_id b = al_id a" unfolding si(1) alert_ids_def by auto
      then have "b = a" using si(3) a by (intro inj_onD [OF inj]) blast+
      then show "a \<in> set sent" using b(1) by simp
    next
      assume "a \<in> set sent"
      then show "JStr (al_id a) \<in> set (ss_sent st)" unfolding si(1) alert_ids_def set_map by (rule imageI)
    qed
  qed
  have fl: "filter (\<lambda>a. JStr (al_id a) \<notin> set (ss_sent st)) as = unsent"
    unfolding unsent_def using ids by (intro filter_cong) auto
  have "distinct (map (\<lambda>a. JStr (al_id a)) as)" using das setas inj by (auto simp: distinct_map inj_on_def)
  from push_new_take [OF this, of 0 al_timestamp st] push
  have out: "out = take 50 unsent"
    and st': "st' = st\<lparr>ss_sent := ss_sent st @ alert_ids out, ss_last_ts := foldl max (ss_last_ts st) (map al_timestamp out)\<rparr>"
    by (simp_all add: Let_def fl alert_ids_def)
  have setun: "set unsent = set kept - set sent" unfolding unsent_def using setas late by auto
  have dun: "distinct unsent" unfolding unsent_def using das by simp
  have ds: "distinct sent" using si(2) by (simp add: alert_ids_def distinct_map)
  have srt: "sorted (map al_timestamp unsent)" unfolding unsent_def by (rule sorted_filter [OF as(2)])
  have "length unsent = card (set kept - set sent)" using distinct_card [OF dun] setun by simp
  also have "\<dots> = length kept - length sent"
    using si(3) dk ds by (simp add: card_Diff_subset distinct_card)
  finally have len: "length out = min 50 (length kept - length sent)" by (simp add: out min.commute)
  have subo: "set out \<subseteq> set kept - set sent" using setun set_take_subset [of 50 unsent] by (simp add: out)
  have dout: "distinct out" using dun by (simp add: out)
  have "inj_on (\<lambda>a. JStr (al_id a)) (set kept)" using inj by (simp add: inj_on_def)
  then have "inj_on (\<lambda>a. JStr (al_id a)) (set (sent @ out))"
    by (rule inj_on_subset) (use si(3) subo in auto)
  moreover have "distinct (sent @ out)" using ds dout subo by auto
  ultimately have di: "distinct (alert_ids (sent @ out))" unfolding alert_ids_def distinct_map by blast
  have late': "ss_last_ts st' \<le> al_timestamp a" if a: "a \<in> set kept - set (sent @ out)" for a
  proof -
    have un: "set unsent = set out \<union> set (drop 50 unsent)"
      unfolding out set_append [symmetric] append_take_drop_id ..
    then have "a \<in> set (drop 50 unsent)" using a setun by auto
    then have "al_timestamp a \<in> set (map al_timestamp (drop 50 unsent))" by simp
    moreover have "sorted (map al_timestamp out @ map al_timestamp (drop 50 unsent))"
      unfolding out map_append [symmetric] append_take_drop_id by (rule srt)
    moreover have "\<forall>y\<in>set (map al_timestamp (drop 50 unsent)). ss_last_ts st \<le> y"
      using un setun late by auto
    ultimately have "foldl max (ss_last_ts st) (map al_timestamp out) \<le> al_timestamp a"
      using foldl_max_sorted [of "map al_timestamp out" "map al_timestamp (drop 50 unsent)" "ss_last_ts st"] by blast
    then show ?thesis by (simp add: st')
  qed
  have "ss_sent st' = alert_ids (sent @ out)" by (simp add: st' si(1) alert_ids_def)
  moreover have "set (sent @ out) \<subseteq> set kept" using si(3) subo by auto
  ultimately show ?thesis unfolding sent_so_far_def using di late' len by blast
qed

fun stream_run :: "tick_env list \<Rightarrow> server \<Rightarrow> sse \<Rightarrow> (event list \<times> unit result \<times> sse \<times> server) option" where
  "stream_run [] sv st = Some ([], Inr (), st, sv)"
| "stream_run (env # envs) sv st =
     (case stream_tick env sv st of
        None \<Rightarrow> None
      | Some (evs, Inl e, st, sv) \<Rightarrow> Some (evs, Inl e, st, sv)
      | Some (evs, Inr _, st, sv) \<Rightarrow>
          map_option (\<lambda>(more, r, st, sv). (evs @ more, r, st, sv)) (stream_run envs sv st))"

definition alerts_in :: "event list \<Rightarrow> alert list" where
  "alerts_in evs = concat (map (\<lambda>e. case e of AlertEvent a \<Rightarrow> [a] | _ \<Rightarrow> []) evs)"

lemma alerts_in_simps [simp]:
  "alerts_in [] = []" "alerts_in (TelemetryEvent t # evs) = alerts_in evs" "alerts_in (map AlertEvent as) = as"
  "alerts_in (xs @ ys) = alerts_in xs @ alerts_in ys"
  by (induction as) (simp_all add: alerts_in_def)

lemma stream_telemetry_local: "\<not> sv_kafka sv \<Longrightarrow> \<exists>t. stream_telemetry env sv = (t, sv)"
  by (auto simp: stream_telemetry_def split: option.splits)

lemma stream_tick_streaming:
  assumes sv: "streaming cd kept sv" and inv: "sent_so_far kept sent st" and "distinct (alert_ids kept)"
    and "codec_ok cd kept" and "sql_ok q" and "length kept \<le> 10000"
    and env: "te_codec env = cd" "te_sql env = q" "\<not> te_fails env"
  shows "\<exists>evs st' sv'. stream_tick env sv st = Some (evs, Inr (), st', sv') \<and> streaming cd kept sv'
    \<and> sent_so_far kept (sent @ alerts_in evs) st' \<and> length (alerts_in evs) = min 50 (length kept - length sent)"
proof -
  obtain s where s: "sv_store sv = SqliteStore s" "store_ok s" "db_rows (flush_state cd s) = map (alert_row cd) kept"
    and loc: "\<not> sv_kafka sv" "\<not> (sv_mode sv = ''dataset'' \<and> dataset_running sv)" "proc_running (sv_procs sv)"
    using sv unfolding streaming_def by blast
  obtain as where as: "read_alerts cd q False (Some (ss_last_ts st)) None None None s = Some (Inr as, flush_state cd s)"
    "mset as = mset (filter (\<lambda>a. ss_last_ts st \<le> al_timestamp a) kept)" "sorted (map al_timestamp as)"
    by (rule read_since [OF assms(4,5) s(2,3)])
  obtain out st' where push: "push_new (\<lambda>a. JStr (al_id a)) al_timestamp 0 as st = (out, st')" by (rule prod.exhaust)
  note pu = push_unsent [OF inv assms(3) as(2,3) push]
  have "length (ss_sent st') = length (sent @ out)" using pu by (simp add: sent_so_far_def alert_ids_def)
  moreover have "length (sent @ out) \<le> length kept"
  proof -
    have "distinct (sent @ out)" "set (sent @ out) \<subseteq> set kept"
      using pu by (auto simp: sent_so_far_def alert_ids_def distinct_map)
    then show ?thesis by (metis card_mono distinct_card List.finite_set card_length le_trans)
  qed
  ultimately have trim: "trim_sent (te_order env) st' = st'" using assms(6) by (simp add: trim_sent_def)
  obtain t where t: "stream_telemetry env sv = (t, sv)" using stream_telemetry_local [OF loc(1)] by blast
  let ?sv = "sv\<lparr>sv_store := SqliteStore (flush_state cd s)\<rparr>"
  have "stream_local env sv st = Some (Inr out, st', ?sv)"
    using loc(3) s(1) as(1) push trim env by (simp add: stream_local_def)
  then have tick: "stream_tick env sv st = Some (TelemetryEvent t # map AlertEvent out, Inr (), st', ?sv)"
    unfolding stream_tick_def t Let_def using loc(1) by (simp add: if_not_P [OF loc(2)] del: if_split)
  note f = flush_state_fields [OF s(2), of cd]
  have "streaming cd kept ?sv"
    using loc s(3) f flush_state_fields(5) [OF f(2), of cd]
    by (simp add: streaming_def dataset_running_def)
  then show ?thesis using tick pu by (intro exI) auto
qed

lemma stream_run_streaming:
  assumes "streaming cd kept sv" and "sent_so_far kept sent st" and "distinct (alert_ids kept)" and "codec_ok cd kept" and "sql_ok q"
    and "length kept \<le> 10000" and "\<forall>env\<in>set envs. te_codec env = cd \<and> te_sql env = q \<and> \<not> te_fails env"
  shows "\<exists>evs st' sv'. stream_run envs sv st = Some (evs, Inr (), st', sv')
    \<and> sent_so_far kept (sent @ alerts_in evs) st'
    \<and> length (alerts_in evs) = min (50 * length envs) (length kept - length sent)"
  using assms(1,2,7)
proof (induction envs arbitrary: sv st sent)
  case Nil
  then show ?case by simp
next
  case (Cons env envs)
  obtain evs st1 sv1 where t: "stream_tick env sv st = Some (evs, Inr (), st1, sv1)" "streaming cd kept sv1"
    "sent_so_far kept (sent @ alerts_in evs) st1" "length (alerts_in evs) = min 50 (length kept - length sent)"
  proof -
    have env: "te_codec env = cd" "te_sql env = q" "\<not> te_fails env" using Cons.prems(3) by simp_all
    from stream_tick_streaming [OF Cons.prems(1,2) assms(3-6) env] that show ?thesis by blast
  qed
  obtain more st2 sv2 where m: "stream_run envs sv1 st1 = Some (more, Inr (), st2, sv2)"
    "sent_so_far kept ((sent @ alerts_in evs) @ alerts_in more) st2"
    "length (alerts_in more) = min (50 * length envs) (length kept - length (sent @ alerts_in evs))"
  proof -
    have envs: "\<forall>env\<in>set envs. te_codec env = cd \<and> te_sql env = q \<and> \<not> te_fails env" using Cons.prems(3) by simp
    from Cons.IH [OF t(2,3) envs] that show ?thesis by blast
  qed
  have "length (alerts_in (evs @ more)) = min (50 * length (env # envs)) (length kept - length sent)"
  proof -
    have arith: "a + b = min (50 + 50 * n) l" if "a = min 50 l" "b = min (50 * n) (l - a)" for a b n l :: nat
      using that by arith
    show ?thesis using arith [OF t(4)] m(3) by simp
  qed
  moreover have "stream_run (env # envs) sv st = Some (evs @ more, Inr (), st2, sv2)" using t(1) m(1) by simp
  ultimately show ?case using m(2) by (intro exI [of _ "evs @ more"] exI [of _ st2] exI [of _ sv2]) simp
qed


definition sample_stream_server :: server where
  "sample_stream_server = sample_server\<lparr>sv_procs := \<lparr>pr_current = Some 0, pr_live = {0}, pr_next = 1\<rparr>,
     sv_store := SqliteStore ((sample_store 50)\<lparr>db := Intact (map (alert_row sample_codec)
       [sample_store_alert ''a'' 7, sample_store_alert ''b'' 9])\<rparr>)\<rparr>"

definition sample_tick :: tick_env where
  "sample_tick = \<lparr>te_codec = sample_codec, te_sql = sample_sql, te_fails = False, te_now = 10, te_jitter = 1,
     te_latency = 1, te_new_id = (\<lambda>_. ''x''), te_order = id\<rparr>"


section \<open>Start-up and read endpoints\<close>

lemma baseline_ids: "distinct (map al_id (baseline_alerts now))" "baseline_alerts now \<noteq> []"
  by (simp_all add: baseline_alerts_def baseline_alert_def)

lemma insert_distinct_rows:
  assumes "distinct (map al_id (as @ bs))"
  shows "foldl insert_or_ignore (map (alert_row cd) as) (map (alert_row cd) bs) = map (alert_row cd) (as @ bs)"
  using assms
proof (induction bs arbitrary: as)
  case (Cons b bs)
  have "insert_or_ignore (map (alert_row cd) as) (alert_row cd b) = map (alert_row cd) (as @ [b])"
    using Cons.prems by (auto simp: insert_or_ignore_def)
  then show ?case using Cons.IH [of "as @ [b]"] Cons.prems by simp
qed simp

text \<open>
  A local start discards the history: whatever the database file held, intact, missing
  or corrupt, a start-up without database errors leaves a usable store whose table holds
  exactly the four baseline alerts, and the alert list then shows these four, newest first.
\<close>

theorem startup_shows_baseline:
  assumes "codec_ok cd (baseline_alerts now)" and "sql_ok q"
  shows "\<exists>s. lifespan_local cd file env False False now = Some (Inr (), s) \<and> store_ok s \<and> write_buffer s = []
    \<and> db_rows s = map (alert_row cd) (baseline_alerts now)
    \<and> (\<forall>sv. sv_store sv = SqliteStore s \<longrightarrow>
         get_alerts cd q False 50 0 None None sv = Some (Inr (4, rev (baseline_alerts now)), sv))"
proof -
  define s where "s = \<lparr>batch_size = 50, write_buffer = [], db = Intact (map (alert_row cd) (baseline_alerts now)),
    locked = False, notifier_url = webhook_init None env\<rparr>"
  have ins: "foldl insert_or_ignore [] (map (alert_row cd) (baseline_alerts now)) = map (alert_row cd) (baseline_alerts now)"
    using insert_distinct_rows [of "[]" "baseline_alerts now" cd] baseline_ids by simp
  have seed: "seed_baseline_alerts cd False now (s\<lparr>db := Intact []\<rparr>) = Some (Inr (), s)"
    by (simp add: seed_baseline_alerts_def then_op_def store_append_batch_def store_flush_def with_lock_def
        flush_locked_def baseline_ids db_rows_def ins s_def)
  have init: "\<exists>rs. store_init file 50 None env = Some (Inr (), s\<lparr>db := Intact rs\<rparr>)"
    by (cases "file") (simp_all add: store_init_def init_db_def with_lock_def create_schema_def recover_corrupt_db_def s_def)
  have life: "lifespan_local cd file env False False now = Some (Inr (), s)"
  proof -
    obtain rs where rs: "store_init file 50 None env = Some (Inr (), s\<lparr>db := Intact rs\<rparr>)" using init by blast
    have "store_clear False (s\<lparr>db := Intact rs\<rparr>) = Some (Inr (), s\<lparr>db := Intact []\<rparr>)"
      by (simp add: store_clear_def with_lock_def s_def)
    then show ?thesis using seed by (simp add: lifespan_local_def rs then_op_def)
  qed
  have ok: "store_ok s" and rows: "db_rows s = map (alert_row cd) (baseline_alerts now)" and buf: "write_buffer s = []"
    by (simp_all add: s_def store_ok_def db_rows_def)
  have flush: "flush_state cd s = s"
    by (simp add: flush_state_def store_flush_def with_lock_def flush_locked_def s_def)
  have page: "read_alerts_paginated cd q False 50 0 None None s = Some (Inr (4, rev (baseline_alerts now)), s)"
  proof -
    let ?rs = "map (alert_row cd) (baseline_alerts now)"
    have m: "mset (order_desc q ?rs) = mset ?rs" and d: "sorted (rev (map r_timestamp (order_desc q ?rs)))"
      using assms(2) unfolding sql_ok_def by blast+
    obtain bs where bs: "order_desc q ?rs = map (alert_row cd) bs" "rows_alerts cd (order_desc q ?rs) = Inr bs"
      "mset bs = mset (baseline_alerts now)" by (rule decode_permuted_rows [OF assms(1) m])
    have inj: "inj_on al_timestamp (set (baseline_alerts now))" and srt: "sorted (map al_timestamp (baseline_alerts now))"
      by (simp_all add: baseline_alerts_def baseline_alert_def)
    have "sorted (map al_timestamp (rev bs))" using d by (simp add: bs(1) rev_map comp_def)
    moreover have "mset (rev bs) = mset (baseline_alerts now)" using bs(3) by simp
    moreover have "inj_on al_timestamp (set (rev bs) \<union> set (baseline_alerts now))"
      using inj mset_eq_setD [OF bs(3)] by simp
    ultimately have "rev bs = baseline_alerts now" using srt by (intro map_sorted_distinct_set_unique [of al_timestamp])
        (use baseline_ids inj mset_eq_setD [OF bs(3)] mset_eq_imp_distinct_iff [OF bs(3)] in \<open>simp_all add: distinct_map\<close>)
    then have "bs = rev (baseline_alerts now)" by (simp add: rev_swap)
    moreover have "length (baseline_alerts now) = 4" by (simp add: baseline_alerts_def)
    ultimately show ?thesis using bs(2)
      by (simp add: read_alerts_paginated_def flush_then_ok [OF ok] flush rows opt_match_def Let_def limit_offset_def bs(1))
  qed
  show ?thesis
    using life ok buf rows page by (intro exI [of _ s]) (simp add: get_alerts_def)
qed

definition baseline_codec :: codec where
  "baseline_codec =
     \<lparr>dump_flow = fid_src_ip,
      load_flow = (\<lambda>s. case find (\<lambda>a. fid_src_ip (al_flow a) = s) (baseline_alerts 0) of
        Some a \<Rightarrow> Inr (al_flow a) | None \<Rightarrow> Inl ValueError),
      dump_evidence = ev_explanation,
      load_evidence = (\<lambda>s. case find (\<lambda>a. ev_explanation (al_evidence a) = s) (baseline_alerts 0) of
        Some a \<Rightarrow> Inr (al_evidence a) | None \<Rightarrow> Inl ValueError),
      extract_src = Some\<rparr>"

theorem startup_shows_baseline_witness:
  "\<exists>s. lifespan_local baseline_codec Corrupt None False False 1000 = Some (Inr (), s) \<and> length (db_rows s) = 4"
proof -
  have "codec_ok baseline_codec (baseline_alerts 1000)"
    by (simp add: codec_ok_def baseline_codec_def baseline_alerts_def baseline_alert_def flow5_def)
  from startup_shows_baseline [OF this sample_sql_ok, of Corrupt None]
  show ?thesis by (elim exE conjE) (auto simp: baseline_alerts_def)
qed

text \<open>In Kafka mode the store is the ClickHouse one, and every read endpoint fails.\<close>

lemma kafka_mode_reads_fail:
  assumes "sv = lifespan_kafka opened table sv0" and "sc_cached (sv_cache sv0) = None"
  shows "get_alerts cd q fails limit offset detector sev sv = Some (Inl AttributeError, sv)"
    and "get_alert cd fails i sv = Some (Inl AttributeError, sv)"
    and "fst (the (get_summary cd q fails now sv)) = Inl AttributeError"
  using assms by (simp_all add: lifespan_kafka_def get_alerts_def get_alert_def get_summary_def cache_get_summary_def)

end
