(* ===== verification/Simulated.thy ===== *)
theory Simulated
  imports Dashboard
begin

text \<open>
  The simulated data source of \<^verbatim>\<open>datasource/simulated.py\<close>: a replay script as a child process,
  alerts read from the SQLite file by a store opened for each read, and the telemetry file. The
  lemmas show that it keeps one process and that a read sees exactly what other stores have
  flushed. The locale \<open>data_source\<close> is the control contract of the abstract class
  \<^verbatim>\<open>DataSource\<close> of \<^verbatim>\<open>datasource/base.py\<close>, interpreted on both sources.
\<close>

section \<open>What a data source promises\<close>

datatype source_cmd = StartSource string | StopSource

locale data_source =
  fixes start :: "string \<Rightarrow> 's \<Rightarrow> 's" and stop :: "'s \<Rightarrow> 's" and is_running :: "'s \<Rightarrow> bool"
  assumes start_runs: "is_running (start scenario s)"
    and stop_stops: "\<not> is_running (stop s)"
    and stop_stopped: "stop (stop s) = stop s"
begin

definition control :: "'s \<Rightarrow> source_cmd \<Rightarrow> 's" where
  "control s c = (case c of StartSource scenario \<Rightarrow> start scenario s | StopSource \<Rightarrow> stop s)"

lemma running_iff_last_start:
  assumes "cmds \<noteq> []"
  shows "is_running (foldl control s cmds) \<longleftrightarrow> last cmds \<noteq> StopSource"
  using assms start_runs stop_stops
  by (cases cmds rule: rev_cases) (simp_all add: control_def split: source_cmd.splits)

lemma repeated_stop: "foldl control s (cmds @ StopSource # replicate n StopSource) = foldl control s (cmds @ [StopSource])"
  by (induction n) (simp_all add: control_def stop_stopped)

end

section \<open>The source\<close>

definition sim_init :: procs where
  "sim_init = \<lparr>pr_current = None, pr_live = {}, pr_next = 0\<rparr>"

definition sim_is_running :: "procs \<Rightarrow> bool" where
  "sim_is_running ps = proc_running ps"

definition sim_stop :: "procs \<Rightarrow> procs" where
  "sim_stop ps =
     (if proc_running ps then ps\<lparr>pr_live := pr_live ps - {the (pr_current ps)}, pr_current := None\<rparr> else ps)"

definition sim_start :: "procs \<Rightarrow> procs" where
  "sim_start ps =
     (let ps = sim_stop ps
      in \<lparr>pr_current = Some (pr_next ps), pr_live = insert (pr_next ps) (pr_live ps), pr_next = pr_next ps + 1\<rparr>)"

text \<open>
  A read opens a store on the file, which may create or replace it, and swallows every
  exception; the second component is the file afterwards.
\<close>

definition sim_read_alerts ::
    "codec \<Rightarrow> sql \<Rightarrow> string option \<Rightarrow> bool \<Rightarrow> real \<Rightarrow> db_file \<Rightarrow> (alert list \<times> db_file) option" where
  "sim_read_alerts cd q env fails since file =
     (case store_init file 50 None env of
        None \<Rightarrow> None
      | Some (Inl _, s) \<Rightarrow> Some ([], db s)
      | Some (Inr _, s) \<Rightarrow>
          (case read_alerts cd q fails (Some since) None None None s of
             None \<Rightarrow> None
           | Some (Inl _, s) \<Rightarrow> Some ([], db s)
           | Some (Inr as, s) \<Rightarrow> Some (as, db s)))"

definition sim_baseline :: "real \<Rightarrow> real \<Rightarrow> telemetry" where
  "sim_baseline now j = (baseline_telemetry now j)\<lparr>tm_diode_mode := ''PASSIVE RX ONLY''\<rparr>"

text \<open>Here a missing file is one more exception.\<close>

definition sim_read_telemetry :: "real \<Rightarrow> real \<Rightarrow> jval result option \<Rightarrow> telem" where
  "sim_read_telemetry now j file =
     (case get_current_telemetry now j file of Snapshot v \<Rightarrow> Snapshot v | Computed _ \<Rightarrow> Computed (sim_baseline now j))"

section \<open>Properties\<close>

interpretation sim_source: data_source "\<lambda>_. sim_start" sim_stop sim_is_running
  by unfold_locales
    (auto simp: sim_start_def sim_stop_def sim_is_running_def proc_running_def Let_def split: option.splits)

interpretation replay_source: data_source replay_start replay_stop rp_running
  by unfold_locales (simp_all add: replay_start_def replay_stop_def)

inductive sim_reach :: "procs \<Rightarrow> bool" where
  init: "sim_reach sim_init"
| start: "sim_reach ps \<Longrightarrow> sim_reach (sim_start ps)"
| stop: "sim_reach ps \<Longrightarrow> sim_reach (sim_stop ps)"
| exits: "sim_reach ps \<Longrightarrow> p \<in> pr_live ps \<Longrightarrow> sim_reach (ps\<lparr>pr_live := pr_live ps - {p}\<rparr>)"

lemma sim_single_process: "sim_reach ps \<Longrightarrow> \<forall>p\<in>pr_live ps. pr_current ps = Some p"
proof (induction rule: sim_reach.induct)
  case (start ps)
  then have "pr_live (sim_stop ps) = {}" by (auto simp: sim_stop_def proc_running_def split: option.splits)
  then show ?case by (simp add: sim_start_def Let_def)
next
  case (exits ps p)
  show ?case using exits.IH by simp
qed (auto simp: sim_init_def sim_stop_def proc_running_def split: option.splits)

lemma sim_read_flushed:
  assumes "codec_ok cd kept" and "sql_ok q"
  obtains out where "sim_read_alerts cd q env False since (Intact (map (alert_row cd) kept))
      = Some (out, Intact (map (alert_row cd) kept))"
    "mset out = mset (filter (\<lambda>a. since \<le> al_timestamp a) kept)" "sorted (map al_timestamp out)"
proof -
  define s where "s = \<lparr>batch_size = 50, write_buffer = [], db = Intact (map (alert_row cd) kept),
    locked = False, notifier_url = webhook_init None env\<rparr>"
  have flush: "flush_state cd s = s" by (simp add: flush_state_def store_flush_def with_lock_def flush_locked_def s_def)
  have ok: "store_ok s" and rows: "db_rows (flush_state cd s) = map (alert_row cd) kept"
    by (simp_all add: flush) (simp_all add: s_def store_ok_def db_rows_def)
  obtain out where out: "read_alerts cd q False (Some since) None None None s = Some (Inr out, flush_state cd s)"
    "mset out = mset (filter (\<lambda>a. since \<le> al_timestamp a) kept)" "sorted (map al_timestamp out)"
    by (rule read_since [OF assms ok rows])
  have "store_init (Intact (map (alert_row cd) kept)) 50 None env = Some (Inr (), s)"
    by (simp add: store_init_def init_db_def with_lock_def create_schema_def s_def)
  then have "sim_read_alerts cd q env False since (Intact (map (alert_row cd) kept)) = Some (out, db s)"
    using out(1) flush by (simp add: sim_read_alerts_def)
  moreover have "db s = Intact (map (alert_row cd) kept)" by (simp add: s_def)
  ultimately show thesis using out(2,3) that by simp
qed

text \<open>A read of a corrupt file answers with no alerts and leaves an empty table in its place.\<close>

lemma sim_read_corrupt:
  assumes "sql_ok q"
  shows "sim_read_alerts cd q env False since Corrupt = Some ([], Intact [])"
proof -
  have "mset (order_asc q []) = mset []" using assms unfolding sql_ok_def by blast
  then show ?thesis
    by (simp add: sim_read_alerts_def store_init_def init_db_def with_lock_def create_schema_def recover_corrupt_db_def
        read_alerts_def flush_then_def store_flush_def flush_locked_def db_rows_def)
qed

end
