(* ===== verification/Rng.thy ===== *)
theory Rng
  imports Prelude "HOL-Library.State_Monad" "HOL-Library.Word"
begin

text \<open>
  Python's \<^verbatim>\<open>random\<close> module as the traffic generators use it: computations in the state monad over
  the state of the generator. The generator itself is an argument: its draws, its seeding and
  the bytes of \<^verbatim>\<open>os.urandom\<close>. What the \<^verbatim>\<open>random\<close> documentation promises of them is \<open>rng_ok\<close>, and
  \<^const>\<open>pred_state\<close> states what holds of every value a computation can return.
\<close>

named_theorems rng_intros \<open>introduction rules for properties of all values a computation returns\<close>

section \<open>The generator\<close>

text \<open>
  \<open>rg_below n\<close> is an integer in \<open>[0, n)\<close>, \<open>rg_random\<close> a number in \<open>[0, 1)\<close>.
\<close>

record 's rng =
  rg_seed :: "int \<Rightarrow> ('s, unit) state"
  rg_below :: "int \<Rightarrow> ('s, int) state"
  rg_random :: "('s, real) state"
  rg_gauss :: "real \<Rightarrow> real \<Rightarrow> ('s, real) state"
  rg_urandom :: "nat \<Rightarrow> ('s, 8 word list) state"

definition rng_ok :: "'s rng \<Rightarrow> bool" where
  "rng_ok R \<longleftrightarrow>
     (\<forall>n>0. pred_state (\<lambda>k. 0 \<le> k \<and> k < n) (rg_below R n)) \<and>
     pred_state (\<lambda>x. 0 \<le> x \<and> x < 1) (rg_random R) \<and>
     (\<forall>n. pred_state (\<lambda>bs. length bs = n) (rg_urandom R n)) \<and>
     (\<forall>n s t. run_state (rg_seed R n) s = run_state (rg_seed R n) t)"

text \<open>\<^verbatim>\<open>random.randint\<close>, \<^verbatim>\<open>uniform\<close>, \<^verbatim>\<open>choice\<close> of a non-empty list and \<^verbatim>\<open>choices\<close>.\<close>

definition py_randint :: "'s rng \<Rightarrow> int \<Rightarrow> int \<Rightarrow> ('s, int) state" where
  "py_randint R a b = do { k \<leftarrow> rg_below R (b - a + 1); State_Monad.return (a + k) }"

definition py_uniform :: "'s rng \<Rightarrow> real \<Rightarrow> real \<Rightarrow> ('s, real) state" where
  "py_uniform R a b = do { x \<leftarrow> rg_random R; State_Monad.return (a + (b - a) * x) }"

definition py_choice :: "'s rng \<Rightarrow> 'a list \<Rightarrow> ('s, 'a) state" where
  "py_choice R xs = do { k \<leftarrow> rg_below R (int (length xs)); State_Monad.return (xs ! nat k) }"

definition py_choices :: "'s rng \<Rightarrow> 'a list \<Rightarrow> int \<Rightarrow> ('s, 'a list) state" where
  "py_choices R xs k =
     traverse_list (\<lambda>_. do { x \<leftarrow> rg_random R; State_Monad.return (xs ! nat \<lfloor>x * real (length xs)\<rfloor>) }) [0..<nat k]"

text \<open>A loop over \<open>xs\<close> whose body appends one packet and perhaps one label.\<close>

definition gen_each :: "('a \<Rightarrow> ('s, 'p \<times> 'l option) state) \<Rightarrow> 'a list \<Rightarrow> ('s, 'p list \<times> 'l list) state" where
  "gen_each body xs =
     do { rs \<leftarrow> traverse_list body xs; State_Monad.return (map fst rs, List.map_filter snd rs) }"

section \<open>What every returned value satisfies\<close>

lemma pred_return [rng_intros]: "P x \<Longrightarrow> pred_state P (State_Monad.return x)"
  by (rule pred_stateI) simp

lemma pred_bind:
  assumes "pred_state Q m" and "\<And>x. Q x \<Longrightarrow> pred_state P (f x)"
  shows "pred_state P (State_Monad.bind m f)"
  using assms by (intro bind_predI) (auto simp: state.pred_set)

lemma pred_bind_any [rng_intros]: "(\<And>x. pred_state P (f x)) \<Longrightarrow> pred_state P (State_Monad.bind m f)"
  by (rule pred_bind [where Q = "\<lambda>_. True"]) (auto simp: state.pred_set)

lemma pred_case_prod [rng_intros]: "(\<And>a b. pred_state P (f a b)) \<Longrightarrow> pred_state P (case x of (a, b) \<Rightarrow> f a b)"
  by (cases x) simp

lemma pred_if: "pred_state P a \<Longrightarrow> pred_state P b \<Longrightarrow> pred_state P (if c then a else b)"
  by simp

lemma pred_mono: "pred_state P m \<Longrightarrow> (\<And>x. P x \<Longrightarrow> Q x) \<Longrightarrow> pred_state Q m"
  by (auto simp: state.pred_set)

lemma pred_map: "pred_state (\<lambda>x. P (f x)) m \<Longrightarrow> pred_state P (State_Monad.bind m (\<lambda>x. State_Monad.return (f x)))"
  by (erule pred_bind) (rule pred_return)

lemma pred_map_mono:
  assumes "pred_state Q m" and "\<And>x. Q x \<Longrightarrow> P (f x)"
  shows "pred_state P (State_Monad.bind m (\<lambda>x. State_Monad.return (f x)))"
  by (rule pred_map, rule pred_mono [OF assms(1)]) (rule assms(2))

lemma pred_traverse:
  assumes "\<And>x. x \<in> set xs \<Longrightarrow> pred_state (P x) (f x)"
  shows "pred_state (list_all2 P xs) (traverse_list f xs)"
  using assms
proof (induction xs)
  case Nil
  then show ?case by (simp add: pred_return)
next
  case (Cons x xs)
  show ?case
    unfolding traverse_list.simps
  proof (rule pred_bind)
    show "pred_state (P x) (f x)" using Cons.prems by simp
    show "pred_state (list_all2 P (x # xs)) (traverse_list f xs \<bind> (\<lambda>ys. State_Monad.return (y # ys)))"
      if "P x y" for y
      using Cons.prems that by (intro pred_map) (rule pred_mono [OF Cons.IH], auto)
  qed
qed

lemma pred_traverse_all:
  assumes "\<And>x. pred_state P (f x)"
  shows "pred_state (\<lambda>ys. length ys = length xs \<and> (\<forall>y\<in>set ys. P y)) (traverse_list f xs)"
  by (rule pred_mono [OF pred_traverse [of xs "\<lambda>_. P"]])
     (auto simp: assms list_all2_conv_all_nth in_set_conv_nth)

section \<open>What the draws return\<close>

lemma rng_okD:
  assumes "rng_ok R"
  shows "0 < n \<Longrightarrow> pred_state (\<lambda>k. 0 \<le> k \<and> k < n) (rg_below R n)"
    and "pred_state (\<lambda>x. 0 \<le> x \<and> x < 1) (rg_random R)"
    and "pred_state (\<lambda>bs. length bs = m) (rg_urandom R m)"
  using assms unfolding rng_ok_def by blast+

lemma seed_forgets: "rng_ok R \<Longrightarrow> run_state (rg_seed R n) s = run_state (rg_seed R n) t"
  unfolding rng_ok_def by blast

lemma randint_range:
  assumes "rng_ok R" and "a \<le> b"
  shows "pred_state (\<lambda>x. a \<le> x \<and> x \<le> b) (py_randint R a b)"
proof -
  have "pred_state (\<lambda>k. 0 \<le> k \<and> k < b - a + 1) (rg_below R (b - a + 1))"
    by (rule rng_okD) (use assms in simp_all)
  then show ?thesis
    unfolding py_randint_def by (rule pred_map_mono) auto
qed

lemma uniform_range:
  assumes "rng_ok R" and "a \<le> b"
  shows "pred_state (\<lambda>x. a \<le> x \<and> x \<le> b) (py_uniform R a b)"
proof -
  have "pred_state (\<lambda>x. 0 \<le> x \<and> x < 1) (rg_random R)" using assms(1) by (rule rng_okD)
  then show ?thesis
    unfolding py_uniform_def
  proof (rule pred_map_mono)
    fix x :: real
    assume "0 \<le> x \<and> x < 1"
    then have "0 \<le> (b - a) * x" "(b - a) * x \<le> (b - a) * 1"
      using \<open>a \<le> b\<close> mult_left_mono [of x 1 "b - a"] by simp_all
    then show "a \<le> a + (b - a) * x \<and> a + (b - a) * x \<le> b" by simp
  qed
qed

lemma choice_in:
  assumes "rng_ok R" and "xs \<noteq> []"
  shows "pred_state (\<lambda>x. x \<in> set xs) (py_choice R xs)"
proof -
  have "pred_state (\<lambda>k. 0 \<le> k \<and> k < int (length xs)) (rg_below R (int (length xs)))"
    by (rule rng_okD) (use assms in simp_all)
  then show ?thesis
    unfolding py_choice_def by (rule pred_map_mono) auto
qed

lemma choices_in:
  assumes "rng_ok R" and "xs \<noteq> []"
  shows "pred_state (\<lambda>ys. length ys = nat k \<and> set ys \<subseteq> set xs) (py_choices R xs k)"
proof -
  have r: "pred_state (\<lambda>x. 0 \<le> x \<and> x < 1) (rg_random R)" using assms(1) by (rule rng_okD)
  have "nat \<lfloor>x * real (length xs)\<rfloor> < length xs" if "0 \<le> x \<and> x < 1" for x
  proof -
    have "x * real (length xs) < real (length xs)" using that \<open>xs \<noteq> []\<close> by simp
    then show ?thesis using that by (simp add: nat_less_iff floor_less_iff)
  qed
  then have "pred_state (\<lambda>y. y \<in> set xs) (do { x \<leftarrow> rg_random R; State_Monad.return (xs ! nat \<lfloor>x * real (length xs)\<rfloor>) })"
    by (intro pred_map) (rule pred_mono [OF r], simp)
  then show ?thesis
    unfolding py_choices_def
    by (rule pred_mono [OF pred_traverse_all [of "\<lambda>y. y \<in> set xs"]]) auto
qed

lemma pred_gen_each:
  assumes "\<And>x. x \<in> set xs \<Longrightarrow> pred_state (P x) (body x)"
  shows "pred_state (\<lambda>r. \<exists>rs. list_all2 P xs rs \<and> r = (map fst rs, List.map_filter snd rs)) (gen_each body xs)"
  unfolding gen_each_def
  by (rule pred_map_mono [OF pred_traverse [of _ P]]) (auto simp: assms)

section \<open>A linear congruential instance\<close>

text \<open>A concrete generator: what \<open>rng_ok\<close> asks for can be met.\<close>

definition lcg_next :: "int \<Rightarrow> int" where
  "lcg_next s = (1103515245 * s + 12345) mod 2147483648"

definition lcg :: "int rng" where
  "lcg = \<lparr>rg_seed = (\<lambda>n. State (\<lambda>_. ((), n mod 2147483648))),
          rg_below = (\<lambda>n. State (\<lambda>s. (s mod n, lcg_next s))),
          rg_random = State (\<lambda>s. (of_int (s mod 1000) / 1000, lcg_next s)),
          rg_gauss = (\<lambda>m d. State (\<lambda>s. (m, lcg_next s))),
          rg_urandom = (\<lambda>n. State (\<lambda>s. (map (\<lambda>i. word_of_int (s + int i)) [0..<n], lcg_next s)))\<rparr>"

lemma lcg_ok: "rng_ok lcg"
  unfolding rng_ok_def lcg_def
  by (auto intro!: pred_stateI simp: pos_mod_bound pos_mod_sign)

end
