(* ===== verification/FlowExport.thy ===== *)
theory FlowExport
  imports Alerts PyText
begin

text \<open>
  The offline flow extraction of \<^verbatim>\<open>datasource/feature_extractor.py\<close>: backend choice, the two
  backends, attachment of ground-truth labels and the CSV table. The dissectors are
  third-party code: a packet is what scapy shows of it to the code, an nfstream flow is the
  attributes the code reads, and the CSV text itself is left to the \<^verbatim>\<open>csv\<close> module. The theorems
  show that the one-pass aggregation is the grouping of the packets by directed 5-tuple and
  what labelling does to each row.
\<close>

section \<open>Rows\<close>

record flow_row =
  fx_src_ip :: string
  fx_dst_ip :: string
  fx_src_port :: int
  fx_dst_port :: int
  fx_protocol :: string
  fx_timestamp :: real
  fx_duration :: real
  fx_pkt_count :: real
  fx_byte_count :: real
  fx_pkts_per_sec :: real
  fx_bytes_per_sec :: real
  fx_avg_pkt_size :: real
  fx_iat_mean :: real
  fx_iat_std :: real
  fx_iat_min :: real
  fx_iat_max :: real
  fx_syn :: real
  fx_ack :: real
  fx_fin :: real
  fx_rst :: real
  fx_syn_synack_ratio :: real
  fx_dns_query_len :: real
  fx_dns_entropy :: real
  fx_family :: string
  fx_severity :: string
  fx_generator :: string

section \<open>Backends\<close>

definition pick_backend :: "(string \<Rightarrow> bool) \<Rightarrow> string \<Rightarrow> string" where
  "pick_backend have_pkg preference =
     (if preference = ''nfstream'' then (if have_pkg ''nfstream'' then ''nfstream'' else ''scapy'')
      else if preference = ''scapy'' then ''scapy''
      else if have_pkg ''nfstream'' then ''nfstream'' else ''scapy'')"

text \<open>An nfstream flow; a numeric attribute that is absent or falsy takes the default.\<close>

record nf_flow =
  nf_src_ip :: string
  nf_dst_ip :: string
  nf_src_port :: int
  nf_dst_port :: int
  nf_protocol :: int
  nf_expiration_id :: real
  nf_attrs :: "(string, real) dict"

definition attr_or :: "nf_flow \<Rightarrow> string \<Rightarrow> real \<Rightarrow> real" where
  "attr_or f k d = (let v = dict_get (nf_attrs f) k d in if v = 0 then d else v)"

definition nf_row :: "real \<Rightarrow> nf_flow \<Rightarrow> flow_row" where
  "nf_row now f =
     (let mean_iat = attr_or f ''bidirectional_mean_ps_iat_ms'' 0; std_iat = attr_or f ''bidirectional_stddev_ps_iat_ms'' 0;
          min_iat = attr_or f ''bidirectional_min_ps_iat_ms'' 0; max_iat = attr_or f ''bidirectional_max_ps_iat_ms'' 0;
          pkt_count = attr_or f ''bidirectional_packets'' 0; byte_count = attr_or f ''bidirectional_bytes'' 0;
          dur_s = attr_or f ''bidirectional_duration_ms'' 1 / 1000;
          pps = pkt_count / max dur_s (1 / 1000); bps = byte_count / max dur_s (1 / 1000);
          avg_sz = byte_count / max pkt_count 1;
          syn = attr_or f ''src2dst_syn_packets'' 0; ack = attr_or f ''src2dst_ack_packets'' 0;
          fin = attr_or f ''src2dst_fin_packets'' 0; rst = attr_or f ''src2dst_rst_packets'' 0
      in \<lparr>fx_src_ip = nf_src_ip f, fx_dst_ip = nf_dst_ip f, fx_src_port = nf_src_port f, fx_dst_port = nf_dst_port f,
          fx_protocol = (if nf_protocol f = 17 then ''UDP'' else if nf_protocol f = 6 then ''TCP'' else int_str (nf_protocol f)),
          fx_timestamp = (if nf_expiration_id f = 0 then now else nf_expiration_id f),
          fx_duration = py_round dur_s 4, fx_pkt_count = pkt_count, fx_byte_count = byte_count,
          fx_pkts_per_sec = py_round pps 2, fx_bytes_per_sec = py_round bps 2, fx_avg_pkt_size = py_round avg_sz 2,
          fx_iat_mean = py_round mean_iat 3, fx_iat_std = py_round std_iat 3, fx_iat_min = py_round min_iat 3,
          fx_iat_max = py_round max_iat 3, fx_syn = syn, fx_ack = ack, fx_fin = fin, fx_rst = rst,
          fx_syn_synack_ratio = py_round (syn / max ack 1) 3, fx_dns_query_len = 0, fx_dns_entropy = 0,
          fx_family = ''BENIGN'', fx_severity = ''LOW'', fx_generator = ''nfstream''\<rparr>)"

definition extract_nfstream :: "real \<Rightarrow> nf_flow list option \<Rightarrow> flow_row list result" where
  "extract_nfstream now flows = (case flows of None \<Rightarrow> Inl RuntimeError | Some fs \<Rightarrow> Inr (map (nf_row now) fs))"

section \<open>The scapy aggregator\<close>

datatype l4 = TCP int int nat | UDP int int | NoPorts

text \<open>\<open>sp_ip\<close> holds the addresses of an IPv4 or IPv6 layer, \<open>sp_dns\<close> the length of the query name of a DNS layer.\<close>

record scapy_pkt =
  sp_ip :: "(string \<times> string) option"
  sp_l4 :: l4
  sp_time :: real
  sp_len :: nat
  sp_dns :: "nat option"

type_synonym fkey = "string \<times> string \<times> int \<times> int \<times> string"

record flow_acc =
  fa_t_start :: real
  fa_t_end :: real
  fa_pkts :: nat
  fa_bytes :: nat
  fa_iats :: "real list"
  fa_prev_ts :: real
  fa_syn :: nat
  fa_ack :: nat
  fa_fin :: nat
  fa_rst :: nat
  fa_dns_lens :: "nat list"
  fa_dns_bytes :: "nat list"

definition pkt_key :: "scapy_pkt \<Rightarrow> string \<times> string \<Rightarrow> fkey" where
  "pkt_key p ips =
     (case sp_l4 p of
        TCP sport dport flags \<Rightarrow> (fst ips, snd ips, sport, dport, ''TCP'')
      | UDP sport dport \<Rightarrow> (fst ips, snd ips, sport, dport, ''UDP'')
      | NoPorts \<Rightarrow> (fst ips, snd ips, 0, 0, ''ICMP''))"

definition new_acc :: "real \<Rightarrow> flow_acc" where
  "new_acc ts = \<lparr>fa_t_start = ts, fa_t_end = ts, fa_pkts = 0, fa_bytes = 0, fa_iats = [], fa_prev_ts = ts,
     fa_syn = 0, fa_ack = 0, fa_fin = 0, fa_rst = 0, fa_dns_lens = [], fa_dns_bytes = []\<rparr>"

text \<open>A flag mask is a power of two, so the test \<^verbatim>\<open>flags & mask\<close> is a digit of \<open>flags\<close>.\<close>

definition has_flag :: "nat \<Rightarrow> nat \<Rightarrow> bool" where
  "has_flag bitv flags \<longleftrightarrow> odd (flags div bitv)"

definition flag_count :: "nat \<Rightarrow> scapy_pkt \<Rightarrow> nat" where
  "flag_count bitv p = (case sp_l4 p of TCP _ _ flags \<Rightarrow> if has_flag bitv flags then 1 else 0 | _ \<Rightarrow> 0)"

definition acc_packet :: "scapy_pkt \<Rightarrow> flow_acc \<Rightarrow> flow_acc" where
  "acc_packet p f =
     (let ts = sp_time p;
          f = (if 0 < fa_pkts f then f\<lparr>fa_iats := fa_iats f @ [ts - fa_prev_ts f]\<rparr> else f);
          f = f\<lparr>fa_prev_ts := ts, fa_t_end := max (fa_t_end f) ts, fa_pkts := fa_pkts f + 1,
                 fa_bytes := fa_bytes f + sp_len p,
                 fa_syn := fa_syn f + flag_count 2 p, fa_ack := fa_ack f + flag_count 16 p,
                 fa_fin := fa_fin f + flag_count 1 p, fa_rst := fa_rst f + flag_count 4 p\<rparr>
      in case sp_dns p of None \<Rightarrow> f
         | Some n \<Rightarrow> f\<lparr>fa_dns_lens := fa_dns_lens f @ [n], fa_dns_bytes := fa_dns_bytes f @ [sp_len p]\<rparr>)"

definition scapy_step :: "(fkey, flow_acc) dict \<Rightarrow> scapy_pkt \<Rightarrow> (fkey, flow_acc) dict" where
  "scapy_step flows p =
     (case sp_ip p of None \<Rightarrow> flows
      | Some ips \<Rightarrow>
          (let key = pkt_key p ips
           in dict_set key (acc_packet p (dict_get flows key (new_acc (sp_time p)))) flows))"

definition flow_entropy :: "real list \<Rightarrow> real" where
  "flow_entropy values =
     (if values = [] \<or> sum_list values = 0 then 0
      else - (\<Sum>p\<leftarrow>filter (\<lambda>p. 0 < p) (map (\<lambda>v. v / sum_list values) (filter (\<lambda>v. 0 < v) values)). p * log 2 p))"

definition min_default :: "real list \<Rightarrow> real" where
  "min_default xs = (if xs = [] then 0 else Min (set xs))"

definition max_default :: "real list \<Rightarrow> real" where
  "max_default xs = (if xs = [] then 0 else Max (set xs))"

definition acc_row :: "fkey \<times> flow_acc \<Rightarrow> flow_row" where
  "acc_row kf =
     (let ((src, dst, sport, dport, proto), f) = kf;
          dur_s = max (fa_t_end f - fa_t_start f) (1 / 1000);
          iats_ms = map (\<lambda>x. x * 1000) (fa_iats f);
          n = real (length iats_ms);
          pps = real (fa_pkts f) / dur_s; bps = real (fa_bytes f) / dur_s;
          avg_sz = real (fa_bytes f) / max (real (fa_pkts f)) 1;
          mean_iat = (if iats_ms = [] then 0 else sum_list iats_ms / n);
          std_iat = (if 1 < length iats_ms then sqrt ((\<Sum>x\<leftarrow>iats_ms. (x - mean_iat)\<^sup>2) / n) else 0);
          lens = map real (fa_dns_lens f)
      in \<lparr>fx_src_ip = src, fx_dst_ip = dst, fx_src_port = sport, fx_dst_port = dport, fx_protocol = proto,
          fx_timestamp = fa_t_start f, fx_duration = py_round dur_s 4,
          fx_pkt_count = real (fa_pkts f), fx_byte_count = real (fa_bytes f),
          fx_pkts_per_sec = py_round pps 2, fx_bytes_per_sec = py_round bps 2, fx_avg_pkt_size = py_round avg_sz 2,
          fx_iat_mean = py_round mean_iat 3, fx_iat_std = py_round std_iat 3,
          fx_iat_min = py_round (min_default iats_ms) 3, fx_iat_max = py_round (max_default iats_ms) 3,
          fx_syn = real (fa_syn f), fx_ack = real (fa_ack f), fx_fin = real (fa_fin f), fx_rst = real (fa_rst f),
          fx_syn_synack_ratio = py_round (real (fa_syn f) / max (real (fa_ack f)) 1) 3,
          fx_dns_query_len = (if lens = [] then 0 else py_round (sum_list lens / real (length lens)) 1),
          fx_dns_entropy = py_round (if lens = [] then 0 else flow_entropy lens) 3,
          fx_family = ''BENIGN'', fx_severity = ''LOW'', fx_generator = ''scapy''\<rparr>)"

definition extract_scapy :: "scapy_pkt list option \<Rightarrow> flow_row list result" where
  "extract_scapy pkts =
     (case pkts of None \<Rightarrow> Inl RuntimeError | Some ps \<Rightarrow> Inr (map acc_row (foldl scapy_step [] ps)))"

section \<open>Labels\<close>

definition label_severity_map :: "(string, string) dict" where
  "label_severity_map =
     [(''BENIGN'', ''LOW''), (''SYN_FLOOD'', ''CRITICAL''), (''UDP_FLOOD'', ''HIGH''), (''UDP_AMPLIFICATION'', ''CRITICAL''),
      (''SLOWLORIS'', ''HIGH''), (''DNS_TUNNEL'', ''CRITICAL''), (''DNS_EXFIL'', ''HIGH''), (''DGA'', ''HIGH''),
      (''DGA_BEACON'', ''CRITICAL''), (''C2_BEACON'', ''CRITICAL''), (''PORT_SCAN'', ''MEDIUM''), (''RECON'', ''MEDIUM''),
      (''EXFIL'', ''HIGH'')]"

type_synonym label_key = "string \<times> string \<times> int \<times> string"

definition label_key_of :: "(jval \<Rightarrow> string) \<Rightarrow> jobj \<Rightarrow> label_key result" where
  "label_key_of render entry =
     bind_result (jobject (dict_get entry ''flow'' (JObj entry))) (\<lambda>flow.
     bind_result (jint (dict_get flow ''dst_port'' (JNum 0))) (\<lambda>dp.
       Inr (jstr render (dict_get flow ''src_ip'' (JStr [])), jstr render (dict_get flow ''dst_ip'' (JStr [])), dp,
            jstr render (dict_get flow ''protocol'' (JStr ''TCP'')))))"

fun label_map :: "(jval \<Rightarrow> string) \<Rightarrow> jval list \<Rightarrow> (label_key, jobj) dict \<Rightarrow> (label_key, jobj) dict result" where
  "label_map render [] m = Inr m"
| "label_map render (v # vs) m =
     bind_result (jobject v) (\<lambda>entry.
     bind_result (label_key_of render entry) (\<lambda>key. label_map render vs (dict_set key entry m)))"

definition row_key :: "flow_row \<Rightarrow> label_key" where
  "row_key r = (fx_src_ip r, fx_dst_ip r, fx_dst_port r, fx_protocol r)"

definition entry_family :: "(jval \<Rightarrow> string) \<Rightarrow> jobj \<Rightarrow> string" where
  "entry_family render entry = spaces_to_underscores (upper (jstr render
     (dict_get entry ''attack_family'' (dict_get entry ''label'' (JStr ''BENIGN'')))))"

definition label_row ::
    "(jval \<Rightarrow> string) \<Rightarrow> string \<Rightarrow> string \<Rightarrow> (label_key, jobj) dict \<Rightarrow> flow_row \<Rightarrow> flow_row" where
  "label_row render attack_type generator_mode m r =
     (case map_of m (row_key r) of
        Some entry \<Rightarrow>
          (let family = entry_family render entry
           in r\<lparr>fx_family := family,
                fx_severity := jstr render (dict_get entry ''severity'' (JStr (dict_get label_severity_map family ''LOW''))),
                fx_generator := jstr render (dict_get entry ''generator'' (JStr (fx_generator r)))\<rparr>)
      | None \<Rightarrow>
          if attack_type \<noteq> [] \<and> attack_type \<noteq> ''BENIGN'' then
            (let family = (if str_contains ''DGA'' attack_type then ''C2_BEACON'' else attack_type)
             in r\<lparr>fx_family := family, fx_severity := dict_get label_severity_map family ''HIGH'',
                  fx_generator := generator_mode\<rparr>)
          else r)"

text \<open>
  The sidecar: an object with capture-wide defaults, or a bare list; any failure while the
  label table is built leaves the rows unlabelled. \<open>None\<close> is a sidecar that cannot be read.
\<close>

definition label_entries_of :: "jval \<Rightarrow> jval list result" where
  "label_entries_of v =
     (case v of JArr xs \<Rightarrow> Inr xs | JObj d \<Rightarrow> Inr (map (\<lambda>(k, v). JStr k) d) | JStr s \<Rightarrow> Inr (map (\<lambda>c. JStr [c]) s)
      | _ \<Rightarrow> Inl TypeError)"

definition apply_labels :: "(jval \<Rightarrow> string) \<Rightarrow> jval option \<Rightarrow> flow_row list \<Rightarrow> flow_row list" where
  "apply_labels render data rows =
     (case data of None \<Rightarrow> rows
      | Some v \<Rightarrow>
          (let attack_type = (case v of JObj d \<Rightarrow> spaces_to_underscores (upper (jstr render (dict_get d ''attack'' (JStr []))))
                 | _ \<Rightarrow> []);
               generator_mode = (case v of JObj d \<Rightarrow> jstr render (dict_get d ''generator_mode'' (JStr ''dataset'')) | _ \<Rightarrow> ''dataset'');
               raw = (case v of JObj d \<Rightarrow> label_entries_of (dict_get d ''labels'' (dict_get d ''packets'' (JArr [])))
                 | JArr xs \<Rightarrow> Inr xs | _ \<Rightarrow> Inr [])
           in case bind_result raw (\<lambda>es. label_map render es []) of
                Inl _ \<Rightarrow> rows
              | Inr m \<Rightarrow> map (label_row render attack_type generator_mode m) rows))"

text \<open>The written table, when there is one: the column names and the rows.\<close>

definition write_csv :: "string list \<Rightarrow> flow_row list \<Rightarrow> (string list \<times> flow_row list) option" where
  "write_csv fieldnames rows = (if rows = [] then None else Some (fieldnames, rows))"

definition extract_features ::
    "(string \<Rightarrow> bool) \<Rightarrow> (jval \<Rightarrow> string) \<Rightarrow> real \<Rightarrow> nf_flow list option \<Rightarrow> scapy_pkt list option
      \<Rightarrow> jval option option \<Rightarrow> string \<Rightarrow> flow_row list result" where
  "extract_features have_pkg render now flows pkts label_file backend =
     bind_result (if pick_backend have_pkg backend = ''nfstream'' then extract_nfstream now flows else extract_scapy pkts)
       (\<lambda>rows. Inr (case label_file of None \<Rightarrow> rows | Some data \<Rightarrow> apply_labels render data rows))"

section \<open>The aggregation is a grouping\<close>

definition key_of :: "scapy_pkt \<Rightarrow> fkey option" where
  "key_of p = map_option (pkt_key p) (sp_ip p)"

definition keys_of :: "scapy_pkt list \<Rightarrow> fkey list" where
  "keys_of ps = concat (map (\<lambda>p. case key_of p of None \<Rightarrow> [] | Some k \<Rightarrow> [k]) ps)"

definition with_key :: "fkey \<Rightarrow> scapy_pkt list \<Rightarrow> scapy_pkt list" where
  "with_key k ps = filter (\<lambda>p. key_of p = Some k) ps"

definition acc_of :: "scapy_pkt list \<Rightarrow> flow_acc" where
  "acc_of ps = foldl (\<lambda>f p. acc_packet p f) (new_acc (sp_time (hd ps))) ps"

lemma acc_of_snoc:
  "acc_of (ps @ [p]) = acc_packet p (if ps = [] then new_acc (sp_time p) else acc_of ps)"
  by (simp add: acc_of_def)

lemma acc_packet_fields:
  "fa_pkts (acc_packet p f) = fa_pkts f + 1" "fa_bytes (acc_packet p f) = fa_bytes f + sp_len p"
  "fa_t_start (acc_packet p f) = fa_t_start f" "fa_t_end (acc_packet p f) = max (fa_t_end f) (sp_time p)"
  "fa_syn (acc_packet p f) = fa_syn f + flag_count 2 p" "fa_ack (acc_packet p f) = fa_ack f + flag_count 16 p"
  by (simp_all add: acc_packet_def Let_def split: option.splits)

lemma acc_of_fields:
  assumes "ps \<noteq> []"
  shows "fa_pkts (acc_of ps) = length ps \<and> fa_bytes (acc_of ps) = sum_list (map sp_len ps)
    \<and> fa_t_start (acc_of ps) = sp_time (hd ps) \<and> fa_t_end (acc_of ps) = Max (sp_time ` set ps)
    \<and> fa_syn (acc_of ps) = sum_list (map (flag_count 2) ps) \<and> fa_ack (acc_of ps) = sum_list (map (flag_count 16) ps)"
  using assms
proof (induction ps rule: rev_induct)
  case (snoc p ps)
  show ?case
  proof (cases "ps = []")
    case True
    then show ?thesis by (simp add: acc_of_def acc_packet_fields new_acc_def)
  next
    case False
    then show ?thesis
      using snoc.IH by (simp add: acc_of_snoc acc_packet_fields Max_insert max.commute)
  qed
qed simp

lemma scapy_fold:
  "dict_wf (foldl scapy_step [] ps) \<and> map fst (foldl scapy_step [] ps) = fromkeys (keys_of ps)
   \<and> (\<forall>k. map_of (foldl scapy_step [] ps) k = (if with_key k ps = [] then None else Some (acc_of (with_key k ps))))"
proof (induction ps rule: rev_induct)
  case Nil
  then show ?case by (simp add: keys_of_def fromkeys_def with_key_def)
next
  case (snoc p ps)
  let ?d = "foldl scapy_step [] ps"
  show ?case
  proof (cases "key_of p")
    case None
    then have "scapy_step ?d p = ?d" by (simp add: key_of_def scapy_step_def)
    with snoc None show ?thesis by (simp add: keys_of_def with_key_def)
  next
    case (Some k)
    then have step: "scapy_step ?d p = dict_set k (acc_packet p (dict_get ?d k (new_acc (sp_time p)))) ?d"
      by (auto simp: key_of_def scapy_step_def Let_def)
    have L: "map_of ?d k' = (if with_key k' ps = [] then None else Some (acc_of (with_key k' ps)))" for k'
      using snoc.IH by blast
    have old: "dict_get ?d k (new_acc (sp_time p)) = (if with_key k ps = [] then new_acc (sp_time p) else acc_of (with_key k ps))"
      by (simp add: dict_get_def L)
    have "dict_has ?d k \<longleftrightarrow> k \<in> set (fromkeys (keys_of ps))" using snoc.IH unfolding dict_has_def by (metis list.set_map)
    then have keys: "map fst (scapy_step ?d p) = fromkeys (keys_of (ps @ [p]))"
      using snoc.IH Some by (simp add: step dict_keys_set keys_of_def fromkeys_snoc)
    have "map_of (scapy_step ?d p) k' = (if with_key k' (ps @ [p]) = [] then None else Some (acc_of (with_key k' (ps @ [p]))))" for k'
      using Some by (simp add: step map_of_dict_set old with_key_def acc_of_snoc L)
    moreover have "dict_wf (scapy_step ?d p)" using snoc.IH by (simp add: step)
    ultimately show ?thesis using keys by simp
  qed
qed

definition row_tuple :: "flow_row \<Rightarrow> fkey" where
  "row_tuple r = (fx_src_ip r, fx_dst_ip r, fx_src_port r, fx_dst_port r, fx_protocol r)"

lemma acc_row_tuple: "row_tuple (acc_row kf) = fst kf"
  by (simp add: acc_row_def row_tuple_def Let_def case_prod_unfold)

lemma acc_row_counts:
  "fx_pkt_count (acc_row kf) = real (fa_pkts (snd kf))" "fx_byte_count (acc_row kf) = real (fa_bytes (snd kf))"
  "fx_timestamp (acc_row kf) = fa_t_start (snd kf)" "fx_syn (acc_row kf) = real (fa_syn (snd kf))"
  "fx_ack (acc_row kf) = real (fa_ack (snd kf))"
  by (simp_all add: acc_row_def Let_def case_prod_unfold)

lemma keys_of_count: "count_list (keys_of ps) k = length (with_key k ps)"
  by (induction ps) (auto simp: keys_of_def with_key_def split: option.splits)

lemma sum_counts: "set ks \<supseteq> set xs \<Longrightarrow> distinct ks \<Longrightarrow> (\<Sum>k\<leftarrow>ks. count_list xs k) = length xs"
  by (metis sum_count_set sum_list_distinct_conv_sum_set List.finite_set)


definition sample_scapy :: "string \<Rightarrow> string \<Rightarrow> real \<Rightarrow> scapy_pkt" where
  "sample_scapy src dst t = \<lparr>sp_ip = Some (src, dst), sp_l4 = NoPorts, sp_time = t, sp_len = 60, sp_dns = None\<rparr>"


section \<open>Labelling\<close>

lemma label_map_lookup:
  assumes "label_map render vs m = Inr m'"
  shows "\<exists>es ks. vs = map JObj es \<and> map (label_key_of render) es = map Inr ks
    \<and> (\<forall>k. map_of m' k = (case map_of (rev (zip ks es)) k of None \<Rightarrow> map_of m k | Some e \<Rightarrow> Some e))"
  using assms
proof (induction vs arbitrary: m)
  case Nil
  then show ?case by (intro exI [of _ "[]"]) simp
next
  case (Cons v vs)
  obtain e k where v: "v = JObj e" and k: "label_key_of render e = Inr k"
    and m': "label_map render vs (dict_set k e m) = Inr m'"
    using Cons.prems by (cases v) (auto simp: bind_result_Inr)
  obtain es ks where IH: "vs = map JObj es" "map (label_key_of render) es = map Inr ks"
    "\<forall>k'. map_of m' k' = (case map_of (rev (zip ks es)) k' of None \<Rightarrow> map_of (dict_set k e m) k' | Some e \<Rightarrow> Some e)"
    using Cons.IH [OF m'] by blast
  show ?case
    by (intro exI [of _ "e # es"] exI [of _ "k # ks"])
      (use IH v k in \<open>auto simp: map_of_append map_of_dict_set map_add_def split: option.splits\<close>)
qed

text \<open>
  Labels change nothing but the label columns: whatever the sidecar holds, the labelled rows
  are the given rows with at most their family, severity and generator replaced; a sidecar
  that cannot be read, or one with any entry that is not an object or has no usable port,
  leaves every row as it was; and in a well-formed sidecar the last entry for a row's
  addresses, port and protocol decides its family.
\<close>

theorem labels_change_only_label_columns:
  "length (apply_labels render data rows) = length rows
   \<and> (\<forall>i<length rows. \<exists>f s g. apply_labels render data rows ! i
        = (rows ! i)\<lparr>fx_family := f, fx_severity := s, fx_generator := g\<rparr>)
   \<and> apply_labels render None rows = rows
   \<and> (\<forall>vs. (\<exists>e. label_map render vs [] = Inl e) \<longrightarrow> apply_labels render (Some (JArr vs)) rows = rows)
   \<and> (\<forall>vs m. label_map render vs [] = Inr m \<longrightarrow>
        (\<exists>es ks. vs = map JObj es \<and> map (label_key_of render) es = map Inr ks
          \<and> (\<forall>i<length rows. fx_family (apply_labels render (Some (JArr vs)) rows ! i)
               = (case map_of (rev (zip ks es)) (row_key (rows ! i)) of
                    None \<Rightarrow> fx_family (rows ! i) | Some e \<Rightarrow> entry_family render e))))"
proof -
  have upd: "\<exists>f s g. r\<lparr>fx_family := a, fx_severity := b, fx_generator := c\<rparr>
      = r\<lparr>fx_family := f, fx_severity := s, fx_generator := g\<rparr>" for r :: flow_row and a b c
    by (intro exI) (rule refl)
  have same: "\<exists>f s g. r = r\<lparr>fx_family := f, fx_severity := s, fx_generator := g\<rparr>" for r :: flow_row
    by (rule exI [of _ "fx_family r"], rule exI [of _ "fx_severity r"], rule exI [of _ "fx_generator r"]) simp
  have row: "\<exists>f s g. label_row render a gm m r = r\<lparr>fx_family := f, fx_severity := s, fx_generator := g\<rparr>" for a gm m r
    unfolding label_row_def Let_def
    by (cases "map_of m (row_key r)"; cases "a \<noteq> [] \<and> a \<noteq> ''BENIGN''")
      (simp_all only: option.case if_True if_False upd same simp_thms)
  have all: "apply_labels render data rows = rows \<or> (\<exists>a gm m. apply_labels render data rows = map (label_row render a gm m) rows)"
    by (auto simp: apply_labels_def Let_def split: option.splits sum.splits)
  have "\<exists>es ks. vs = map JObj es \<and> map (label_key_of render) es = map Inr ks
      \<and> (\<forall>i<length rows. fx_family (apply_labels render (Some (JArr vs)) rows ! i)
           = (case map_of (rev (zip ks es)) (row_key (rows ! i)) of
                None \<Rightarrow> fx_family (rows ! i) | Some e \<Rightarrow> entry_family render e))"
    if m: "label_map render vs [] = Inr m" for vs m
  proof -
    obtain es ks where e: "vs = map JObj es" "map (label_key_of render) es = map Inr ks"
      and l': "\<And>k. map_of m k = (case map_of (rev (zip ks es)) k of None \<Rightarrow> map_of [] k | Some e \<Rightarrow> Some e)"
      using label_map_lookup [OF m] by blast
    have l: "map_of m k = map_of (rev (zip ks es)) k" for k unfolding l' by (simp split: option.split)
    have "fx_family (label_row render [] ''dataset'' m r) = (case map_of (rev (zip ks es)) (row_key r) of
                None \<Rightarrow> fx_family r | Some e \<Rightarrow> entry_family render e)" for r
      by (simp add: label_row_def l Let_def split: option.splits)
    then show ?thesis using e m by (intro exI [of _ es] exI [of _ ks]) (simp add: apply_labels_def)
  qed
  moreover have "apply_labels render (Some (JArr vs)) rows = rows" if "label_map render vs [] = Inl e" for vs e
    using that by (simp add: apply_labels_def)
  moreover have "\<forall>i<length rows. \<exists>f s g. apply_labels render data rows ! i
        = (rows ! i)\<lparr>fx_family := f, fx_severity := s, fx_generator := g\<rparr>"
    using all by (elim disjE exE; intro allI impI; simp only: nth_map row same)
  moreover have "length (apply_labels render data rows) = length rows" using all by auto
  moreover have "apply_labels render None rows = rows" by (simp add: apply_labels_def)
  ultimately show ?thesis by blast
qed

theorem labels_change_only_label_columns_witness:
  "\<exists>r. extract_scapy (Some [sample_scapy ''a'' ''b'' 1]) = Inr [r]
     \<and> fx_family (apply_labels (\<lambda>_. []) (Some (JArr [JNull])) [r] ! 0) = ''BENIGN''"
proof -
  obtain r where r: "extract_scapy (Some [sample_scapy ''a'' ''b'' 1]) = Inr [r]" "fx_family r = ''BENIGN''"
    by (simp add: extract_scapy_def scapy_step_def sample_scapy_def Let_def dict_set_def acc_row_def case_prod_unfold)
  have "\<exists>e. label_map (\<lambda>_. []) [JNull] [] = Inl e" by simp
  then have "apply_labels (\<lambda>_. []) (Some (JArr [JNull])) [r] = [r]"
    using labels_change_only_label_columns [of "\<lambda>_. []" None "[r]"] by blast
  then show ?thesis using r by (intro exI [of _ r]) simp
qed

end
