(* ===== verification/TrafficGen.thy ===== *)
theory TrafficGen
  imports Rng Replay FlowExport Parsers
begin

text \<open>
  The labelled traffic generator of \<^verbatim>\<open>scripts/generate_traffic.py\<close>: the domain generation
  algorithms, the synthetic generators of the seven kinds of traffic, the shims that run an
  external tool instead, the pcap writer and the orchestrator with the files it leaves. Random
  draws are computations over the state of the random generator (\<^verbatim>\<open>Rng\<close>); the clock, the MD5 of a
  text, the parsed source network and the external tools are arguments. Text is ASCII, so its
  encoding is one byte per character.
\<close>

section \<open>Text and bytes\<close>

definition encode :: "string \<Rightarrow> bytes" where
  "encode s = map of_char s"

definition crlf :: string where
  "crlf = [CHR 0x0D, CHR 0x0A]"

definition lower_char :: "char \<Rightarrow> char" where
  "lower_char c = (let n = of_char c :: nat in if 65 \<le> n \<and> n \<le> 90 then char_of (n + 32) else c)"

definition lower :: "string \<Rightarrow> string" where
  "lower s = map lower_char s"

definition is_alpha :: "char \<Rightarrow> bool" where
  "is_alpha c \<longleftrightarrow> (let n = of_char (upper_char c) :: nat in 65 \<le> n \<and> n \<le> 90)"

text \<open>\<^verbatim>\<open>str.title\<close>: \<open>w\<close> tells whether the previous character was a letter.\<close>

fun title_from :: "bool \<Rightarrow> string \<Rightarrow> string" where
  "title_from w [] = []"
| "title_from w (c # s) = (if w then lower_char c else upper_char c) # title_from (is_alpha c) s"

definition py_title :: "string \<Rightarrow> string" where
  "py_title s = title_from False s"

text \<open>\<^verbatim>\<open>base64.b32encode\<close>: groups of five bits, the last padded with zeros, and \<^verbatim>\<open>=\<close> up to a multiple of eight.\<close>

definition byte_bits :: "8 word \<Rightarrow> bool list" where
  "byte_bits b = map (\<lambda>k. bit b (7 - k)) [0..<8]"

fun b32_digits :: "bool list \<Rightarrow> nat list" where
  "b32_digits [] = []"
| "b32_digits (b # bs) =
     foldl (\<lambda>v x. 2 * v + (if x then 1 else 0)) 0 (take 5 ((b # bs) @ replicate 4 False)) # b32_digits (drop 4 bs)"

definition b32_alphabet :: string where
  "b32_alphabet = ''ABCDEFGHIJKLMNOPQRSTUVWXYZ234567''"

definition b32encode :: "bytes \<Rightarrow> string" where
  "b32encode bs = (let s = map (\<lambda>v. b32_alphabet ! v) (b32_digits (concat (map byte_bits bs)))
     in s @ replicate ((8 - length s mod 8) mod 8) (CHR ''=''))"

definition rstrip_eq :: "string \<Rightarrow> string" where
  "rstrip_eq s = rev (dropWhile (\<lambda>c. c = CHR ''='') (rev s))"

text \<open>\<^verbatim>\<open>str(ipaddress.IPv4Address(n))\<close> for \<open>0 \<le> n < 2 ^ 32\<close>.\<close>

definition ipv4_str :: "int \<Rightarrow> string" where
  "ipv4_str n = int_str (n div 16777216) @ ''.'' @ int_str (n div 65536 mod 256) @ ''.''
     @ int_str (n div 256 mod 256) @ ''.'' @ int_str (n mod 256)"

section \<open>Domain generation algorithms\<close>

definition dga_goz :: "'s rng \<Rightarrow> int \<Rightarrow> int \<Rightarrow> ('s, string list) state" where
  "dga_goz R seed n = do {
     rg_seed R seed;
     traverse_list (\<lambda>_. do {
       len \<leftarrow> py_randint R 8 20;
       name \<leftarrow> py_choices R ''abcdefghijklmnopqrstuvwxyz0123456789'' len;
       tld \<leftarrow> py_choice R [''.com'', ''.net'', ''.org'', ''.biz'', ''.info''];
       State_Monad.return (name @ tld) }) [0..<nat n] }"

definition dga_ramnit :: "(string \<Rightarrow> string) \<Rightarrow> string \<Rightarrow> int \<Rightarrow> string list" where
  "dga_ramnit md5 date_seed n = map (\<lambda>i. take 12 (md5 (date_seed @ nat_str i)) @ ''.com'') [0..<nat n]"

definition dga_cryptolocker :: "'s rng \<Rightarrow> int \<Rightarrow> int \<Rightarrow> ('s, string list) state" where
  "dga_cryptolocker R seed n = do {
     rg_seed R seed;
     traverse_list (\<lambda>_. do {
       len \<leftarrow> py_randint R 12 22;
       name \<leftarrow> py_choices R ''abcdefghijklmnopqrstuvwxyz'' len;
       tld \<leftarrow> py_choice R [''com'', ''net'', ''biz''];
       State_Monad.return (name @ ''.'' @ tld) }) [0..<nat n] }"

text \<open>\<^verbatim>\<open>ALL_DGA_FAMILIES.get(family, _dga_goz)\<close> applied.\<close>

definition dga_domains :: "(string \<Rightarrow> string) \<Rightarrow> 's rng \<Rightarrow> string \<Rightarrow> int \<Rightarrow> int \<Rightarrow> ('s, string list) state" where
  "dga_domains md5 R family seed n =
     (if family = ''ramnit'' then State_Monad.return (dga_ramnit md5 (int_str seed) n)
      else if family = ''cryptolocker'' then dga_cryptolocker R seed n
      else dga_goz R seed n)"

section \<open>Labels\<close>

type_synonym raw_pkt = "real \<times> bytes"

definition flow_json :: "string \<Rightarrow> string \<Rightarrow> int \<Rightarrow> int \<Rightarrow> string \<Rightarrow> jval" where
  "flow_json src dst sp dp proto = JObj [(''src_ip'', JStr src), (''dst_ip'', JStr dst),
     (''src_port'', JNum (of_int sp)), (''dst_port'', JNum (of_int dp)), (''protocol'', JStr proto)]"

text \<open>The literal every generator appends; \<open>extra\<close> is its \<^verbatim>\<open>features\<close> entry, where it has one.\<close>

definition label_json ::
    "real \<Rightarrow> jval \<Rightarrow> string \<Rightarrow> string \<Rightarrow> real \<Rightarrow> string \<Rightarrow> string \<Rightarrow> jobj \<Rightarrow> jobj" where
  "label_json ts flow family sev conf gen expl extra =
     [(''timestamp'', JNum ts), (''flow'', flow), (''attack_family'', JStr family), (''severity'', JStr sev),
      (''confidence'', JNum conf), (''generator'', JStr gen), (''generator_mode'', JStr ''fallback''),
      (''explanation'', JStr expl)] @ extra"

section \<open>Synthetic generators\<close>

definition spoof10 :: "'s rng \<Rightarrow> ('s, string) state" where
  "spoof10 R = do { a \<leftarrow> py_randint R 0 255; b \<leftarrow> py_randint R 0 255; c \<leftarrow> py_randint R 1 254;
     State_Monad.return (''10.'' @ int_str a @ ''.'' @ int_str b @ ''.'' @ int_str c) }"

text \<open>\<open>None\<close> once an address beyond the last IPv4 address raises.\<close>

fun sample_hosts :: "'s rng \<Rightarrow> int \<Rightarrow> int \<Rightarrow> nat \<Rightarrow> ('s, string list option) state" where
  "sample_hosts R base hosts 0 = State_Monad.return (Some [])"
| "sample_hosts R base hosts (Suc n) = do {
     k \<leftarrow> py_randint R 0 (hosts - 1);
     if 2 ^ 32 \<le> base + 1 + k then State_Monad.return None
     else do { r \<leftarrow> sample_hosts R base hosts n;
               State_Monad.return (map_option (\<lambda>hs. ipv4_str (base + 1 + k) # hs) r) } }"

text \<open>The source network: its first address and its size, or \<open>None\<close> when the text is not a network.\<close>

definition flood_hosts :: "'s rng \<Rightarrow> (int \<times> int) option \<Rightarrow> int \<Rightarrow> ('s, string list) state" where
  "flood_hosts R net n = (let m = nat (min 500 (max n 10)) in do {
     r \<leftarrow> (case net of None \<Rightarrow> State_Monad.return None
          | Some (base, num) \<Rightarrow> sample_hosts R base (max 1 (num - 2)) m);
     (case r of Some hs \<Rightarrow> State_Monad.return hs | None \<Rightarrow> traverse_list (\<lambda>_. spoof10 R) [0..<m]) })"

definition syn_flood_body ::
    "'s rng \<Rightarrow> real \<Rightarrow> string \<Rightarrow> int \<Rightarrow> string list \<Rightarrow> nat \<Rightarrow> ('s, raw_pkt \<times> jobj option) state" where
  "syn_flood_body R t target port hosts i = do {
     src \<leftarrow> py_choice R hosts;
     sport \<leftarrow> py_randint R 1024 65535;
     let ts = t + real i * (1 / 1000);
     let pkt = encode (''scapy_syn_'' @ src @ '':'' @ int_str sport @ ''->'' @ target @ '':'' @ int_str port);
     let lbl = label_json ts (flow_json src target sport port ''TCP'') ''SYN_FLOOD'' ''CRITICAL'' (97 / 100) ''scapy''
           ''High-rate SYN with no SYN-ACK (half-open flood)'' [];
     State_Monad.return ((ts, pkt), if i mod 10 = 0 then Some lbl else None) }"

definition gen_syn_flood ::
    "'s rng \<Rightarrow> real \<Rightarrow> string \<Rightarrow> int \<Rightarrow> int \<Rightarrow> (int \<times> int) option \<Rightarrow> ('s, raw_pkt list \<times> jobj list) state" where
  "gen_syn_flood R t target port n net = do {
     hosts \<leftarrow> flood_hosts R net n;
     gen_each (syn_flood_body R t target port hosts) [0..<nat n] }"

definition gen_udp_flood ::
    "'s rng \<Rightarrow> real \<Rightarrow> string \<Rightarrow> int \<Rightarrow> int \<Rightarrow> ('s, raw_pkt list \<times> jobj list) state" where
  "gen_udp_flood R t target port n =
     gen_each (\<lambda>i. do {
       src \<leftarrow> spoof10 R;
       sport \<leftarrow> py_randint R 1024 65535;
       len \<leftarrow> py_randint R 512 1400;
       let ts = t + real i * (8 / 10000);
       let lbl = label_json ts (flow_json src target sport port ''UDP'') ''UDP_FLOOD'' ''HIGH'' (93 / 100) ''scapy''
             ''High-rate UDP flood targeting service port'' [];
       State_Monad.return ((ts, replicate (nat len) 0x58), if i mod 10 = 0 then Some lbl else None) }) [0..<nat n]"

definition gen_slowloris ::
    "'s rng \<Rightarrow> real \<Rightarrow> string \<Rightarrow> int \<Rightarrow> int \<Rightarrow> int \<Rightarrow> ('s, raw_pkt list \<times> jobj list) state" where
  "gen_slowloris R t target port connections hold_secs =
     gen_each (\<lambda>i. do {
       a \<leftarrow> py_randint R 0 5;
       b \<leftarrow> py_randint R 1 254;
       sport \<leftarrow> py_randint R 1024 65535;
       let src = ''192.168.'' @ int_str a @ ''.'' @ int_str b;
       let ts = t + real i * (1 / 10);
       let header = encode (''GET / HTTP/1.1'' @ crlf @ ''Host: '' @ target @ crlf @ ''X-'');
       let lbl = label_json ts (flow_json src target sport port ''TCP'') ''SLOWLORIS'' ''HIGH'' (88 / 100) ''scapy_slowloris''
             (''Partial HTTP header held open for '' @ int_str hold_secs @ ''s to exhaust server threads'')
             [(''features'', JObj [(''connections'', JNum (of_int connections)), (''hold_secs'', JNum (of_int hold_secs))])];
       State_Monad.return ((ts, header), Some lbl) }) [0..<nat connections]"

definition char_entropy :: "string \<Rightarrow> real" where
  "char_entropy s =
     - (\<Sum>c\<leftarrow>remdups s. (real (count_list s c) / real (length s)) * log 2 (real (count_list s c) / real (length s)))"

definition gen_dns_tunnel ::
    "'s rng \<Rightarrow> real \<Rightarrow> string \<Rightarrow> int \<Rightarrow> nat \<Rightarrow> real \<Rightarrow> ('s, raw_pkt list \<times> jobj list) state" where
  "gen_dns_tunnel R t target n payload_size interval_s =
     gen_each (\<lambda>i. do {
       payload \<leftarrow> rg_urandom R payload_size;
       h \<leftarrow> py_randint R 2 254;
       sport \<leftarrow> py_randint R 1024 65535;
       let encoded = take 40 (rstrip_eq (lower (b32encode payload)));
       let qname = encoded @ ''.evil-c2.example.com'';
       let ent = char_entropy encoded;
       let ts = t + real i * interval_s;
       let lbl = label_json ts (flow_json (''10.0.0.'' @ int_str h) target sport 53 ''UDP'') ''DNS_TUNNEL'' ''CRITICAL''
             (95 / 100) ''scapy_dns'' (''High-entropy DNS query subdomain (entropy='' @ fmt_fixed 2 ent @ '')'')
             [(''features'', JObj [(''query_len'', JNum (real (length qname))), (''entropy'', JNum (py_round ent 3)),
                (''payload_size_bytes'', JNum (real payload_size))])];
       State_Monad.return ((ts, encode qname), Some lbl) }) [0..<nat n]"

definition gen_dga_beacon ::
    "(string \<Rightarrow> string) \<Rightarrow> 's rng \<Rightarrow> real \<Rightarrow> real \<Rightarrow> string \<Rightarrow> int \<Rightarrow> string \<Rightarrow> real \<Rightarrow> real
      \<Rightarrow> ('s, raw_pkt list \<times> jobj list) state" where
  "gen_dga_beacon md5 R now t c2 n family interval_s jitter = do {
     domains \<leftarrow> dga_domains md5 R family \<lfloor>now / 86400\<rfloor> n;
     gen_each (\<lambda>(i, domain). do {
       jf \<leftarrow> rg_gauss R 1 jitter;
       h \<leftarrow> py_randint R 10 50;
       sport \<leftarrow> py_randint R 49152 65535;
       let ts = t + real i * interval_s * jf;
       let src = ''192.168.1.'' @ int_str h;
       let pkt = encode (''GET /beacon HTTP/1.1'' @ crlf @ ''Host: '' @ domain @ crlf @ crlf);
       let lbl = label_json ts (flow_json src c2 sport 443 ''TCP'') ''C2_BEACON'' ''CRITICAL'' (94 / 100) (''dga_'' @ family)
             (''DGA-generated C2 beacon to '' @ domain @ '' (family='' @ family @ '')'')
             [(''features'', JObj [(''iat_cv'', JNum jitter), (''mean_iat'', JNum interval_s), (''dga_family'', JStr family),
                (''domain'', JStr domain)])];
       State_Monad.return ((ts, pkt), Some lbl) }) (List.enumerate 0 (take (nat n) domains)) }"

text \<open>The scanned address and port.\<close>

definition scan_target :: "'s rng \<Rightarrow> string \<Rightarrow> string \<Rightarrow> ('s, string \<times> int) state" where
  "scan_target R target scan_type =
     (if scan_type = ''horizontal'' then do { dst \<leftarrow> spoof10 R; State_Monad.return (dst, 80) }
      else if scan_type = ''vertical'' then do { dport \<leftarrow> py_randint R 1 65535; State_Monad.return (target, dport) }
      else do { dst \<leftarrow> spoof10 R; dport \<leftarrow> py_randint R 1 65535; State_Monad.return (dst, dport) })"

definition gen_port_scan ::
    "'s rng \<Rightarrow> real \<Rightarrow> string \<Rightarrow> int \<Rightarrow> string \<Rightarrow> ('s, raw_pkt list \<times> jobj list) state" where
  "gen_port_scan R t target n scan_type =
     gen_each (\<lambda>i. do {
       h \<leftarrow> py_randint R 1 10;
       sport \<leftarrow> py_randint R 1024 65535;
       (dst, dport) \<leftarrow> scan_target R target scan_type;
       let ts = t + real i * (3 / 1000);
       let lbl = label_json ts (flow_json (''192.168.200.'' @ int_str h) dst sport dport ''TCP'') ''PORT_SCAN'' ''MEDIUM''
             (82 / 100) ''scapy'' (py_title scan_type @ '' port scan detected'')
             [(''features'', JObj [(''scan_type'', JStr scan_type), (''unique_ports'', JNum (of_int n))])];
       State_Monad.return ((ts, encode ''SYN_PROBE''), if i mod 15 = 0 then Some lbl else None) }) [0..<nat n]"

definition benign_services :: "(int \<times> string) list" where
  "benign_services = [(80, ''HTTP''), (443, ''HTTPS''), (22, ''SSH''), (8080, ''HTTP-ALT'')]"

definition benign_data :: "'s rng \<Rightarrow> string \<Rightarrow> string \<Rightarrow> ('s, bytes) state" where
  "benign_data R target svc =
     (if starts_with ''HTTP'' svc then
        State_Monad.return (encode (''GET / HTTP/1.1'' @ crlf @ ''Host: '' @ target @ crlf @ crlf))
      else do { b \<leftarrow> py_randint R 65 90; len \<leftarrow> py_randint R 64 512;
                State_Monad.return (replicate (nat len) (word_of_int b)) })"

definition gen_benign :: "'s rng \<Rightarrow> real \<Rightarrow> string \<Rightarrow> int \<Rightarrow> ('s, raw_pkt list \<times> jobj list) state" where
  "gen_benign R t target n =
     gen_each (\<lambda>i. do {
       h \<leftarrow> py_randint R 10 250;
       sport \<leftarrow> py_randint R 1024 65535;
       (dport, svc) \<leftarrow> py_choice R benign_services;
       data \<leftarrow> benign_data R target svc;
       gap \<leftarrow> py_uniform R (5 / 100) (5 / 10);
       let lbl = label_json (t + real i * (5 / 100)) (flow_json (''192.168.0.'' @ int_str h) target sport dport ''TCP'') ''BENIGN''
             ''LOW'' (1 / 10) ''scapy'' (''Benign '' @ svc @ '' connection stream'') [];
       State_Monad.return ((t + real i * gap, data), if i mod 20 = 0 then Some lbl else None) }) [0..<nat n]"

end
