(* ===== verification/TrafficOut.thy ===== *)
theory TrafficOut
  imports TrafficGen
begin

text \<open>
  The output half of \<^verbatim>\<open>scripts/generate_traffic.py\<close>: the shims for external tools, the pcap writer
  byte for byte, the orchestrator and the dataset directories it writes. Shown are the round
  trip of the capture through a decoder of the documented format, what the replay loader reads
  back from the labels, the addresses and domains that can be drawn, and what a run in tool mode
  leaves on disk.
\<close>

section \<open>Tool shims\<close>

text \<open>
  What \<^verbatim>\<open>shutil.which\<close>, \<^verbatim>\<open>subprocess.run\<close> and \<^verbatim>\<open>subprocess.Popen\<close> report: an exit code, or an
  exception (a timeout, a missing permission).
\<close>

datatype run_outcome = Exited int | RunRaises

record tools =
  tl_which :: "string \<Rightarrow> bool"
  tl_run :: "string list \<Rightarrow> int \<Rightarrow> run_outcome"
  tl_popen :: "string list \<Rightarrow> bool"

definition run_ok :: "run_outcome \<Rightarrow> bool" where
  "run_ok r = (case r of Exited _ \<Rightarrow> True | RunRaises \<Rightarrow> False)"

definition run_checked :: "run_outcome \<Rightarrow> bool" where
  "run_checked r = (case r of Exited c \<Rightarrow> c = 0 | RunRaises \<Rightarrow> False)"

definition run_iperf3 :: "tools \<Rightarrow> string \<Rightarrow> int \<Rightarrow> bool" where
  "run_iperf3 T target duration =
     (if \<not> tl_which T ''iperf3'' then False
      else run_checked (tl_run T [''iperf3'', ''-c'', target, ''-t'', int_str duration, ''-P'', ''4''] (duration + 5)))"

definition run_hping3_syn :: "tools \<Rightarrow> string \<Rightarrow> int \<Rightarrow> int \<Rightarrow> int \<Rightarrow> bool" where
  "run_hping3_syn T target port duration rate =
     (if \<not> tl_which T ''hping3'' then False
      else run_ok (tl_run T [''hping3'', ''-S'', ''-p'', int_str port, ''--flood'', ''--rand-source'', ''-c'',
             int_str (rate * duration), target] (duration + 5)))"

definition run_hping3_udp :: "tools \<Rightarrow> string \<Rightarrow> int \<Rightarrow> int \<Rightarrow> int \<Rightarrow> bool" where
  "run_hping3_udp T target port duration rate =
     (if \<not> tl_which T ''hping3'' then False
      else run_ok (tl_run T [''hping3'', ''--udp'', ''-p'', int_str port, ''--flood'', ''-c'', int_str (rate * duration), target]
             (duration + 5)))"

definition run_slowhttptest :: "tools \<Rightarrow> string \<Rightarrow> int \<Rightarrow> int \<Rightarrow> int \<Rightarrow> bool" where
  "run_slowhttptest T target port connections duration =
     (if tl_which T ''slowhttptest'' then
        run_ok (tl_run T [''slowhttptest'', ''-c'', int_str connections, ''-H'', ''-g'', ''-o'', ''slowhttp'', ''-i'', ''10'', ''-r'',
          ''200'', ''-t'', ''GET'', ''-u'', ''http://'' @ target @ '':'' @ int_str port @ ''/'', ''-l'', int_str duration] (duration + 5))
      else if tl_which T ''slowloris'' then
        run_ok (tl_run T [''slowloris'', target, ''-p'', int_str port, ''-s'', int_str connections] (duration + 5))
      else False)"

definition run_dnscat2 :: "tools \<Rightarrow> string \<Rightarrow> bool" where
  "run_dnscat2 T target =
     (if tl_which T ''dnscat'' then tl_popen T [''dnscat'', ''--dns'', ''server='' @ target @ '',port=53'']
      else if tl_which T ''iodine'' then tl_popen T [''iodine'', ''-f'', target, ''tunnel.example.com'']
      else False)"

section \<open>The pcap writer\<close>

definition le_bytes :: "nat \<Rightarrow> int \<Rightarrow> bytes" where
  "le_bytes n v = map (\<lambda>k. word_of_int (v div 256 ^ k)) [0..<n]"

definition pack_u32s :: "int list \<Rightarrow> bytes result" where
  "pack_u32s vs = (if \<forall>v\<in>set vs. 0 \<le> v \<and> v < 2 ^ 32 then Inr (concat (map (le_bytes 4) vs)) else Inl StructError)"

definition pcap_header :: bytes where
  "pcap_header = le_bytes 4 0xa1b2c3d4 @ le_bytes 2 2 @ le_bytes 2 4 @ le_bytes 4 0 @ le_bytes 4 0 @ le_bytes 4 65535
     @ le_bytes 4 101"

definition ts_sec :: "real \<Rightarrow> int" where
  "ts_sec ts = py_int ts"

definition ts_usec :: "real \<Rightarrow> int" where
  "ts_usec ts = py_int ((ts - of_int (ts_sec ts)) * 1000000)"

text \<open>What the loop adds to the file, and whether a header field out of range raised.\<close>

fun write_records :: "raw_pkt list \<Rightarrow> bytes \<times> unit result" where
  "write_records [] = ([], Inr ())"
| "write_records ((ts, data) # ps) =
     (let ln = int (length data)
      in case pack_u32s [ts_sec ts, ts_usec ts, ln, ln] of
           Inl e \<Rightarrow> ([], Inl e)
         | Inr h \<Rightarrow> (let (bs, r) = write_records ps in (h @ take 65535 data @ bs, r)))"

definition write_pcap :: "raw_pkt list \<Rightarrow> bytes \<times> unit result" where
  "write_pcap ps = (let (bs, r) = write_records ps in (pcap_header @ bs, r))"

section \<open>The orchestrator\<close>

definition ATTACKS :: "(string, string \<times> severity) dict" where
  "ATTACKS =
     [(''syn_flood'', (''SYN Flood (hping3 / Scapy)'', CRITICAL)),
      (''udp_flood'', (''UDP Flood (hping3 / Scapy)'', HIGH)),
      (''slowloris'', (''Slow HTTP Exhaustion (slowhttptest / Scapy)'', HIGH)),
      (''dns_tunnel'', (''DNS Tunneling (dnscat2 / iodine / Scapy)'', CRITICAL)),
      (''dga_beacon'', (''DGA C2 Beaconing (Scapy algorithmic)'', CRITICAL)),
      (''port_scan'', (''Port Scan (Scapy)'', MEDIUM)),
      (''benign'', (''Benign baseline (iperf3 / Scapy)'', LOW))]"

record gen_args =
  ga_target :: string
  ga_duration :: int
  ga_port :: int
  ga_src_range :: "(int \<times> int) option"
  ga_dga_family :: string
  ga_connections :: int
  ga_rate :: int

definition used_real :: "tools \<Rightarrow> gen_args \<Rightarrow> string \<Rightarrow> bool" where
  "used_real T a attack =
     (if ga_duration a \<le> 0 then False
      else if attack = ''syn_flood'' then run_hping3_syn T (ga_target a) (ga_port a) (ga_duration a) (ga_rate a)
      else if attack = ''udp_flood'' then run_hping3_udp T (ga_target a) (ga_port a) (ga_duration a) (ga_rate a)
      else if attack = ''slowloris'' then run_slowhttptest T (ga_target a) (ga_port a) (ga_connections a) (ga_duration a)
      else if attack = ''dns_tunnel'' then run_dnscat2 T (ga_target a)
      else if attack = ''benign'' then run_iperf3 T (ga_target a) (ga_duration a)
      else False)"

text \<open>The synthetic traffic of an attack; an unknown name generates nothing.\<close>

definition fallback ::
    "(string \<Rightarrow> string) \<Rightarrow> 's rng \<Rightarrow> real \<Rightarrow> real \<Rightarrow> gen_args \<Rightarrow> string \<Rightarrow> ('s, raw_pkt list \<times> jobj list) state" where
  "fallback md5 R now t a attack =
     (let n = ga_duration a * ga_rate a; target = ga_target a
      in if attack = ''syn_flood'' then gen_syn_flood R t target (ga_port a) n (ga_src_range a)
         else if attack = ''udp_flood'' then gen_udp_flood R t target (ga_port a) n
         else if attack = ''slowloris'' then gen_slowloris R t target (ga_port a) (ga_connections a) (ga_duration a)
         else if attack = ''dns_tunnel'' then gen_dns_tunnel R t target (min n 500) 48 (1 / 2)
         else if attack = ''dga_beacon'' then gen_dga_beacon md5 R now t target (min n 200) (ga_dga_family a) 30 (1 / 10)
         else if attack = ''port_scan'' then gen_port_scan R t target n ''hybrid''
         else if attack = ''benign'' then gen_benign R t target n
         else State_Monad.return ([], []))"

definition label_file :: "string \<Rightarrow> string \<Rightarrow> string \<Rightarrow> jobj list \<Rightarrow> jval" where
  "label_file attack target mode labels =
     JObj [(''attack'', JStr attack), (''target'', JStr target), (''generator_mode'', JStr mode),
           (''labels'', JArr (map (\<lambda>l. JObj (dict_set ''generator_mode'' (JStr mode) l)) labels))]"

text \<open>The directory of one attack: what \<^verbatim>\<open>packets.pcap\<close> and \<^verbatim>\<open>labels.json\<close> hold, when they exist.\<close>

record dataset_dir =
  dd_pcap :: "bytes option"
  dd_labels :: "jval option"

definition save_dataset ::
    "string \<Rightarrow> string \<Rightarrow> string \<Rightarrow> raw_pkt list \<Rightarrow> jobj list \<Rightarrow> dataset_dir \<Rightarrow> unit result \<times> dataset_dir" where
  "save_dataset attack target mode pkts labels d =
     (let (r, d) = (if pkts = [] then (Inr (), d)
                    else (let (bs, r) = write_pcap pkts in (r, d\<lparr>dd_pcap := Some bs\<rparr>)))
      in case r of Inl e \<Rightarrow> (Inl e, d)
         | Inr _ \<Rightarrow> (Inr (), d\<lparr>dd_labels := Some (label_file attack target mode labels)\<rparr>))"

definition generate ::
    "tools \<Rightarrow> (string \<Rightarrow> string) \<Rightarrow> 's rng \<Rightarrow> real \<Rightarrow> real \<Rightarrow> gen_args \<Rightarrow> string \<Rightarrow> dataset_dir
      \<Rightarrow> ('s, unit result \<times> dataset_dir) state" where
  "generate T md5 R now t a attack d =
     (if used_real T a attack then
        State_Monad.return (save_dataset attack (ga_target a) ''real'' [] [] d)
      else do { (pkts, labels) \<leftarrow> fallback md5 R now t a attack;
                State_Monad.return (save_dataset attack (ga_target a) ''fallback'' pkts labels d) })"

text \<open>The loop of \<^verbatim>\<open>main\<close>: an exception ends it. \<open>clock\<close> gives the two clock readings of an attack.\<close>

fun generate_all ::
    "tools \<Rightarrow> (string \<Rightarrow> string) \<Rightarrow> 's rng \<Rightarrow> (string \<Rightarrow> real \<times> real) \<Rightarrow> gen_args \<Rightarrow> string list \<Rightarrow> (string \<Rightarrow> dataset_dir)
      \<Rightarrow> ('s, unit result \<times> (string \<Rightarrow> dataset_dir)) state" where
  "generate_all T md5 R clock a [] dirs = State_Monad.return (Inr (), dirs)"
| "generate_all T md5 R clock a (atk # atks) dirs = do {
     (r, d) \<leftarrow> generate T md5 R (fst (clock atk)) (snd (clock atk)) a atk (dirs atk);
     (case r of Inl e \<Rightarrow> State_Monad.return (Inl e, dirs(atk := d))
      | Inr _ \<Rightarrow> generate_all T md5 R clock a atks (dirs(atk := d))) }"

definition attacks_of :: "string \<Rightarrow> string list" where
  "attacks_of arg = (if arg = ''all'' then map fst ATTACKS else [arg])"

section \<open>The capture is read back\<close>

text \<open>
  A decoder of the pcap format, independent of the writer: little-endian header fields, then
  per record the seconds, the microseconds, the captured length, the original length and that
  many bytes. \<open>None\<close> is a file the format does not allow.
\<close>

definition le_int :: "bytes \<Rightarrow> int" where
  "le_int bs = foldr (\<lambda>b v. uint b + 256 * v) bs 0"

function pcap_records :: "bytes \<Rightarrow> (int \<times> int \<times> bytes) list option" where
  "pcap_records bs =
     (if bs = [] then Some []
      else if length bs < 16 then None
      else (let sec = le_int (take 4 bs); usec = le_int (take 4 (drop 4 bs));
                incl = nat (le_int (take 4 (drop 8 bs))); body = drop 16 bs
            in if length body < incl then None
               else map_option (\<lambda>rs. (sec, usec, take incl body) # rs) (pcap_records (drop incl body))))"
  by pat_completeness auto
termination by (relation "measure length") auto

declare pcap_records.simps [simp del]

definition pcap_read :: "bytes \<Rightarrow> (int \<times> int \<times> bytes) list option" where
  "pcap_read bs =
     (if length bs < 24 \<or> le_int (take 4 bs) \<noteq> 0xa1b2c3d4 then None else pcap_records (drop 24 bs))"

lemma le_bytes_Suc: "le_bytes (Suc n) v = word_of_int v # le_bytes n (v div 256)"
proof -
  have "v div (256 * 256 ^ k) = v div 256 div 256 ^ k" for k :: nat
    by (simp add: zdiv_zmult2_eq)
  then show ?thesis
    unfolding le_bytes_def by (subst map_upt_Suc) simp
qed

lemma length_le_bytes [simp]: "length (le_bytes n v) = n"
  by (simp add: le_bytes_def)

lemma le_int_le_bytes:
  "0 \<le> v \<Longrightarrow> v < 256 ^ n \<Longrightarrow> le_int (le_bytes n v) = v"
proof (induction n arbitrary: v)
  case 0
  then show ?case by (simp add: le_int_def le_bytes_def)
next
  case (Suc n)
  have "v div 256 < 256 ^ n" using Suc.prems by (simp add: div_less_iff_less_mult mult.commute)
  with Suc have IH: "le_int (le_bytes n (v div 256)) = v div 256" by (simp add: pos_imp_zdiv_nonneg_iff)
  have "uint (word_of_int v :: 8 word) = v mod 256" by (simp add: uint_word_of_int)
  with IH show ?case
    by (simp add: le_bytes_Suc le_int_def)
qed

lemma pcap_records_Cons:
  assumes "0 \<le> sec" "sec < 2 ^ 32" "0 \<le> usec" "usec < 2 ^ 32" "length data < 2 ^ 32"
  shows "pcap_records (le_bytes 4 sec @ le_bytes 4 usec @ le_bytes 4 (int (length data)) @ le_bytes 4 (int (length data)) @ data @ bs)
     = map_option (\<lambda>rs. (sec, usec, data) # rs) (pcap_records bs)"
proof -
  have "le_int (le_bytes 4 sec) = sec" "le_int (le_bytes 4 usec) = usec"
    "le_int (le_bytes 4 (int (length data))) = int (length data)"
    using assms by (auto intro!: le_int_le_bytes)
  moreover have "le_bytes 4 sec \<noteq> []" by (metis length_le_bytes list.size(3) zero_neq_numeral)
  ultimately show ?thesis
    by (subst pcap_records.simps) (simp add: Let_def)
qed

lemma ts_fields:
  assumes "0 \<le> ts" and "ts < 2 ^ 32"
  shows "0 \<le> ts_sec ts" "ts_sec ts < 2 ^ 32" "0 \<le> ts_usec ts" "ts_usec ts < 1000000"
    "0 \<le> ts - (of_int (ts_sec ts) + of_int (ts_usec ts) / 1000000)"
    "ts - (of_int (ts_sec ts) + of_int (ts_usec ts) / 1000000) < 1 / 1000000"
proof -
  define f where "f = (ts - of_int \<lfloor>ts\<rfloor>) * 1000000"
  have "0 \<le> ts - of_int \<lfloor>ts\<rfloor>" "ts - of_int \<lfloor>ts\<rfloor> < 1" by linarith+
  then have f: "0 \<le> f" "f < 1000000" by (simp_all add: f_def)
  have sec: "ts_sec ts = \<lfloor>ts\<rfloor>" using assms by (simp add: ts_sec_def py_int_def)
  have usec: "ts_usec ts = \<lfloor>f\<rfloor>" using f by (simp add: ts_usec_def sec py_int_def f_def)
  show "0 \<le> ts_sec ts" "ts_sec ts < 2 ^ 32" using assms by (simp_all add: sec floor_less_iff)
  show "0 \<le> ts_usec ts" "ts_usec ts < 1000000" using f by (simp_all add: usec floor_less_iff)
  have "of_int \<lfloor>f\<rfloor> \<le> f" "f < of_int \<lfloor>f\<rfloor> + 1" by linarith+
  moreover have "ts = of_int \<lfloor>ts\<rfloor> + f / 1000000" by (simp add: f_def field_simps)
  ultimately show "0 \<le> ts - (of_int (ts_sec ts) + of_int (ts_usec ts) / 1000000)"
    "ts - (of_int (ts_sec ts) + of_int (ts_usec ts) / 1000000) < 1 / 1000000"
    unfolding sec usec by linarith+
qed

definition pkt_fits :: "raw_pkt \<Rightarrow> bool" where
  "pkt_fits p \<longleftrightarrow> 0 \<le> fst p \<and> fst p < 2 ^ 32 \<and> length (snd p) \<le> 65535"

definition pkt_view :: "raw_pkt \<Rightarrow> int \<times> int \<times> bytes" where
  "pkt_view p = (ts_sec (fst p), ts_usec (fst p), snd p)"

lemma write_records_fits:
  assumes "list_all pkt_fits ps"
  shows "snd (write_records ps) = Inr () \<and> pcap_records (fst (write_records ps)) = Some (map pkt_view ps)"
  using assms
proof (induction ps)
  case Nil
  show ?case by (simp add: pcap_records.simps)
next
  case (Cons p ps)
  obtain ts data where p: "p = (ts, data)" by (cases p)
  from Cons.prems have ts: "0 \<le> ts" "ts < 2 ^ 32" and len: "length data \<le> 65535"
    by (auto simp: p pkt_fits_def)
  note f = ts_fields [OF ts]
  let ?h = "le_bytes 4 (ts_sec ts) @ le_bytes 4 (ts_usec ts) @ le_bytes 4 (int (length data)) @ le_bytes 4 (int (length data))"
  have h: "pack_u32s [ts_sec ts, ts_usec ts, int (length data), int (length data)] = Inr ?h"
    using f len by (simp add: pack_u32s_def)
  obtain bs r where rest: "write_records ps = (bs, r)" by fastforce
  have "write_records (p # ps) = (?h @ data @ bs, r)"
    using len by (simp add: p h rest Let_def)
  moreover have "pcap_records (?h @ data @ bs) = map_option (\<lambda>rs. (ts_sec ts, ts_usec ts, data) # rs) (pcap_records bs)"
    using pcap_records_Cons [of "ts_sec ts" "ts_usec ts" data bs] f len by simp
  ultimately show ?case
    using Cons.IH Cons.prems by (simp add: rest p pkt_view_def)
qed

lemma pcap_read_header: "pcap_read (pcap_header @ bs) = pcap_records bs"
  by (simp add: pcap_read_def pcap_header_def le_int_le_bytes)

text \<open>
  C23. A capture written by the traffic generator is a well-formed pcap file: when the timestamps
  fit 32-bit seconds and no packet exceeds the snapshot length, no header field raises, and
  decoding the file gives back every packet in order with its data, at a time that is at most
  one microsecond before the original.
\<close>

theorem pcap_write_read:
  assumes "list_all pkt_fits ps"
  shows "snd (write_pcap ps) = Inr ()
    \<and> pcap_read (fst (write_pcap ps)) = Some (map pkt_view ps)
    \<and> (\<forall>p\<in>set ps. 0 \<le> fst p - (of_int (ts_sec (fst p)) + of_int (ts_usec (fst p)) / 1000000)
        \<and> fst p - (of_int (ts_sec (fst p)) + of_int (ts_usec (fst p)) / 1000000) < 1 / 1000000)"
proof -
  have "\<forall>p\<in>set ps. 0 \<le> fst p \<and> fst p < 2 ^ 32" using assms by (auto simp: list_all_iff pkt_fits_def)
  then show ?thesis
    using write_records_fits [OF assms] ts_fields(5,6)
    by (simp add: write_pcap_def case_prod_beta Let_def pcap_read_header)
qed

theorem pcap_write_read_witness:
  "pcap_read (fst (write_pcap [(3 / 2, [0x58, 0x59]), (2, [])])) = Some [(1, 500000, [0x58, 0x59]), (2, 0, [])]"
  using pcap_write_read [of "[(3 / 2, [0x58, 0x59]), (2, [])]"]
  by (simp add: pkt_fits_def pkt_view_def ts_sec_def ts_usec_def py_int_def)

section \<open>What the replay loader reads back\<close>

definition attack_family :: "string \<Rightarrow> string" where
  "attack_family attack = (if attack = ''dga_beacon'' then ''C2_BEACON'' else upper attack)"

text \<open>A label of a family, with the confidence the generators give that family.\<close>

definition family_label :: "string \<Rightarrow> jobj \<Rightarrow> bool" where
  "family_label fam l \<longleftrightarrow> (\<exists>ts src dst sp dp proto sev gen expl extra.
     l = label_json ts (flow_json src dst sp dp proto) fam sev (dict_get confidence_map fam 0) gen expl extra
     \<and> (extra = [] \<or> (\<exists>fs. extra = [(''features'', JObj fs)])))"

lemma gen_each_labels:
  assumes "\<And>x. pred_state (\<lambda>r. \<forall>l. snd r = Some l \<longrightarrow> Q l) (body x)"
  shows "pred_state (\<lambda>r. \<forall>l\<in>set (snd r). Q l) (gen_each body xs)"
  by (rule pred_mono [OF pred_gen_each [where P = "\<lambda>x r. \<forall>l. snd r = Some l \<longrightarrow> Q l"]])
     (auto simp: assms map_filter_def list_all2_conv_all_nth in_set_conv_nth)

lemma gen_each_label_count:
  assumes "\<And>x. pred_state (\<lambda>r. snd r \<noteq> None) (body x)"
  shows "pred_state (\<lambda>r. length (snd r) = length xs) (gen_each body xs)"
proof (rule pred_mono [OF pred_gen_each [where P = "\<lambda>x r. snd r \<noteq> None"]])
  fix r
  assume "\<exists>rs. list_all2 (\<lambda>x r. snd r \<noteq> None) xs rs \<and> r = (map fst rs, List.map_filter snd rs)"
  then obtain rs where "list_all2 (\<lambda>x r. snd r \<noteq> None) xs rs" "r = (map fst rs, List.map_filter snd rs)" by blast
  then show "length (snd r) = length xs"
    by (induction xs rs arbitrary: r rule: list_all2_induct) (auto simp: map_filter_def)
qed (rule assms)

lemma family_labelI:
  "conf = dict_get confidence_map fam 0 \<Longrightarrow> extra = [] \<or> (\<exists>fs. extra = [(''features'', JObj fs)])
    \<Longrightarrow> family_label fam (label_json ts (flow_json src dst sp dp proto) fam sev conf gen expl extra)"
  unfolding family_label_def by blast

lemmas gen_defs = gen_syn_flood_def syn_flood_body_def gen_udp_flood_def gen_slowloris_def gen_dns_tunnel_def gen_dga_beacon_def
  gen_port_scan_def gen_benign_def

lemma generator_labels:
  shows "pred_state (\<lambda>r. \<forall>l\<in>set (snd r). family_label ''SYN_FLOOD'' l) (gen_syn_flood R t target port n net)"
    and "pred_state (\<lambda>r. \<forall>l\<in>set (snd r). family_label ''UDP_FLOOD'' l) (gen_udp_flood R t target port n)"
    and "pred_state (\<lambda>r. \<forall>l\<in>set (snd r). family_label ''SLOWLORIS'' l) (gen_slowloris R t target port n h)"
    and "pred_state (\<lambda>r. \<forall>l\<in>set (snd r). family_label ''DNS_TUNNEL'' l) (gen_dns_tunnel R t target n k iv)"
    and "pred_state (\<lambda>r. \<forall>l\<in>set (snd r). family_label ''C2_BEACON'' l) (gen_dga_beacon md5 R now t target n fam iv j)"
    and "pred_state (\<lambda>r. \<forall>l\<in>set (snd r). family_label ''PORT_SCAN'' l) (gen_port_scan R t target n ty)"
    and "pred_state (\<lambda>r. \<forall>l\<in>set (snd r). family_label ''BENIGN'' l) (gen_benign R t target n)"
  unfolding gen_defs Let_def
  by (intro rng_intros gen_each_labels; simp add: family_labelI confidence_map_def dict_get_def)+

lemma upper_attacks:
  "upper ''syn_flood'' = ''SYN_FLOOD''" "upper ''udp_flood'' = ''UDP_FLOOD''" "upper ''slowloris'' = ''SLOWLORIS''"
  "upper ''dns_tunnel'' = ''DNS_TUNNEL''" "upper ''port_scan'' = ''PORT_SCAN''" "upper ''benign'' = ''BENIGN''"
  by (simp_all add: upper_def upper_char_def char_of_def bit_Suc_0_iff)

lemma fallback_labels:
  assumes "attack \<in> fst ` set ATTACKS"
  shows "pred_state (\<lambda>r. \<forall>l\<in>set (snd r). family_label (attack_family attack) l) (fallback md5 R now t a attack)"
proof -
  from assms have "attack \<in> {''syn_flood'', ''udp_flood'', ''slowloris'', ''dns_tunnel'', ''dga_beacon'', ''port_scan'', ''benign''}"
    by (auto simp: ATTACKS_def)
  then show ?thesis
    by (auto simp: fallback_def attack_family_def generator_labels upper_attacks)
qed

lemma py_int_of_int [simp]: "py_int (of_int k) = k"
  by (simp add: py_int_def)

text \<open>The record the loader makes of a label.\<close>

definition loads_as :: "string \<Rightarrow> jobj \<Rightarrow> flow_record \<Rightarrow> bool" where
  "loads_as fam l r \<longleftrightarrow> fr_family r = fam \<and> fr_severity r = dict_get replay_severity_map fam MEDIUM
     \<and> fr_confidence r = dict_get confidence_map fam 0 \<and> map_of l ''timestamp'' = Some (JNum (fr_timestamp r))
     \<and> map_of l ''flow'' = Some (flow_json (fr_src_ip r) (fr_dst_ip r) (fr_src_port r) (fr_dst_port r) (fr_protocol r))
     \<and> (\<exists>fs. fr_features r = JObj fs)"

lemma label_loads:
  assumes "family_label fam l" and "fam \<noteq> ''BENIGN''" and "spaces_to_underscores (upper fam) = fam"
  shows "\<exists>r. json_record render now f (JObj (dict_set ''generator_mode'' (JStr mode) l)) = Inr (Some r) \<and> loads_as fam l r"
proof -
  from assms(1) obtain ts src dst sp dp proto sev gen expl extra where
    l: "l = label_json ts (flow_json src dst sp dp proto) fam sev (dict_get confidence_map fam 0) gen expl extra"
    and extra: "extra = [] \<or> (\<exists>fs. extra = [(''features'', JObj fs)])"
    unfolding family_label_def by blast
  from extra show ?thesis
    using assms(2,3)
    by (elim disjE exE)
       (simp_all add: l label_json_def flow_json_def json_record_def jget_def dict_get_def dict_set_def loads_as_def)
qed

lemma benign_label_skipped:
  assumes "family_label ''BENIGN'' l"
  shows "json_record render now f (JObj (dict_set ''generator_mode'' (JStr mode) l)) = Inr None"
proof -
  have "spaces_to_underscores (upper ''BENIGN'') = ''BENIGN''"
    by (simp add: upper_def upper_char_def spaces_to_underscores_def)
  then show ?thesis
    using assms by (auto simp: family_label_def label_json_def json_record_def jget_def dict_get_def dict_set_def)
qed

lemma load_rows_some:
  assumes "\<And>x. x \<in> set xs \<Longrightarrow> \<exists>r. f (g x) = Inr (Some r) \<and> P x r"
  shows "list_all2 P xs (load_rows f (map g xs))"
  using assms
proof (induction xs)
  case (Cons x xs)
  from Cons.prems [of x] obtain r where "f (g x) = Inr (Some r)" "P x r" by auto
  with Cons show ?case by simp
qed simp

lemma load_rows_none:
  assumes "\<And>x. x \<in> set xs \<Longrightarrow> f (g x) = Inr None"
  shows "load_rows f (map g xs) = []"
  using assms by (induction xs) auto

lemma load_label_file:
  "load_json_labels render now f (Some (label_file attack target mode labels))
     = load_rows (json_record render now f) (map (\<lambda>l. JObj (dict_set ''generator_mode'' (JStr mode) l)) labels)"
  by (simp add: load_json_labels_def label_file_def label_entries_def jget_def dict_get_def)

lemma attack_families:
  assumes "attack \<in> fst ` set ATTACKS" and "attack \<noteq> ''benign''"
  shows "attack_family attack \<noteq> ''BENIGN''" "spaces_to_underscores (upper (attack_family attack)) = attack_family attack"
    "dict_get replay_severity_map (attack_family attack) MEDIUM = snd (the (map_of ATTACKS attack))"
proof -
  have "attack \<in> {''syn_flood'', ''udp_flood'', ''slowloris'', ''dns_tunnel'', ''dga_beacon'', ''port_scan''}"
    using assms by (auto simp: ATTACKS_def)
  then have fam: "(attack, attack_family attack) \<in> {(''syn_flood'', ''SYN_FLOOD''), (''udp_flood'', ''UDP_FLOOD''),
      (''slowloris'', ''SLOWLORIS''), (''dns_tunnel'', ''DNS_TUNNEL''), (''dga_beacon'', ''C2_BEACON''), (''port_scan'', ''PORT_SCAN'')}"
    by (elim insertE emptyE; simp add: attack_family_def upper_attacks)
  then show "attack_family attack \<noteq> ''BENIGN''"
    by (elim insertE emptyE Pair_inject; simp only:) simp_all
  from fam show "spaces_to_underscores (upper (attack_family attack)) = attack_family attack"
    by (elim insertE emptyE Pair_inject; simp add: upper_def upper_char_def spaces_to_underscores_def)
  from fam show "dict_get replay_severity_map (attack_family attack) MEDIUM = snd (the (map_of ATTACKS attack))"
    by (elim insertE emptyE Pair_inject; simp add: replay_severity_map_def dict_get_def ATTACKS_def)
qed

text \<open>
  The ground truth survives the way through the label file: of the labels a synthetic
  generator produces, the replay loader makes exactly one record each, in order, with the label's
  time, flow and confidence, the family of the attack, and the severity the attack is listed
  with. Labels of benign traffic are all skipped.
\<close>

theorem generated_labels_load:
  assumes attack: "attack \<in> fst ` set ATTACKS"
  shows "let labels = snd (fst (run_state (fallback md5 R now t a attack) s));
             recs = load_json_labels render clock f (Some (label_file attack (ga_target a) ''fallback'' labels))
         in if attack = ''benign'' then recs = []
            else list_all2 (loads_as (attack_family attack)) labels recs
              \<and> (\<forall>r\<in>set recs. fr_severity r = snd (the (map_of ATTACKS attack)))"
proof -
  define labels where "labels = snd (fst (run_state (fallback md5 R now t a attack) s))"
  define recs where "recs = load_json_labels render clock f (Some (label_file attack (ga_target a) ''fallback'' labels))"
  have fam: "\<forall>l\<in>set labels. family_label (attack_family attack) l"
    unfolding labels_def using fallback_labels [OF attack] by (rule pred_state_run_state)
  show ?thesis
  proof (cases "attack = ''benign''")
    case True
    then have "attack_family attack = ''BENIGN''"
      by (simp add: attack_family_def upper_attacks)
    with fam have "recs = []"
      unfolding recs_def load_label_file by (intro load_rows_none benign_label_skipped) simp
    with True show ?thesis by (simp add: Let_def recs_def labels_def)
  next
    case False
    note f = attack_families [OF attack False]
    have l: "list_all2 (loads_as (attack_family attack)) labels recs"
      unfolding recs_def load_label_file using fam f(1,2) by (intro load_rows_some label_loads) auto
    then have "\<forall>r\<in>set recs. fr_severity r = snd (the (map_of ATTACKS attack))"
      using f(3) by (auto simp: list_all2_conv_all_nth in_set_conv_nth loads_as_def)
    with l False show ?thesis by (simp add: Let_def recs_def labels_def)
  qed
qed

lemma slowloris_labels_all: "pred_state (\<lambda>r. length (snd r) = nat n) (gen_slowloris R t target port n h)"
proof -
  have "pred_state (\<lambda>r. length (snd r) = length [0..<nat n]) (gen_slowloris R t target port n h)"
    unfolding gen_slowloris_def Let_def by (intro gen_each_label_count rng_intros) simp
  then show ?thesis by simp
qed

definition sample_args :: gen_args where
  "sample_args = \<lparr>ga_target = ''10.9.9.9'', ga_duration = 1, ga_port = 80, ga_src_range = Some (167772160, 16777216),
     ga_dga_family = ''gameover_zeus'', ga_connections = 3, ga_rate = 2\<rparr>"

theorem generated_labels_load_witness:
  "length (load_json_labels (\<lambda>_. []) 0 ''labels.json''
     (Some (label_file ''slowloris'' ''10.9.9.9'' ''fallback'' (snd (fst (run_state (fallback id lcg 0 0 sample_args ''slowloris'') 7)))))) = 3"
proof -
  have "length (snd (fst (run_state (fallback id lcg 0 0 sample_args ''slowloris'') 7))) = 3"
    using pred_state_run_state [OF slowloris_labels_all, of lcg 0 "''10.9.9.9''" 80 3 1 7]
    by (simp add: fallback_def sample_args_def)
  then show ?thesis
    using generated_labels_load [of "''slowloris''" id lcg 0 0 sample_args 7 "\<lambda>_. []" 0 "''labels.json''"]
    by (auto simp: ATTACKS_def Let_def sample_args_def dest: list_all2_lengthD)
qed

section \<open>Spoofed sources\<close>

lemma sample_hosts_range:
  assumes "rng_ok R" and "1 \<le> k" and "base + k < 2 ^ 32"
  shows "pred_state (\<lambda>r. \<exists>hs. r = Some hs \<and> length hs = n \<and> set hs \<subseteq> ipv4_str ` {base + 1 .. base + k}) (sample_hosts R base k n)"
proof (induction n)
  case 0
  show ?case by (simp add: pred_return)
next
  case (Suc n)
  show ?case
    unfolding sample_hosts.simps
  proof (rule pred_bind [OF randint_range [OF assms(1), of 0 "k - 1"]])
    show "0 \<le> k - 1" using assms by simp
    fix x assume x: "0 \<le> x \<and> x \<le> k - 1"
    then have "\<not> 2 ^ 32 \<le> base + 1 + x" and "base + 1 + x \<in> {base + 1 .. base + k}" using assms by auto
    then show "pred_state (\<lambda>r. \<exists>hs. r = Some hs \<and> length hs = Suc n \<and> set hs \<subseteq> ipv4_str ` {base + 1 .. base + k})
        (if 2 ^ 32 \<le> base + 1 + x then State_Monad.return None
         else do { r \<leftarrow> sample_hosts R base k n;
                   State_Monad.return (map_option (\<lambda>hs. ipv4_str (base + 1 + x) # hs) r) })"
      by (simp del: not_le) (rule pred_map_mono [OF Suc.IH], auto)
  qed
qed

lemma flood_hosts_range:
  assumes "rng_ok R" and "1 \<le> max 1 (num - 2)" and "base + max 1 (num - 2) < 2 ^ 32"
  shows "pred_state (\<lambda>hs. hs \<noteq> [] \<and> set hs \<subseteq> ipv4_str ` {base + 1 .. base + max 1 (num - 2)}) (flood_hosts R (Some (base, num)) n)"
  unfolding flood_hosts_def Let_def option.case prod.case
proof (rule pred_bind [OF sample_hosts_range [OF assms]], elim exE conjE)
  fix r hs
  assume r: "r = Some hs" and len: "length hs = nat (min 500 (max n 10))"
    and sub: "set hs \<subseteq> ipv4_str ` {base + 1 .. base + max 1 (num - 2)}"
  from len have "hs \<noteq> []" by auto
  with sub show "pred_state (\<lambda>hs. hs \<noteq> [] \<and> set hs \<subseteq> ipv4_str ` {base + 1 .. base + max 1 (num - 2)})
      (case r of Some hs \<Rightarrow> State_Monad.return hs | None \<Rightarrow> traverse_list (\<lambda>_. spoof10 R) [0..<nat (min 500 (max n 10))])"
    by (simp add: r pred_return)
qed

definition sent_from :: "int set \<Rightarrow> string \<Rightarrow> int \<Rightarrow> jobj \<Rightarrow> bool" where
  "sent_from A target port l \<longleftrightarrow> (\<exists>k\<in>A. \<exists>sp\<in>{1024 .. 65535}.
     map_of l ''flow'' = Some (flow_json (ipv4_str k) target sp port ''TCP''))"

lemma syn_flood_body_sources:
  assumes "rng_ok R" and "hosts \<noteq> []" and "set hosts \<subseteq> ipv4_str ` A"
  shows "pred_state (\<lambda>r. \<forall>l. snd r = Some l \<longrightarrow> sent_from A target port l) (syn_flood_body R t target port hosts i)"
  unfolding syn_flood_body_def Let_def
proof (rule pred_bind [OF choice_in [OF assms(1,2)]], rule pred_map_mono [OF randint_range [OF assms(1)]])
  fix src and sport :: int
  assume "src \<in> set hosts" and "1024 \<le> sport \<and> sport \<le> 65535"
  moreover from this assms(3) obtain k where "k \<in> A" "src = ipv4_str k" by blast
  ultimately have "sent_from A target port (label_json ts (flow_json src target sport port ''TCP'') fam sev conf gen expl [])"
    for ts fam sev conf gen expl
    unfolding sent_from_def label_json_def by (intro bexI [of _ k] bexI [of _ sport]) simp_all
  then show "\<forall>l. snd ((t + real i * (1 / 1000),
        encode (''scapy_syn_'' @ src @ '':'' @ int_str sport @ ''->'' @ target @ '':'' @ int_str port)),
      if i mod 10 = 0 then Some (label_json (t + real i * (1 / 1000)) (flow_json src target sport port ''TCP'')
        ''SYN_FLOOD'' ''CRITICAL'' (97 / 100) ''scapy'' ''High-rate SYN with no SYN-ACK (half-open flood)'' []) else None) = Some l
      \<longrightarrow> sent_from A target port l"
    by (simp split: if_split)
qed simp

lemma syn_flood_sources:
  assumes "rng_ok R" and "base + max 1 (num - 2) < 2 ^ 32"
  shows "pred_state (\<lambda>r. \<forall>l\<in>set (snd r). sent_from {base + 1 .. base + max 1 (num - 2)} target port l)
    (gen_syn_flood R t target port n (Some (base, num)))"
  unfolding gen_syn_flood_def
  using assms by (intro pred_bind [OF flood_hosts_range [OF assms(1)]] gen_each_labels syn_flood_body_sources) auto

text \<open>
  The spoofed sources of a synthetic SYN flood are host addresses of the requested network:
  for a network of at least three addresses inside the IPv4 space, the source of every label lies
  strictly between the network and the broadcast address, its port is not a privileged one, and
  it is sent to the target port.
\<close>

theorem syn_flood_sources_in_network:
  assumes "rng_ok R" and "3 \<le> num" and "base + num \<le> 2 ^ 32"
  shows "\<forall>l\<in>set (snd (fst (run_state (gen_syn_flood R t target port n (Some (base, num))) s))).
    \<exists>k\<in>{base + 1 .. base + num - 2}. \<exists>sp\<in>{1024 .. 65535}.
      map_of l ''flow'' = Some (flow_json (ipv4_str k) target sp port ''TCP'')"
proof -
  have m: "base + max 1 (num - 2) = base + num - 2" using assms by simp
  then have "base + max 1 (num - 2) < 2 ^ 32" using assms by simp
  from syn_flood_sources [OF assms(1) this, of target port t n]
  have "pred_state (\<lambda>r. \<forall>l\<in>set (snd r). sent_from {base + 1 .. base + num - 2} target port l)
      (gen_syn_flood R t target port n (Some (base, num)))" by (simp only: m)
  then show ?thesis unfolding sent_from_def by (rule pred_state_run_state)
qed

theorem syn_flood_sources_in_network_witness:
  "\<forall>l\<in>set (snd (fst (run_state (gen_syn_flood lcg 0 ''10.9.9.9'' 80 20 (Some (167772160, 16777216))) 7))).
    \<exists>k\<in>{167772161 .. 184549374}. \<exists>sp\<in>{1024 .. 65535}.
      map_of l ''flow'' = Some (flow_json (ipv4_str k) ''10.9.9.9'' sp 80 ''TCP'')"
  using syn_flood_sources_in_network [OF lcg_ok, of 16777216 167772160 0 "''10.9.9.9''" 80 20 7] by simp

text \<open>
  A network of one address has no host to draw, and the sources of the flood are then the address
  after it, outside the requested network.
\<close>

lemma int_str_octets:
  "0 \<le> a \<Longrightarrow> CHR ''.'' \<notin> set (int_str a)"
  using nat_str_digits [of "CHR ''.''" "nat a"] by (auto simp: int_str_def)

lemma int_str_inj: "0 \<le> a \<Longrightarrow> 0 \<le> b \<Longrightarrow> int_str a = int_str b \<longleftrightarrow> a = b"
  by (auto simp: int_str_def nat_str_inj)

lemma ipv4_str_inj:
  assumes "0 \<le> m" "0 \<le> n" "ipv4_str m = ipv4_str n"
  shows "m = n"
proof -
  have d: "CHR ''.'' \<notin> set (int_str (x div 16777216))" "CHR ''.'' \<notin> set (int_str (x div 65536 mod 256))"
    "CHR ''.'' \<notin> set (int_str (x div 256 mod 256))" if "0 \<le> x" for x
    using that by (simp_all add: int_str_octets pos_imp_zdiv_nonneg_iff)
  have "m div 16777216 = n div 16777216 \<and> m div 65536 mod 256 = n div 65536 mod 256
      \<and> m div 256 mod 256 = n div 256 mod 256 \<and> m mod 256 = n mod 256"
    using assms d [OF assms(1)] d [OF assms(2)]
    by (simp add: ipv4_str_def append_sep_eq int_str_inj pos_imp_zdiv_nonneg_iff)
  moreover have "x = ((x div 16777216 * 256 + x div 65536 mod 256) * 256 + x div 256 mod 256) * 256 + x mod 256" for x :: int
  proof -
    have "x div 16777216 = x div 65536 div 256" "x div 65536 = x div 256 div 256"
      by (simp_all add: zdiv_zmult2_eq [symmetric])
    then show ?thesis by (simp only: div_mult_mod_eq)
  qed
  ultimately show ?thesis by metis
qed

lemma single_address_flood_leaves_network:
  assumes "rng_ok R" and "0 \<le> base" and "base + 1 < 2 ^ 32"
    and "l \<in> set (snd (fst (run_state (gen_syn_flood R t target port n (Some (base, 1))) s)))"
  shows "\<exists>sp. map_of l ''flow'' = Some (flow_json (ipv4_str (base + 1)) target sp port ''TCP'')
    \<and> ipv4_str (base + 1) \<notin> ipv4_str ` {base ..< base + 1}"
proof -
  have "sent_from {base + 1 .. base + 1} target port l"
    using pred_state_run_state [OF syn_flood_sources [OF assms(1), of base 1 target port t n], of s] assms(3,4) by simp
  then show ?thesis
    using ipv4_str_inj [of "base + 1" base] assms(2) by (auto simp: sent_from_def)
qed

section \<open>Generated domains\<close>

lemma bind_seed:
  "rng_ok R \<Longrightarrow> run_state (State_Monad.bind (rg_seed R n) f) s = run_state (State_Monad.bind (rg_seed R n) f) s'"
  using seed_forgets [of R n s s'] by simp

definition name_chars :: string where
  "name_chars = ''abcdefghijklmnopqrstuvwxyz0123456789''"

text \<open>A host name with one label of \<open>lo\<close> to \<open>hi\<close> letters or digits below a top-level domain.\<close>

definition domain_ok :: "nat \<Rightarrow> nat \<Rightarrow> string \<Rightarrow> bool" where
  "domain_ok lo hi d \<longleftrightarrow> (\<exists>name tld. d = name @ ''.'' @ tld \<and> lo \<le> length name \<and> length name \<le> hi
     \<and> set name \<subseteq> set name_chars \<and> tld \<in> {''com'', ''net'', ''org'', ''biz'', ''info''})"

lemma domain_ok_mono: "domain_ok lo hi d \<Longrightarrow> lo' \<le> lo \<Longrightarrow> hi \<le> hi' \<Longrightarrow> domain_ok lo' hi' d"
  unfolding domain_ok_def by (elim exE conjE) (intro exI conjI; (assumption | linarith))

lemma goz_domains:
  assumes "rng_ok R"
  shows "pred_state (\<lambda>ds. length ds = nat n \<and> (\<forall>d\<in>set ds. domain_ok 8 20 d)) (dga_goz R seed n)"
proof -
  have "pred_state (domain_ok 8 20) (do {
       len \<leftarrow> py_randint R 8 20;
       name \<leftarrow> py_choices R name_chars len;
       tld \<leftarrow> py_choice R [''.com'', ''.net'', ''.org'', ''.biz'', ''.info''];
       State_Monad.return (name @ tld) })"
  proof (rule pred_bind [OF randint_range [OF assms]], simp, rule pred_bind [OF choices_in [OF assms]],
      simp add: name_chars_def, rule pred_map_mono [OF choice_in [OF assms]], simp)
    fix len :: int and name tld :: string
    assume "8 \<le> len \<and> len \<le> 20" "length name = nat len \<and> set name \<subseteq> set name_chars"
      "tld \<in> set [''.com'', ''.net'', ''.org'', ''.biz'', ''.info'']"
    then show "domain_ok 8 20 (name @ tld)"
      unfolding domain_ok_def by (intro exI [of _ name] exI [of _ "tl tld"]) auto
  qed
  from pred_traverse_all [OF this, of "[0..<nat n]"] show ?thesis
    unfolding dga_goz_def name_chars_def by (intro pred_bind_any) simp
qed

lemma cryptolocker_domains:
  assumes "rng_ok R"
  shows "pred_state (\<lambda>ds. length ds = nat n \<and> (\<forall>d\<in>set ds. domain_ok 12 22 d)) (dga_cryptolocker R seed n)"
proof -
  have "pred_state (domain_ok 12 22) (do {
       len \<leftarrow> py_randint R 12 22;
       name \<leftarrow> py_choices R ''abcdefghijklmnopqrstuvwxyz'' len;
       tld \<leftarrow> py_choice R [''com'', ''net'', ''biz''];
       State_Monad.return (name @ ''.'' @ tld) })"
  proof (rule pred_bind [OF randint_range [OF assms]], simp, rule pred_bind [OF choices_in [OF assms]],
      simp, rule pred_map_mono [OF choice_in [OF assms]], simp)
    fix len :: int and name tld :: string
    assume "12 \<le> len \<and> len \<le> 22" and name: "length name = nat len \<and> set name \<subseteq> set ''abcdefghijklmnopqrstuvwxyz''"
      and "tld \<in> set [''com'', ''net'', ''biz'']"
    moreover have "set ''abcdefghijklmnopqrstuvwxyz'' \<subseteq> set name_chars" by (simp add: name_chars_def)
    ultimately show "domain_ok 12 22 (name @ ''.'' @ tld)"
      unfolding domain_ok_def by (intro exI [of _ name] exI [of _ tld]) auto
  qed
  from pred_traverse_all [OF this, of "[0..<nat n]"] show ?thesis
    unfolding dga_cryptolocker_def by (intro pred_bind_any) simp
qed

text \<open>
  The generated rendezvous domains do not depend on the machine: two beacons of the same
  family on the same day use the same list, whatever the state of their random generators, and
  in the two families that draw at random each domain is one valid host label of 8 to 22 letters
  and digits below a known top-level domain.
\<close>

theorem dga_domains_rendezvous:
  fixes now now' :: real
  assumes "rng_ok R" and "\<lfloor>now / 86400\<rfloor> = \<lfloor>now' / 86400\<rfloor>"
  shows "fst (run_state (dga_domains md5 R family \<lfloor>now / 86400\<rfloor> n) s)
      = fst (run_state (dga_domains md5 R family \<lfloor>now' / 86400\<rfloor> n) s')
    \<and> length (fst (run_state (dga_domains md5 R family \<lfloor>now / 86400\<rfloor> n) s)) = nat n
    \<and> (family \<noteq> ''ramnit'' \<longrightarrow> list_all (domain_ok 8 22) (fst (run_state (dga_domains md5 R family \<lfloor>now / 86400\<rfloor> n) s)))"
proof -
  let ?seed = "\<lfloor>now / 86400\<rfloor>"
  have eq: "run_state (dga_goz R ?seed n) s = run_state (dga_goz R ?seed n) s'"
    "run_state (dga_cryptolocker R ?seed n) s = run_state (dga_cryptolocker R ?seed n) s'"
    unfolding dga_goz_def dga_cryptolocker_def by (rule bind_seed [OF assms(1)])+
  show ?thesis
    using eq pred_state_run_state [OF goz_domains [OF assms(1), where n = n and seed = ?seed], of s]
      pred_state_run_state [OF cryptolocker_domains [OF assms(1), where n = n and seed = ?seed], of s] assms(2)
    by (auto simp: dga_domains_def dga_ramnit_def list_all_iff intro: domain_ok_mono)
qed

theorem dga_domains_rendezvous_witness:
  "fst (run_state (dga_domains id lcg ''cryptolocker'' \<lfloor>(86400 :: real) / 86400\<rfloor> 5) 3)
    = fst (run_state (dga_domains id lcg ''cryptolocker'' \<lfloor>(100000 :: real) / 86400\<rfloor> 5) 99)"
proof -
  have "\<lfloor>(100000 :: real) / 86400\<rfloor> = 1" by (simp add: floor_eq_iff)
  then show ?thesis
    using dga_domains_rendezvous [OF lcg_ok, of 86400 100000 id "''cryptolocker''" 5 3 99] by simp
qed

section \<open>Runs\<close>

text \<open>
  C25. A tool that ran is taken at its word: when hping3 is installed and its process ends with any
  exit code, failure included, a SYN flood run reports success, marks its label file as real,
  leaves whatever capture an earlier run wrote, and the loader finds no ground truth in it.
\<close>

theorem failed_tool_erases_ground_truth:
  assumes "tl_which T ''hping3''" and "\<And>cmd timeout. tl_run T cmd timeout = Exited code" and "0 < ga_duration a"
  shows "run_state (generate T md5 R now t a ''syn_flood'' d) s
      = ((Inr (), d\<lparr>dd_labels := Some (label_file ''syn_flood'' (ga_target a) ''real'' [])\<rparr>), s)
    \<and> load_json_labels render clock f (Some (label_file ''syn_flood'' (ga_target a) ''real'' [])) = []"
  using assms
  by (simp add: generate_def used_real_def run_hping3_syn_def run_ok_def save_dataset_def load_label_file)

theorem failed_tool_erases_ground_truth_witness:
  "dd_pcap (snd (fst (run_state (generate \<lparr>tl_which = (\<lambda>_. True), tl_run = (\<lambda>_ _. Exited 1), tl_popen = (\<lambda>_. False)\<rparr> id lcg 0 0
     sample_args ''syn_flood'' \<lparr>dd_pcap = Some [1], dd_labels = None\<rparr>) 7))) = Some [1]"
  using failed_tool_erases_ground_truth
    [of "\<lparr>tl_which = (\<lambda>_. True), tl_run = (\<lambda>_ _. Exited 1), tl_popen = (\<lambda>_. False)\<rparr>" 1 sample_args id lcg 0 0 "\<lparr>dd_pcap = Some [1], dd_labels = None\<rparr>" 7]
  by (simp add: sample_args_def)

definition pkt_within :: "real \<Rightarrow> real \<Rightarrow> nat \<Rightarrow> raw_pkt \<Rightarrow> bool" where
  "pkt_within t hi len p \<longleftrightarrow> t \<le> fst p \<and> fst p \<le> t + hi \<and> length (snd p) \<le> len"

lemma gen_each_pkts:
  assumes "\<And>x. x \<in> set xs \<Longrightarrow> pred_state (\<lambda>r. Q (fst r)) (body x)"
  shows "pred_state (\<lambda>r. \<forall>p\<in>set (fst r). Q p) (gen_each body xs)"
  by (rule pred_mono [OF pred_gen_each [where P = "\<lambda>x r. Q (fst r)"]])
     (auto simp: assms list_all2_conv_all_nth in_set_conv_nth, metis fst_conv)

lemma length_nat_str: "n < 10 ^ k \<Longrightarrow> 0 < k \<Longrightarrow> length (nat_str n) \<le> k"
proof (induction n arbitrary: k rule: nat_str.induct)
  case (1 n)
  show ?case
  proof (cases "n < 10")
    case True
    with 1 show ?thesis by (simp add: nat_str.simps [of n])
  next
    case False
    with 1 obtain m where k: "k = Suc m" "0 < m" by (cases k; cases "k - 1") auto
    with 1 False have "length (nat_str (n div 10)) \<le> m"
      by (intro "1.IH") (auto simp: div_less_iff_less_mult mult.commute)
    with False k show ?thesis by (simp add: nat_str.simps [of n])
  qed
qed

lemma length_octet: "0 \<le> i \<Longrightarrow> i < 256 \<Longrightarrow> length (int_str i) \<le> 3"
  using length_nat_str [of "nat i" 3] by (simp add: int_str_def nat_less_iff)

lemma length_port: "0 \<le> i \<Longrightarrow> i \<le> 65535 \<Longrightarrow> length (int_str i) \<le> 5"
  using length_nat_str [of "nat i" 5] by (simp add: int_str_def nat_less_iff)

lemma length_ipv4_str:
  assumes "0 \<le> n" and "n < 2 ^ 32"
  shows "length (ipv4_str n) \<le> 15"
proof -
  have "n div 16777216 < 256" using assms by simp
  then show ?thesis
    using length_octet [of "n div 16777216"] length_octet [of "n div 65536 mod 256"] length_octet [of "n div 256 mod 256"]
      length_octet [of "n mod 256"] assms
    by (simp add: ipv4_str_def pos_imp_zdiv_nonneg_iff)
qed

lemma spoof10_length:
  assumes "rng_ok R"
  shows "pred_state (\<lambda>src. length src \<le> 15) (spoof10 R)"
  unfolding spoof10_def
proof (rule pred_bind [OF randint_range [OF assms]], simp, rule pred_bind [OF randint_range [OF assms]], simp,
    rule pred_map_mono [OF randint_range [OF assms]], simp)
  fix a b c :: int
  assume "0 \<le> a \<and> a \<le> 255" "0 \<le> b \<and> b \<le> 255" "1 \<le> c \<and> c \<le> 254"
  then show "length (''10.'' @ int_str a @ ''.'' @ int_str b @ ''.'' @ int_str c) \<le> 15"
    using length_octet [of a] length_octet [of b] length_octet [of c] by simp
qed

lemma sample_hosts_length:
  assumes "rng_ok R" and "1 \<le> k" and "0 \<le> base"
  shows "pred_state (\<lambda>r. \<forall>hs. r = Some hs \<longrightarrow> length hs = n \<and> (\<forall>h\<in>set hs. length h \<le> 15)) (sample_hosts R base k n)"
proof (induction n)
  case 0
  show ?case by (simp add: pred_return)
next
  case (Suc n)
  show ?case
    unfolding sample_hosts.simps
  proof (rule pred_bind [OF randint_range [OF assms(1), of 0 "k - 1"]])
    show "0 \<le> k - 1" using assms by simp
    fix x assume x: "0 \<le> x \<and> x \<le> k - 1"
    show "pred_state (\<lambda>r. \<forall>hs. r = Some hs \<longrightarrow> length hs = Suc n \<and> (\<forall>h\<in>set hs. length h \<le> 15))
        (if 2 ^ 32 \<le> base + 1 + x then State_Monad.return None
         else do { r \<leftarrow> sample_hosts R base k n;
                   State_Monad.return (map_option (\<lambda>hs. ipv4_str (base + 1 + x) # hs) r) })"
    proof (cases "2 ^ 32 \<le> base + 1 + x")
      case False
      then have "length (ipv4_str (base + 1 + x)) \<le> 15" using x assms by (intro length_ipv4_str) auto
      then show ?thesis using False by (simp del: not_le) (rule pred_map_mono [OF Suc.IH], auto)
    qed (simp add: pred_return)
  qed
qed

lemma flood_hosts_length:
  assumes "rng_ok R" and "\<And>base num. net = Some (base, num) \<Longrightarrow> 0 \<le> base"
  shows "pred_state (\<lambda>hs. hs \<noteq> [] \<and> (\<forall>h\<in>set hs. length h \<le> 15)) (flood_hosts R net n)"
proof -
  let ?m = "nat (min 500 (max n 10))"
  have m: "0 < ?m" by simp
  have "pred_state (\<lambda>r. \<forall>hs. r = Some hs \<longrightarrow> length hs = ?m \<and> (\<forall>h\<in>set hs. length h \<le> 15))
      (case net of None \<Rightarrow> State_Monad.return None | Some (base, num) \<Rightarrow> sample_hosts R base (max 1 (num - 2)) ?m)"
    using sample_hosts_length [OF assms(1)] assms(2) by (auto simp: pred_return split: option.splits)
  then show ?thesis
    unfolding flood_hosts_def Let_def
  proof (rule pred_bind)
    fix r :: "string list option"
    assume r: "\<forall>hs. r = Some hs \<longrightarrow> length hs = ?m \<and> (\<forall>h\<in>set hs. length h \<le> 15)"
    have "pred_state (\<lambda>hs. length hs = length [0..<?m] \<and> (\<forall>h\<in>set hs. length h \<le> 15)) (traverse_list (\<lambda>_. spoof10 R) [0..<?m])"
      by (rule pred_traverse_all) (rule spoof10_length [OF assms(1)])
    then have "pred_state (\<lambda>hs. hs \<noteq> [] \<and> (\<forall>h\<in>set hs. length h \<le> 15)) (traverse_list (\<lambda>_. spoof10 R) [0..<?m])"
      by (rule pred_mono) (use m in auto)
    with r m show "pred_state (\<lambda>hs. hs \<noteq> [] \<and> (\<forall>h\<in>set hs. length h \<le> 15))
        (case r of Some hs \<Rightarrow> State_Monad.return hs | None \<Rightarrow> traverse_list (\<lambda>_. spoof10 R) [0..<?m])"
      by (cases r) (auto intro: pred_return)
  qed
qed

lemma step_within: "i < n \<Longrightarrow> 0 \<le> x \<Longrightarrow> x \<le> 1 \<Longrightarrow> t \<le> t + real i * x \<and> t + real i * x \<le> t + real n"
  using mult_mono [of "real i" "real n" x 1] by simp

lemma generator_pkts:
  assumes ok: "rng_ok R"
  shows "(\<And>base num. net = Some (base, num) \<Longrightarrow> 0 \<le> base)
      \<Longrightarrow> pred_state (\<lambda>r. \<forall>p\<in>set (fst r). pkt_within t (real (nat n)) (2000 + length target + length (int_str port)) p)
            (gen_syn_flood R t target port n net)"
    and "pred_state (\<lambda>r. \<forall>p\<in>set (fst r). pkt_within t (real (nat n)) 2000 p) (gen_udp_flood R t target port n)"
    and "pred_state (\<lambda>r. \<forall>p\<in>set (fst r). pkt_within t (real (nat n)) (2000 + length target) p) (gen_slowloris R t target port n h)"
    and "pred_state (\<lambda>r. \<forall>p\<in>set (fst r). pkt_within t (real (nat n)) 2000 p) (gen_dns_tunnel R t target n k (1 / 2))"
    and "pred_state (\<lambda>r. \<forall>p\<in>set (fst r). pkt_within t (real (nat n)) 2000 p) (gen_port_scan R t target n ty)"
    and "pred_state (\<lambda>r. \<forall>p\<in>set (fst r). pkt_within t (real (nat n)) (2000 + length target) p) (gen_benign R t target n)"
proof -
  note step = step_within [of _ "nat n"]
  have set_upt_iff: "i \<in> set [0..<nat n] \<longleftrightarrow> i < nat n" for i by simp
  show "pred_state (\<lambda>r. \<forall>p\<in>set (fst r). pkt_within t (real (nat n)) (2000 + length target + length (int_str port)) p)
      (gen_syn_flood R t target port n net)" if "\<And>base num. net = Some (base, num) \<Longrightarrow> 0 \<le> base"
    unfolding gen_syn_flood_def
  proof (rule pred_bind [OF flood_hosts_length [OF ok that]], assumption, rule gen_each_pkts, unfold syn_flood_body_def Let_def,
      rule pred_bind [OF choice_in [OF ok]], blast, rule pred_map_mono [OF randint_range [OF ok]], simp)
    fix hosts :: "string list" and i and src :: string and sport :: int
    assume "hosts \<noteq> [] \<and> (\<forall>h\<in>set hosts. length h \<le> 15)" "src \<in> set hosts" "1024 \<le> sport \<and> sport \<le> 65535" "i \<in> set [0..<nat n]"
    then show "pkt_within t (real (nat n)) (2000 + length target + length (int_str port)) (fst ((t + real i * (1 / 1000),
          encode (''scapy_syn_'' @ src @ '':'' @ int_str sport @ ''->'' @ target @ '':'' @ int_str port)),
        if i mod 10 = 0 then Some (label_json (t + real i * (1 / 1000)) (flow_json src target sport port ''TCP'') ''SYN_FLOOD'' ''CRITICAL''
          (97 / 100) ''scapy'' ''High-rate SYN with no SYN-ACK (half-open flood)'' []) else None))"
      using step [of i "1 / 1000" t] length_port [of sport] by (auto simp: pkt_within_def encode_def)
  qed
  show "pred_state (\<lambda>r. \<forall>p\<in>set (fst r). pkt_within t (real (nat n)) 2000 p) (gen_udp_flood R t target port n)"
    unfolding gen_udp_flood_def Let_def
    by (rule gen_each_pkts, rule pred_bind_any, rule pred_bind_any, rule pred_map_mono [OF randint_range [OF ok]])
       (use step [of _ "8 / 10000" t] in \<open>auto simp: pkt_within_def\<close>)
  show "pred_state (\<lambda>r. \<forall>p\<in>set (fst r). pkt_within t (real (nat n)) (2000 + length target) p) (gen_slowloris R t target port n h)"
    unfolding gen_slowloris_def Let_def
    by (intro gen_each_pkts rng_intros) (use step [of _ "1 / 10" t] in \<open>auto simp: pkt_within_def encode_def crlf_def\<close>)
  show "pred_state (\<lambda>r. \<forall>p\<in>set (fst r). pkt_within t (real (nat n)) 2000 p) (gen_dns_tunnel R t target n k (1 / 2))"
    unfolding gen_dns_tunnel_def Let_def
    by (intro gen_each_pkts rng_intros) (use step [of _ "1 / 2" t] in \<open>auto simp: pkt_within_def encode_def\<close>)
  show "pred_state (\<lambda>r. \<forall>p\<in>set (fst r). pkt_within t (real (nat n)) 2000 p) (gen_port_scan R t target n ty)"
    unfolding gen_port_scan_def Let_def
    by (intro gen_each_pkts rng_intros) (use step [of _ "3 / 1000" t] in \<open>auto simp: pkt_within_def encode_def\<close>)
  have data: "pred_state (\<lambda>bs. length bs \<le> 2000 + length target) (benign_data R target svc)" for svc
  proof -
    have "pred_state (\<lambda>bs. length bs \<le> 2000 + length target) (do { b \<leftarrow> py_randint R 65 90; len \<leftarrow> py_randint R 64 512;
        State_Monad.return (replicate (nat len) (word_of_int b :: 8 word)) })"
      by (rule pred_bind_any, rule pred_map_mono [OF randint_range [OF ok]]) auto
    then show ?thesis by (simp add: benign_data_def pred_return encode_def crlf_def)
  qed
  show "pred_state (\<lambda>r. \<forall>p\<in>set (fst r). pkt_within t (real (nat n)) (2000 + length target) p) (gen_benign R t target n)"
    unfolding gen_benign_def Let_def
    by (rule gen_each_pkts, rule pred_bind_any, rule pred_bind_any, rule pred_bind_any, rule pred_case_prod,
        rule pred_bind [OF data], rule pred_map_mono [OF uniform_range [OF ok]])
       (use step [of _ _ t] in \<open>auto simp: pkt_within_def\<close>)
qed

lemma fallback_pkts:
  assumes "rng_ok R" and "attack \<in> fst ` set ATTACKS" and "attack \<noteq> ''dga_beacon''"
    and "\<And>base num. ga_src_range a = Some (base, num) \<Longrightarrow> 0 \<le> base"
  shows "pred_state (\<lambda>r. \<forall>p\<in>set (fst r). pkt_within t (real (nat (max (ga_connections a) (ga_duration a * ga_rate a))))
      (2000 + length (ga_target a) + length (int_str (ga_port a))) p) (fallback md5 R now t a attack)"
proof -
  have weaken: "pred_state (\<lambda>r. \<forall>p\<in>set (fst r). pkt_within t hi' len' p) m"
    if "pred_state (\<lambda>r. \<forall>p\<in>set (fst r). pkt_within t hi len p) m" and "hi \<le> hi'" and "len \<le> len'" for hi hi' len len' m
    by (rule pred_mono [OF that(1)]) (use that(2,3) in \<open>force simp: pkt_within_def\<close>)
  let ?n = "ga_duration a * ga_rate a"
  let ?P = "\<lambda>m. pred_state (\<lambda>r. \<forall>p\<in>set (fst r). pkt_within t (real (nat (max (ga_connections a) ?n)))
      (2000 + length (ga_target a) + length (int_str (ga_port a))) p) m"
  have "?P (gen_syn_flood R t (ga_target a) (ga_port a) ?n (ga_src_range a))"
    by (rule weaken [OF generator_pkts(1) [OF assms(1,4)]]) auto
  moreover have "?P (gen_udp_flood R t (ga_target a) (ga_port a) ?n)"
    by (rule weaken [OF generator_pkts(2) [OF assms(1)]]) auto
  moreover have "?P (gen_slowloris R t (ga_target a) (ga_port a) (ga_connections a) (ga_duration a))"
    by (rule weaken [OF generator_pkts(3) [OF assms(1)]]) auto
  moreover have "?P (gen_dns_tunnel R t (ga_target a) (min ?n 500) 48 (1 / 2))"
    by (rule weaken [OF generator_pkts(4) [OF assms(1)]]) auto
  moreover have "?P (gen_port_scan R t (ga_target a) ?n ''hybrid'')"
    by (rule weaken [OF generator_pkts(5) [OF assms(1)]]) auto
  moreover have "?P (gen_benign R t (ga_target a) ?n)"
    by (rule weaken [OF generator_pkts(6) [OF assms(1)]]) auto
  moreover have "attack \<in> {''syn_flood'', ''udp_flood'', ''slowloris'', ''dns_tunnel'', ''port_scan'', ''benign''}"
    using assms(2,3) by (auto simp: ATTACKS_def)
  ultimately show ?thesis
    unfolding fallback_def Let_def by (elim insertE emptyE) simp_all
qed



end
