(* ===== verification/CaptureGen.thy ===== *)
theory CaptureGen
  imports TrafficGen
begin

text \<open>
  The scapy capture generators of \<^verbatim>\<open>tools/traffic_gen\<close>: the six scripts, their common label
  sidecar and writer, and the driver \<^verbatim>\<open>run_all.py\<close>. A packet is the layers and the time the
  scripts set; how scapy lays them out as bytes is not part of it.
\<close>

section \<open>Packets and sidecars\<close>

datatype app_layer = NoApp | DnsQuery string | DnsResponse int

record cap_pkt =
  cp_src :: string
  cp_dst :: string
  cp_l4 :: l4
  cp_app :: app_layer
  cp_filler :: nat
  cp_time :: real

text \<open>\<^verbatim>\<open>get_base_labels\<close> with the flows the generator has appended.\<close>

definition capture_labels :: "string \<Rightarrow> string \<Rightarrow> real \<Rightarrow> jobj list \<Rightarrow> jval" where
  "capture_labels attack_type description now flows =
     JObj [(''attack_type'', JStr attack_type), (''description'', JStr description), (''timestamp'', JNum now),
           (''flows'', JArr (map JObj flows))]"

definition flow_label :: "string \<Rightarrow> string \<Rightarrow> int \<Rightarrow> int \<Rightarrow> string \<Rightarrow> real \<Rightarrow> jobj" where
  "flow_label src dst sp dp proto ts =
     [(''src_ip'', JStr src), (''dst_ip'', JStr dst), (''src_port'', JNum (of_int sp)), (''dst_port'', JNum (of_int dp)),
      (''protocol'', JStr proto), (''is_attack'', JBool True), (''timestamp'', JNum ts)]"

definition benign_label :: "string \<Rightarrow> string \<Rightarrow> string \<Rightarrow> jobj" where
  "benign_label src dst proto =
     [(''src_ip'', JStr src), (''dst_ip'', JStr dst), (''protocol'', JStr proto), (''is_attack'', JBool False)]"

definition syn_pkt :: "string \<Rightarrow> string \<Rightarrow> int \<Rightarrow> int \<Rightarrow> real \<Rightarrow> cap_pkt" where
  "syn_pkt src dst sp dp ts = \<lparr>cp_src = src, cp_dst = dst, cp_l4 = TCP sp dp 2, cp_app = NoApp, cp_filler = 0, cp_time = ts\<rparr>"

text \<open>A probe and its label.\<close>

definition syn_probe :: "string \<Rightarrow> string \<Rightarrow> int \<Rightarrow> int \<Rightarrow> real \<Rightarrow> cap_pkt \<times> jobj option" where
  "syn_probe src dst sp dp ts = (syn_pkt src dst sp dp ts, Some (flow_label src dst sp dp ''TCP'' ts))"

definition dns_query_pkt :: "string \<Rightarrow> string \<Rightarrow> int \<Rightarrow> string \<Rightarrow> real \<Rightarrow> cap_pkt" where
  "dns_query_pkt src dst sp qname ts =
     \<lparr>cp_src = src, cp_dst = dst, cp_l4 = UDP sp 53, cp_app = DnsQuery qname, cp_filler = 0, cp_time = ts\<rparr>"

section \<open>Generators\<close>

type_synonym 's capture = "('s, cap_pkt list \<times> jval) state"

definition with_labels ::
    "string \<Rightarrow> string \<Rightarrow> real \<Rightarrow> ('s, cap_pkt list \<times> jobj list) state \<Rightarrow> 's capture" where
  "with_labels attack_type description now m =
     do { (pkts, flows) \<leftarrow> m; State_Monad.return (pkts, capture_labels attack_type description now flows) }"

definition benign_clients :: "string list" where
  "benign_clients = map (\<lambda>i. ''192.168.1.'' @ nat_str i) [100..<150]"

definition benign_domains :: "string list" where
  "benign_domains = [''google.com'', ''microsoft.com'', ''apple.com'', ''amazon.com'', ''netflix.com'']"

definition benign_packet :: "'s rng \<Rightarrow> real \<Rightarrow> nat \<Rightarrow> ('s, cap_pkt \<times> jobj option) state" where
  "benign_packet R start i = do {
     src \<leftarrow> py_choice R benign_clients;
     x \<leftarrow> rg_random R;
     if x < 2 / 10 then do {
       domain \<leftarrow> py_choice R benign_domains;
       sp \<leftarrow> py_randint R 10000 60000;
       State_Monad.return (dns_query_pkt src ''8.8.8.8'' sp domain (start + real i * (5 / 100)),
         Some (benign_label src ''8.8.8.8'' ''UDP'')) }
     else do {
       h \<leftarrow> py_randint R 1 200;
       sp \<leftarrow> py_randint R 10000 60000;
       len \<leftarrow> py_randint R 100 1000;
       let dst = ''104.21.3.'' @ int_str h;
       State_Monad.return (\<lparr>cp_src = src, cp_dst = dst, cp_l4 = TCP sp 443 24, cp_app = NoApp, cp_filler = nat len,
           cp_time = start + real i * (5 / 100)\<rparr>,
         Some (benign_label src dst ''TCP'')) } }"

definition generate_benign_traffic :: "'s rng \<Rightarrow> real \<Rightarrow> real \<Rightarrow> int \<Rightarrow> 's capture" where
  "generate_benign_traffic R now start num_packets =
     with_labels ''BENIGN'' ''Normal user web browsing and DNS'' now
       (gen_each (benign_packet R start) [0..<nat num_packets])"

text \<open>The loops that advance \<^verbatim>\<open>current_time\<close>.\<close>

fun beacon_loop ::
    "'s rng \<Rightarrow> string \<Rightarrow> string \<Rightarrow> real \<Rightarrow> real \<Rightarrow> nat \<Rightarrow> real \<Rightarrow> ('s, cap_pkt list \<times> jobj list) state" where
  "beacon_loop R src c2 interval jitter 0 t = State_Monad.return ([], [])"
| "beacon_loop R src c2 interval jitter (Suc n) t = do {
     x \<leftarrow> py_uniform R (- jitter) jitter;
     sp \<leftarrow> py_randint R 10000 60000;
     let t' = t + interval * (1 + x);
     (ps, ls) \<leftarrow> beacon_loop R src c2 interval jitter n t';
     State_Monad.return (syn_pkt src c2 sp 443 t' # ps, flow_label src c2 sp 443 ''TCP'' t' # ls) }"

definition generate_c2_beacon ::
    "'s rng \<Rightarrow> real \<Rightarrow> real \<Rightarrow> string \<Rightarrow> string \<Rightarrow> real \<Rightarrow> real \<Rightarrow> int \<Rightarrow> 's capture" where
  "generate_c2_beacon R now start src c2 interval jitter num_beacons =
     with_labels ''C2_BEACONING'' ''Simulated periodic C2 beaconing'' now
       (beacon_loop R src c2 interval jitter (nat num_beacons) start)"

fun chunks_of :: "nat \<Rightarrow> 'a list \<Rightarrow> 'a list list" where
  "chunks_of n [] = []"
| "chunks_of n (x # xs) = (x # take (n - 1) xs) # chunks_of n (drop (n - 1) xs)"

definition exfil_payload :: string where
  "exfil_payload = concat (replicate 5 ''exfiltrated_secret_data_that_needs_to_be_split_'')"

definition tunnel_label :: "string \<Rightarrow> string" where
  "tunnel_label chunk = filter (\<lambda>c. c \<noteq> CHR ''='') (lower (b32encode (encode chunk)))"

fun tunnel_loop ::
    "'s rng \<Rightarrow> string \<Rightarrow> string \<Rightarrow> string \<Rightarrow> string list \<Rightarrow> real \<Rightarrow> ('s, cap_pkt list \<times> jobj list) state" where
  "tunnel_loop R src dns base_domain [] t = State_Monad.return ([], [])"
| "tunnel_loop R src dns base_domain (chunk # chunks) t = do {
     gap \<leftarrow> py_uniform R (1 / 10) 1;
     sp \<leftarrow> py_randint R 10000 60000;
     let t' = t + gap;
     let qname = tunnel_label chunk @ ''.'' @ base_domain;
     (ps, ls) \<leftarrow> tunnel_loop R src dns base_domain chunks t';
     State_Monad.return (dns_query_pkt src dns sp qname t' # ps,
       (flow_label src dns sp 53 ''UDP'' t' @ [(''qname'', JStr qname)]) # ls) }"

definition generate_dns_tunnel :: "'s rng \<Rightarrow> real \<Rightarrow> real \<Rightarrow> string \<Rightarrow> string \<Rightarrow> string \<Rightarrow> 's capture" where
  "generate_dns_tunnel R now start src dns base_domain =
     with_labels ''DNS_TUNNELLING'' ''Simulated DNS tunnelling via encoded subdomains'' now
       (tunnel_loop R src dns base_domain (chunks_of 30 exfil_payload) start)"

definition scan_probes :: "'s rng \<Rightarrow> string \<Rightarrow> (string \<times> int \<times> real) list \<Rightarrow> ('s, cap_pkt list \<times> jobj list) state" where
  "scan_probes R src targets =
     gen_each (\<lambda>(dst, dport, ts). do {
       sp \<leftarrow> py_randint R 10000 60000;
       State_Monad.return (syn_probe src dst sp dport ts) }) targets"

text \<open>The probed address, port and time of every probe, in order.\<close>

definition scan_targets :: "real \<Rightarrow> string \<Rightarrow> string \<Rightarrow> int \<Rightarrow> (string \<times> int \<times> real) list" where
  "scan_targets t net scan_type num_targets =
     (if scan_type = ''horizontal'' then
        map (\<lambda>i. (net @ nat_str i, 22, t + real i * (1 / 100))) [1..<nat (num_targets + 1)]
      else if scan_type = ''vertical'' then
        map (\<lambda>i. (net @ ''10'', int i + 1, t + real i * (5 / 1000))) [0..<1023]
      else if scan_type = ''hybrid'' then
        concat (map (\<lambda>i. map (\<lambda>(j, p). (net @ nat_str i, p, t + real i * (5 / 100) + real j * (1 / 100)))
          (List.enumerate 0 [22, 80, 443, 3389, 8080])) [1..<10])
      else [])"

definition generate_port_scan :: "'s rng \<Rightarrow> real \<Rightarrow> real \<Rightarrow> string \<Rightarrow> string \<Rightarrow> string \<Rightarrow> int \<Rightarrow> 's capture" where
  "generate_port_scan R now start src net scan_type num_targets =
     with_labels ''PORT_SCAN'' (''Simulated '' @ scan_type @ '' port scan'') now
       (scan_probes R src (scan_targets start net scan_type num_targets))"

definition generate_syn_flood :: "'s rng \<Rightarrow> real \<Rightarrow> real \<Rightarrow> string \<Rightarrow> int \<Rightarrow> int \<Rightarrow> 's capture" where
  "generate_syn_flood R now start target port num_packets =
     with_labels ''SYN_FLOOD'' ''Simulated TCP SYN flood attack'' now
       (gen_each (\<lambda>i. do {
          src \<leftarrow> spoof10 R;
          sp \<leftarrow> py_randint R 1024 65535;
          State_Monad.return (syn_probe src target sp port (start + real i * (1 / 1000))) }) [0..<nat num_packets])"

definition resolver_ip :: "'s rng \<Rightarrow> ('s, string) state" where
  "resolver_ip R = do { a \<leftarrow> py_randint R 0 255; b \<leftarrow> py_randint R 1 254;
     State_Monad.return (''8.8.'' @ int_str a @ ''.'' @ int_str b) }"

definition generate_udp_amplification :: "'s rng \<Rightarrow> real \<Rightarrow> real \<Rightarrow> string \<Rightarrow> int \<Rightarrow> 's capture" where
  "generate_udp_amplification R now start target num_packets = do {
     resolvers \<leftarrow> traverse_list (\<lambda>_. resolver_ip R) [0..<10];
     with_labels ''UDP_AMPLIFICATION'' ''Simulated UDP DNS amplification attack'' now
       (gen_each (\<lambda>i. do {
          resolver \<leftarrow> py_choice R resolvers;
          dp \<leftarrow> py_randint R 1024 65535;
          let ts = start + real i * (2 / 1000);
          State_Monad.return (\<lparr>cp_src = resolver, cp_dst = target, cp_l4 = UDP 53 dp, cp_app = DnsResponse 50, cp_filler = 1024,
              cp_time = ts\<rparr>,
            Some (flow_label resolver target 53 dp ''UDP'' ts)) }) [0..<nat num_packets]) }"

section \<open>The files\<close>

datatype data_file = Pcap "cap_pkt list" | Sidecar jval

type_synonym data_dir = "(string, data_file) dict"

text \<open>\<^verbatim>\<open>str.replace\<close> for a non-empty pattern.\<close>

function py_replace :: "string \<Rightarrow> string \<Rightarrow> string \<Rightarrow> string" where
  "py_replace pat new s =
     (if s = [] \<or> pat = [] then s
      else if starts_with pat s then new @ py_replace pat new (drop (length pat) s)
      else hd s # py_replace pat new (tl s))"
  by pat_completeness auto
termination by (relation "measure (\<lambda>(pat, new, s). length s)") (auto simp: length_greater_0_conv)

declare py_replace.simps [simp del]

text \<open>Without scapy nothing is written, and the script still ends normally.\<close>

definition save_pcap_and_labels :: "bool \<Rightarrow> string \<Rightarrow> cap_pkt list \<times> jval \<Rightarrow> data_dir \<Rightarrow> data_dir" where
  "save_pcap_and_labels scapy name out dir =
     (if \<not> scapy then dir
      else dict_set (py_replace ''.pcap'' ''_labels.json'' name) (Sidecar (snd out)) (dict_set name (Pcap (fst out)) dir))"

definition attack_sources :: "string list" where
  "attack_sources = [''10.0.0.50'', ''10.0.0.62'', ''10.0.0.77'', ''10.0.0.91'', ''10.0.0.104'']"

definition save :: "bool \<Rightarrow> string \<Rightarrow> 's capture \<Rightarrow> data_dir \<Rightarrow> ('s, data_dir) state" where
  "save scapy name m dir = do { out \<leftarrow> m; State_Monad.return (save_pcap_and_labels scapy name out dir) }"

text \<open>
  The main block of each script by its file name, with the clock readings of the labels and of the
  packets. A script of another name does nothing.
\<close>

definition script_main :: "bool \<Rightarrow> 's rng \<Rightarrow> real \<Rightarrow> real \<Rightarrow> string \<Rightarrow> data_dir \<Rightarrow> ('s, data_dir) state" where
  "script_main scapy R now start script dir =
     (if script = ''benign_traffic_gen.py'' then save scapy ''benign.pcap'' (generate_benign_traffic R now start 1000) dir
      else if script = ''c2_beacon_gen.py'' then do {
        src \<leftarrow> py_choice R attack_sources;
        save scapy ''c2_beacon.pcap'' (generate_c2_beacon R now start src ''198.51.100.200'' 5 (2 / 10) 50) dir }
      else if script = ''dns_tunnel_gen.py'' then do {
        src \<leftarrow> py_choice R attack_sources;
        save scapy ''dns_tunnel.pcap'' (generate_dns_tunnel R now start src ''8.8.8.8'' ''evil.com'') dir }
      else if script = ''port_scan_gen.py'' then do {
        src \<leftarrow> py_choice R attack_sources;
        dir \<leftarrow> save scapy ''port_scan_horizontal.pcap'' (generate_port_scan R now start src ''192.168.1.'' ''horizontal'' 50) dir;
        dir \<leftarrow> save scapy ''port_scan_vertical.pcap'' (generate_port_scan R now start src ''192.168.1.'' ''vertical'' 50) dir;
        save scapy ''port_scan_hybrid.pcap'' (generate_port_scan R now start src ''192.168.1.'' ''hybrid'' 50) dir }
      else if script = ''syn_flood_gen.py'' then
        save scapy ''syn_flood.pcap'' (generate_syn_flood R now start ''192.168.1.100'' 80 1000) dir
      else if script = ''udp_amplification_gen.py'' then
        save scapy ''udp_amplification.pcap'' (generate_udp_amplification R now start ''192.168.1.100'' 500) dir
      else State_Monad.return dir)"

text \<open>
  How a child process of \<^verbatim>\<open>subprocess.run(check=True)\<close> ends: an exit code, an interpreter that is
  not found, or another exception, which alone ends the driver.
\<close>

datatype child_end = ChildExit int | ChildNotFound | ChildRaises

definition scripts_to_run :: "string list" where
  "scripts_to_run = [''benign_traffic_gen.py'', ''c2_beacon_gen.py'', ''dns_tunnel_gen.py'', ''port_scan_gen.py'',
     ''syn_flood_gen.py'', ''udp_amplification_gen.py'']"

text \<open>The scripts the driver starts, and its own exit code.\<close>

fun run_scripts :: "(string \<Rightarrow> child_end) \<Rightarrow> string list \<Rightarrow> string list \<times> int" where
  "run_scripts ends [] = ([], 0)"
| "run_scripts ends (s # ss) =
     (case ends s of ChildRaises \<Rightarrow> ([s], 1)
      | _ \<Rightarrow> (let (run, code) = run_scripts ends ss in (s # run, code)))"

definition run_all :: "(string \<Rightarrow> child_end) \<Rightarrow> string list \<times> int" where
  "run_all ends = run_scripts ends scripts_to_run"

section \<open>Sidecars of the capture tools\<close>

definition unlabelled :: "jval \<Rightarrow> bool" where
  "unlabelled v \<longleftrightarrow> (\<forall>render now f rows. load_json_labels render now f (Some v) = [] \<and> apply_labels render (Some v) rows = rows)"

lemma capture_labels_unread: "unlabelled (capture_labels attack_type description t flows)"
proof -
  have "label_row render [] mode [] r = r" for render mode and r :: flow_row by (simp add: label_row_def)
  then have "map (label_row render [] mode []) rows = rows" for render mode and rows :: "flow_row list"
    by (simp add: map_idI)
  then show ?thesis
    by (simp add: unlabelled_def capture_labels_def load_json_labels_def label_entries_def jget_def dict_get_def apply_labels_def
        label_entries_of_def upper_def spaces_to_underscores_def)
qed

lemma with_labels_unread: "pred_state (\<lambda>out. unlabelled (snd out)) (with_labels attack_type description t m)"
  unfolding with_labels_def by (intro pred_bind_any pred_case_prod pred_return) (simp add: capture_labels_unread)

definition dir_unlabelled :: "data_dir \<Rightarrow> bool" where
  "dir_unlabelled dir \<longleftrightarrow> (\<forall>name v. map_of dir name = Some (Sidecar v) \<longrightarrow> unlabelled v)"

lemma save_unlabelled:
  assumes "dir_unlabelled dir" and "pred_state (\<lambda>out. unlabelled (snd out)) m"
  shows "pred_state dir_unlabelled (save scapy name m dir)"
  unfolding save_def
  by (rule pred_map_mono [OF assms(2)])
     (use assms(1) in \<open>auto simp: dir_unlabelled_def save_pcap_and_labels_def map_of_dict_set\<close>)

lemmas capture_defs = generate_benign_traffic_def generate_c2_beacon_def generate_dns_tunnel_def generate_port_scan_def
  generate_syn_flood_def generate_udp_amplification_def

lemma captures_unread:
  "pred_state (\<lambda>out. unlabelled (snd out)) (generate_benign_traffic R now start n)"
  "pred_state (\<lambda>out. unlabelled (snd out)) (generate_c2_beacon R now start src c2 interval jitter n)"
  "pred_state (\<lambda>out. unlabelled (snd out)) (generate_dns_tunnel R now start src dns base_domain)"
  "pred_state (\<lambda>out. unlabelled (snd out)) (generate_port_scan R now start src net ty n)"
  "pred_state (\<lambda>out. unlabelled (snd out)) (generate_syn_flood R now start target port n)"
  "pred_state (\<lambda>out. unlabelled (snd out)) (generate_udp_amplification R now start target n)"
  unfolding capture_defs by (rule with_labels_unread | rule pred_bind_any)+

lemma script_unlabelled:
  assumes "dir_unlabelled dir"
  shows "pred_state dir_unlabelled (script_main scapy R now start script dir)"
proof -
  have "pred_state dir_unlabelled (do {
        src \<leftarrow> py_choice R attack_sources;
        dir \<leftarrow> save scapy ''port_scan_horizontal.pcap'' (generate_port_scan R now start src ''192.168.1.'' ''horizontal'' 50) dir;
        dir \<leftarrow> save scapy ''port_scan_vertical.pcap'' (generate_port_scan R now start src ''192.168.1.'' ''vertical'' 50) dir;
        save scapy ''port_scan_hybrid.pcap'' (generate_port_scan R now start src ''192.168.1.'' ''hybrid'' 50) dir })"
    by (rule pred_bind_any, rule pred_bind [OF save_unlabelled [OF assms captures_unread(4)]],
        rule pred_bind [OF save_unlabelled [OF _ captures_unread(4)]], assumption, rule save_unlabelled [OF _ captures_unread(4)])
  then show ?thesis
    unfolding script_main_def
    by (intro pred_if save_unlabelled captures_unread pred_return assms)
       (rule pred_bind_any, intro save_unlabelled captures_unread assms)+
qed

text \<open>
  The ground truth of the capture tools reaches no consumer: from whatever directory without
  readable sidecars a script of \<^verbatim>\<open>tools/traffic_gen\<close> starts, every label sidecar it leaves loads as
  no records in the replay source and labels no row in the feature extraction, because both read
  the entries under \<^verbatim>\<open>labels\<close> or \<^verbatim>\<open>packets\<close> and the tools write them under \<^verbatim>\<open>flows\<close>.
\<close>

theorem capture_sidecars_unread:
  assumes "dir_unlabelled dir"
    and "map_of (fst (run_state (script_main scapy R now start script dir) s)) name = Some (Sidecar v)"
  shows "load_json_labels render clock f (Some v) = [] \<and> apply_labels render (Some v) rows = rows"
proof -
  have "dir_unlabelled (fst (run_state (script_main scapy R now start script dir) s))"
    by (rule pred_state_run_state [OF script_unlabelled [OF assms(1)]])
  with assms(2) show ?thesis unfolding dir_unlabelled_def unlabelled_def by blast
qed

lemma save_sidecar:
  "pred_state (\<lambda>d. \<exists>v. map_of d (py_replace ''.pcap'' ''_labels.json'' name) = Some (Sidecar v)) (save True name m dir)"
  unfolding save_def by (intro pred_bind_any pred_return) (simp add: save_pcap_and_labels_def map_of_dict_set)

theorem capture_sidecars_unread_witness:
  "\<exists>v. map_of (fst (run_state (script_main True lcg 0 0 ''syn_flood_gen.py'' []) 7)) ''syn_flood_labels.json'' = Some (Sidecar v)
     \<and> load_json_labels (\<lambda>_. []) 0 ''syn_flood_labels.json'' (Some v) = []"
proof -
  have "py_replace ''.pcap'' ''_labels.json'' ''syn_flood.pcap'' = ''syn_flood_labels.json''"
    by (simp add: py_replace.simps starts_with_def)
  then obtain v where v: "map_of (fst (run_state (script_main True lcg 0 0 ''syn_flood_gen.py'' []) 7)) ''syn_flood_labels.json''
      = Some (Sidecar v)"
    using pred_state_run_state [OF save_sidecar [of "''syn_flood.pcap''" "generate_syn_flood lcg 0 0 ''192.168.1.100'' 80 1000" "[]"], of 7]
    by (auto simp: script_main_def)
  have "dir_unlabelled []" by (simp add: dir_unlabelled_def)
  from capture_sidecars_unread [OF this v] v show ?thesis by blast
qed

section \<open>Timing of the beacons\<close>

text \<open>Consecutive beacons from \<open>t\<close> on, at distances between \<open>lo\<close> and \<open>hi\<close>.\<close>

fun spaced :: "real \<Rightarrow> real \<Rightarrow> real \<Rightarrow> cap_pkt list \<Rightarrow> bool" where
  "spaced lo hi t [] \<longleftrightarrow> True"
| "spaced lo hi t (p # ps) \<longleftrightarrow> lo \<le> cp_time p - t \<and> cp_time p - t \<le> hi \<and> spaced lo hi (cp_time p) ps"

lemma beacon_loop_spaced:
  assumes "rng_ok R" and "0 \<le> jitter" and "0 \<le> interval"
  shows "pred_state (\<lambda>r. length (fst r) = n \<and> spaced (interval * (1 - jitter)) (interval * (1 + jitter)) t (fst r)
      \<and> list_all2 (\<lambda>p l. map_of l ''timestamp'' = Some (JNum (cp_time p))) (fst r) (snd r))
    (beacon_loop R src c2 interval jitter n t)"
proof (induction n arbitrary: t)
  case 0
  show ?case by (simp add: pred_return)
next
  case (Suc n)
  show ?case
    unfolding beacon_loop.simps Let_def
  proof (rule pred_bind [OF uniform_range [OF assms(1)]])
    show "- jitter \<le> jitter" using assms by simp
    fix x
    assume x: "- jitter \<le> x \<and> x \<le> jitter"
    have "interval * (1 - jitter) \<le> interval * (1 + x)" "interval * (1 + x) \<le> interval * (1 + jitter)"
      using x assms by (auto intro!: mult_left_mono)
    then show "pred_state (\<lambda>r. length (fst r) = Suc n \<and> spaced (interval * (1 - jitter)) (interval * (1 + jitter)) t (fst r)
          \<and> list_all2 (\<lambda>p l. map_of l ''timestamp'' = Some (JNum (cp_time p))) (fst r) (snd r))
        (do { sp \<leftarrow> py_randint R 10000 60000;
              (ps, ls) \<leftarrow> beacon_loop R src c2 interval jitter n (t + interval * (1 + x));
              State_Monad.return (syn_pkt src c2 sp 443 (t + interval * (1 + x)) # ps,
                flow_label src c2 sp 443 ''TCP'' (t + interval * (1 + x)) # ls) })"
      by (intro pred_bind_any [of _ _ "py_randint R 10000 60000"] pred_bind [OF Suc.IH])
         (auto intro!: pred_return simp: syn_pkt_def flow_label_def)
  qed
qed

text \<open>
  The simulated C2 channel beacons as regularly as requested: it sends the requested number of
  beacons, each at most the jitter fraction away from the interval after the one before, so that
  they are in order of time, and each label carries the time of its own packet.
\<close>

theorem c2_beacon_spacing:
  assumes "rng_ok R" and "0 \<le> jitter" and "0 \<le> interval"
  shows "let (pkts, labels) = fst (run_state (generate_c2_beacon R now start src c2 interval jitter n) s)
    in length pkts = nat n \<and> spaced (interval * (1 - jitter)) (interval * (1 + jitter)) start pkts
    \<and> (\<exists>flows. labels = capture_labels ''C2_BEACONING'' ''Simulated periodic C2 beaconing'' now flows
        \<and> list_all2 (\<lambda>p l. map_of l ''timestamp'' = Some (JNum (cp_time p))) pkts flows)"
proof -
  obtain ps ls s' where r: "run_state (beacon_loop R src c2 interval jitter (nat n) start) s = ((ps, ls), s')" by (metis surj_pair)
  have "fst (run_state (generate_c2_beacon R now start src c2 interval jitter n) s)
      = (ps, capture_labels ''C2_BEACONING'' ''Simulated periodic C2 beaconing'' now ls)"
    by (simp add: generate_c2_beacon_def with_labels_def r)
  moreover have "length (fst (ps, ls)) = nat n \<and> spaced (interval * (1 - jitter)) (interval * (1 + jitter)) start (fst (ps, ls))
      \<and> list_all2 (\<lambda>p l. map_of l ''timestamp'' = Some (JNum (cp_time p))) (fst (ps, ls)) (snd (ps, ls))"
    by (rule pred_stateD [OF beacon_loop_spaced [OF assms] r])
  ultimately show ?thesis by auto
qed

theorem c2_beacon_spacing_witness:
  "length (fst (fst (run_state (generate_c2_beacon lcg 0 0 ''10.0.0.50'' ''198.51.100.200'' 5 (2 / 10) 50) 7))) = 50"
  using c2_beacon_spacing [OF lcg_ok, of "2 / 10" 5 0 0 "''10.0.0.50''" "''198.51.100.200''" 50 7] by (simp add: Let_def case_prod_beta)

end
