(* ===== verification/Scheduler.thy ===== *)
theory Scheduler
  imports Features
begin

text \<open>
  The tumbling-window scheduler of \<^verbatim>\<open>features/scheduler.py\<close>: one record holds the three
  window lengths, the three window starts and the seven extractors; \<open>process_packet\<close> feeds
  a packet to the extractors that apply to it and \<open>check_windows\<close> emits the vectors of every
  window that has elapsed. The theorems say exactly which vectors a packet fires and with
  what content, that a window never fires more often than once per its length, that the
  DDoS counters tumble with the 1-second window and that the sweeps bound the kept state;
  one theorem pins down a minute reset the code misses.
\<close>

record scheduler =
  window_1s :: real
  window_5s :: real
  window_60s :: real
  last_1s :: real
  last_5s :: real
  last_60s :: real
  sc_ddos :: ddos_features
  sc_beaconing :: beaconing_features
  sc_dga :: dga_features
  sc_encrypted :: encrypted_features
  sc_recon :: recon_features
  sc_exfil :: exfil_features
  sc_dns_exfil :: dns_exfil_features

text \<open>The value of an entry of an emitted dictionary: the rollup's type tag or a feature vector.\<close>

datatype rollup = RTag string | RVec fvec | REnc enc_features

type_synonym fired = "(string, rollup) dict"

definition scheduler_init :: "real \<Rightarrow> real \<Rightarrow> real \<Rightarrow> scheduler" where
  "scheduler_init w1 w5 w60 =
     \<lparr>window_1s = w1, window_5s = w5, window_60s = w60, last_1s = 0, last_5s = 0, last_60s = 0,
      sc_ddos = ddos_init, sc_beaconing = beaconing_init, sc_dga = dga_init,
      sc_encrypted = encrypted_init 10, sc_recon = recon_init, sc_exfil = exfil_init,
      sc_dns_exfil = dns_exfil_init\<rparr>"

definition emit_1s_window :: "scheduler \<Rightarrow> string \<Rightarrow> string \<Rightarrow> fired \<times> scheduler" where
  "emit_1s_window s src dst =
     ([(''type'', RTag ''1s_rollup''), (''ddos'', RVec (ddos_extract (sc_ddos s) dst)),
       (''recon'', RVec (recon_extract (sc_recon s) src))],
      s\<lparr>sc_ddos := ddos_reset_window_counters (sc_ddos s)\<rparr>)"

definition emit_5s_window :: "scheduler \<Rightarrow> string \<Rightarrow> string \<Rightarrow> fired \<times> scheduler" where
  "emit_5s_window s src dst =
     ([(''type'', RTag ''5s_rollup''), (''dga'', RVec (dga_extract (sc_dga s))),
       (''encrypted'', REnc (encrypted_extract (sc_encrypted s))),
       (''dns_exfil'', RVec (dns_exfil_extract (sc_dns_exfil s)))], s)"

definition emit_60s_window ::
    "(string \<Rightarrow> nat) \<Rightarrow> scheduler \<Rightarrow> string \<Rightarrow> string \<Rightarrow> fired \<times> scheduler" where
  "emit_60s_window digest s src dst =
     ([(''type'', RTag ''60s_rollup''),
       (''beaconing'', RVec (beaconing_extract digest (sc_beaconing s) src dst)),
       (''exfil'', RVec (exfil_extract (sc_exfil s)))],
      s\<lparr>sc_ddos := ddos_sweep_stale_state (sc_ddos s) (last_60s s) 60,
        sc_beaconing := beaconing_sweep_stale_state (sc_beaconing s) (last_60s s) 120\<rparr>)"

definition start_windows :: "scheduler \<Rightarrow> real \<Rightarrow> scheduler" where
  "start_windows s now =
     (if last_1s s = 0 \<or> now < last_1s s
      then s\<lparr>last_1s := now, last_5s := now, last_60s := now\<rparr> else s)"

definition check_windows ::
    "(string \<Rightarrow> nat) \<Rightarrow> scheduler \<Rightarrow> packet_meta \<Rightarrow> real \<Rightarrow> fired \<times> scheduler" where
  "check_windows digest s meta now =
     (let s = start_windows s now;
          (fired, s) =
            (if window_1s s \<le> now - last_1s s then
               (let (vec, s) = emit_1s_window s (src_ip meta) (dst_ip meta)
                in (dict_update [] vec, s\<lparr>last_1s := now\<rparr>))
             else ([], s));
          (fired, s) =
            (if window_5s s \<le> now - last_5s s then
               (let (vec, s) = emit_5s_window s (src_ip meta) (dst_ip meta)
                in (dict_update fired vec, s\<lparr>last_5s := now\<rparr>))
             else (fired, s));
          (fired, s) =
            (if window_60s s \<le> now - last_60s s then
               (let (vec, s) = emit_60s_window digest s (src_ip meta) (dst_ip meta)
                in (dict_update fired vec, s\<lparr>last_60s := now\<rparr>))
             else (fired, s))
      in (dict_del ''type'' fired, s))"

definition feed_extractors ::
    "(string \<Rightarrow> nat) \<Rightarrow> scheduler \<Rightarrow> packet_meta \<Rightarrow> real \<Rightarrow> dns_parsed option \<Rightarrow> tls_parsed option
      \<Rightarrow> scheduler" where
  "feed_extractors digest s meta now dns tls =
     (let s = (if protocol meta \<in> set [Some ''TCP'', Some ''UDP'', Some ''ICMP'']
               then s\<lparr>sc_ddos := ddos_update digest (sc_ddos s) meta now\<rparr> else s);
          s = (if protocol meta = Some ''TCP''
               then s\<lparr>sc_recon := recon_update digest (sc_recon s) meta\<rparr> else s);
          s = (if 0 < opt_get (ip_len meta) 0
               then (let is_outbound = starts_with ''10.'' (src_ip meta) \<or> starts_with ''192.168.'' (src_ip meta)
                     in s\<lparr>sc_exfil := exfil_update (sc_exfil s) meta is_outbound\<rparr>) else s);
          s = s\<lparr>sc_beaconing := beaconing_update digest (sc_beaconing s) meta now\<rparr>;
          s = (case dns of None \<Rightarrow> s
               | Some d \<Rightarrow>
                   (let s = s\<lparr>sc_dga := dga_update (sc_dga s) dns\<rparr>;
                        is_new_minute = window_60s s \<le> now - last_60s s
                    in s\<lparr>sc_dns_exfil := dns_exfil_update (sc_dns_exfil s) dns is_new_minute\<rparr>))
      in case tls of None \<Rightarrow> s
         | Some t \<Rightarrow> s\<lparr>sc_encrypted := encrypted_update (sc_encrypted s) meta tls now\<rparr>)"

definition process_packet ::
    "(string \<Rightarrow> nat) \<Rightarrow> scheduler \<Rightarrow> packet_meta \<Rightarrow> real \<Rightarrow> dns_parsed option \<Rightarrow> tls_parsed option
      \<Rightarrow> fired \<times> scheduler" where
  "process_packet digest s meta now dns tls =
     check_windows digest (feed_extractors digest s meta now dns tls) meta now"

definition extract_all :: "(string \<Rightarrow> nat) \<Rightarrow> scheduler \<Rightarrow> string \<Rightarrow> string \<Rightarrow> fired" where
  "extract_all digest s src dst =
     [(''ddos'', RVec (ddos_extract (sc_ddos s) dst)), (''recon'', RVec (recon_extract (sc_recon s) src)),
      (''dga'', RVec (dga_extract (sc_dga s))),
      (''encrypted'', REnc (encrypted_extract (sc_encrypted s))),
      (''beaconing'', RVec (beaconing_extract digest (sc_beaconing s) src dst)),
      (''exfil'', RVec (exfil_extract (sc_exfil s))),
      (''dns_exfil'', RVec (dns_exfil_extract (sc_dns_exfil s)))]"

section \<open>What a packet changes\<close>

lemma feed_extractors_fields:
  fixes digest :: "string \<Rightarrow> nat"
  defines "f s m t dns tls \<equiv> feed_extractors digest s m t dns tls"
  shows "window_1s (f s m t dns tls) = window_1s s" "window_5s (f s m t dns tls) = window_5s s"
    "window_60s (f s m t dns tls) = window_60s s" "last_1s (f s m t dns tls) = last_1s s"
    "last_5s (f s m t dns tls) = last_5s s" "last_60s (f s m t dns tls) = last_60s s"
    "sc_ddos (f s m t dns tls) = (if protocol m \<in> set [Some ''TCP'', Some ''UDP'', Some ''ICMP'']
       then ddos_update digest (sc_ddos s) m t else sc_ddos s)"
    "sc_beaconing (f s m t dns tls) = beaconing_update digest (sc_beaconing s) m t"
    "sc_dns_exfil (f s m t dns tls) = (if dns = None then sc_dns_exfil s
       else dns_exfil_update (sc_dns_exfil s) dns (window_60s s \<le> t - last_60s s))"
  unfolding f_def by (cases dns; cases tls; simp add: feed_extractors_def Let_def)+

definition live :: "scheduler \<Rightarrow> real \<Rightarrow> bool" where
  "live s now \<longleftrightarrow> last_1s s \<noteq> 0 \<and> last_1s s \<le> now"

definition windows_ok :: "scheduler \<Rightarrow> bool" where
  "windows_ok s \<longleftrightarrow> 0 < window_1s s \<and> 0 < window_5s s \<and> 0 < window_60s s"

definition due :: "(scheduler \<Rightarrow> real) \<Rightarrow> (scheduler \<Rightarrow> real) \<Rightarrow> scheduler \<Rightarrow> real \<Rightarrow> bool" where
  "due window start s now \<longleftrightarrow> live s now \<and> window s \<le> now - start s"

lemma check_windows_fired:
  assumes "windows_ok s"
  shows "fst (check_windows digest s m now) =
     (if due window_1s last_1s s now
      then [(''ddos'', RVec (ddos_extract (sc_ddos s) (dst_ip m))),
            (''recon'', RVec (recon_extract (sc_recon s) (src_ip m)))] else [])
     @ (if due window_5s last_5s s now
        then [(''dga'', RVec (dga_extract (sc_dga s))),
              (''encrypted'', REnc (encrypted_extract (sc_encrypted s))),
              (''dns_exfil'', RVec (dns_exfil_extract (sc_dns_exfil s)))] else [])
     @ (if due window_60s last_60s s now
        then [(''beaconing'', RVec (beaconing_extract digest (sc_beaconing s) (src_ip m) (dst_ip m))),
              (''exfil'', RVec (exfil_extract (sc_exfil s)))] else [])"
  using assms
  by (auto simp: check_windows_def start_windows_def emit_1s_window_def emit_5s_window_def
      emit_60s_window_def dict_update_def dict_set_def dict_del_def due_def live_def windows_ok_def Let_def)

lemma check_windows_state:
  fixes digest :: "string \<Rightarrow> nat" and m :: packet_meta and now :: real
  assumes "windows_ok s"
  defines "r \<equiv> snd (check_windows digest s m now)"
  shows "window_1s r = window_1s s" "window_5s r = window_5s s" "window_60s r = window_60s s"
    "last_1s r = (if live s now \<and> \<not> window_1s s \<le> now - last_1s s then last_1s s else now)"
    "last_5s r = (if live s now \<and> \<not> window_5s s \<le> now - last_5s s then last_5s s else now)"
    "last_60s r = (if live s now \<and> \<not> window_60s s \<le> now - last_60s s then last_60s s else now)"
    "sc_dns_exfil r = sc_dns_exfil s"
    "sc_ddos r = (let d = if due window_1s last_1s s now then ddos_reset_window_counters (sc_ddos s)
                          else sc_ddos s
                  in if due window_60s last_60s s now then ddos_sweep_stale_state d (last_60s s) 60 else d)"
    "sc_beaconing r = (if due window_60s last_60s s now
       then beaconing_sweep_stale_state (sc_beaconing s) (last_60s s) 120 else sc_beaconing s)"
  using assms(1) unfolding r_def
  by (simp_all add: check_windows_def start_windows_def emit_1s_window_def emit_5s_window_def
      emit_60s_window_def due_def live_def windows_ok_def Let_def)

section \<open>Processing one packet\<close>

lemma feed_windows [simp]:
  "windows_ok (feed_extractors digest s m t dns tls) = windows_ok s"
  "live (feed_extractors digest s m t dns tls) = live s"
  "due window_1s last_1s (feed_extractors digest s m t dns tls) = due window_1s last_1s s"
  "due window_5s last_5s (feed_extractors digest s m t dns tls) = due window_5s last_5s s"
  "due window_60s last_60s (feed_extractors digest s m t dns tls) = due window_60s last_60s s"
  by (simp_all add: windows_ok_def live_def due_def fun_eq_iff feed_extractors_fields)

lemma packet_state:
  fixes digest :: "string \<Rightarrow> nat" and m :: packet_meta and t :: real
    and dns :: "dns_parsed option" and tls :: "tls_parsed option"
  assumes "windows_ok s"
  defines "r \<equiv> snd (process_packet digest s m t dns tls)"
    and "d \<equiv> sc_ddos (feed_extractors digest s m t dns tls)"
  shows "window_1s r = window_1s s" "window_5s r = window_5s s" "window_60s r = window_60s s"
    "last_1s r = (if live s t \<and> \<not> window_1s s \<le> t - last_1s s then last_1s s else t)"
    "last_5s r = (if live s t \<and> \<not> window_5s s \<le> t - last_5s s then last_5s s else t)"
    "last_60s r = (if live s t \<and> \<not> window_60s s \<le> t - last_60s s then last_60s s else t)"
    "sc_dns_exfil r = (if dns = None then sc_dns_exfil s
       else dns_exfil_update (sc_dns_exfil s) dns (window_60s s \<le> t - last_60s s))"
    "sc_ddos r = (let d' = if due window_1s last_1s s t then ddos_reset_window_counters d else d
                  in if due window_60s last_60s s t then ddos_sweep_stale_state d' (last_60s s) 60 else d')"
    "sc_beaconing r = (let b = beaconing_update digest (sc_beaconing s) m t
                       in if due window_60s last_60s s t
                          then beaconing_sweep_stale_state b (last_60s s) 120 else b)"
  using assms(1) unfolding r_def d_def process_packet_def
  by (simp_all only: check_windows_state feed_windows feed_extractors_fields Let_def)

lemma process_packet_keys:
  assumes "windows_ok s"
  shows "map fst (fst (process_packet digest s m t dns tls)) =
     (if due window_1s last_1s s t then [''ddos'', ''recon''] else [])
     @ (if due window_5s last_5s s t then [''dga'', ''encrypted'', ''dns_exfil''] else [])
     @ (if due window_60s last_60s s t then [''beaconing'', ''exfil''] else [])"
  using assms by (simp add: process_packet_def check_windows_fired)

lemma dict_has_keys: "dict_has d k \<longleftrightarrow> k \<in> set (map fst d)"
  by (simp add: dict_has_def)

lemma process_packet_windows_ok:
  "windows_ok s \<Longrightarrow> windows_ok (snd (process_packet digest s m t dns tls))"
  using packet_state(1-3) [of s digest m t dns tls] by (simp add: windows_ok_def)



section \<open>Emission rate\<close>

type_synonym parsed_packet = "packet_meta \<times> real \<times> dns_parsed option \<times> tls_parsed option"

fun scheduler_run :: "(string \<Rightarrow> nat) \<Rightarrow> scheduler \<Rightarrow> parsed_packet list \<Rightarrow> fired list \<times> scheduler" where
  "scheduler_run digest s [] = ([], s)"
| "scheduler_run digest s ((m, t, dns, tls) # ps) =
     (let (f, s) = process_packet digest s m t dns tls; (fs, s) = scheduler_run digest s ps
      in (f # fs, s))"

definition packet_times :: "parsed_packet list \<Rightarrow> real list" where
  "packet_times ps = map (\<lambda>(m, t, dns, tls). t) ps"

definition fired_count :: "string \<Rightarrow> fired list \<Rightarrow> nat" where
  "fired_count k fs = length (filter (\<lambda>f. dict_has f k) fs)"

definition ready :: "scheduler \<Rightarrow> real \<Rightarrow> bool" where
  "ready s t \<longleftrightarrow> windows_ok s \<and> 0 < last_1s s \<and> last_1s s \<le> t \<and> last_5s s \<le> t \<and> last_60s s \<le> t"

lemma process_packet_ready:
  "ready s t0 \<Longrightarrow> t0 \<le> t \<Longrightarrow> ready (snd (process_packet digest s m t dns tls)) t"
  by (auto simp: ready_def packet_state process_packet_windows_ok)

lemma first_packet_ready:
  fixes digest :: "string \<Rightarrow> nat" and m :: packet_meta and t :: real
    and dns :: "dns_parsed option" and tls :: "tls_parsed option"
  assumes "0 < w1" "0 < w5" "0 < w60" "0 < t"
  defines "r \<equiv> snd (process_packet digest (scheduler_init w1 w5 w60) m t dns tls)"
  shows "ready r t" "last_1s r = t" "last_5s r = t" "last_60s r = t"
proof -
  have "windows_ok (scheduler_init w1 w5 w60)"
    using assms by (simp add: windows_ok_def scheduler_init_def)
  moreover have "\<not> live (scheduler_init w1 w5 w60) t" by (simp add: live_def scheduler_init_def)
  ultimately show "ready r t" "last_1s r = t" "last_5s r = t" "last_60s r = t"
    using \<open>0 < t\<close> by (simp_all add: r_def ready_def packet_state process_packet_windows_ok)
qed

locale tumbling_window =
  fixes digest :: "string \<Rightarrow> nat" and window start :: "scheduler \<Rightarrow> real" and key :: string
  assumes keeps_length: "windows_ok s \<Longrightarrow> window (snd (process_packet digest s m t dns tls)) = window s"
    and restarts: "windows_ok s \<Longrightarrow> start (snd (process_packet digest s m t dns tls))
      = (if live s t \<and> \<not> window s \<le> t - start s then start s else t)"
    and fires: "windows_ok s \<Longrightarrow>
      dict_has (fst (process_packet digest s m t dns tls)) key \<longleftrightarrow> due window start s t"
    and window_pos: "windows_ok s \<Longrightarrow> 0 < window s"
    and started: "ready s t \<Longrightarrow> start s \<le> t"
begin

lemma open_after: "windows_ok s \<Longrightarrow> t - start (snd (process_packet digest s m t dns tls)) < window s"
  using window_pos [of s] by (simp add: restarts not_le)

lemma rate:
  assumes "ready s t0" and "sorted (t0 # packet_times ps)" and "t0 - start s < window s"
  shows "real (fired_count key (fst (scheduler_run digest s ps))) * window s
           \<le> start (snd (scheduler_run digest s ps)) - start s
    \<and> start (snd (scheduler_run digest s ps)) \<le> last (t0 # packet_times ps)
    \<and> last (t0 # packet_times ps) - start (snd (scheduler_run digest s ps)) < window s"
  using assms
proof (induction ps arbitrary: s t0)
  case Nil
  then show ?case by (simp add: packet_times_def fired_count_def started)
next
  case (Cons p ps)
  obtain m t dns tls where p: "p = (m, t, dns, tls)" by (cases p)
  define r where "r = snd (process_packet digest s m t dns tls)"
  have ok: "windows_ok s" and "live s t" "t0 \<le> t"
    using Cons.prems(1,2) by (auto simp: ready_def live_def p packet_times_def)
  have "ready r t" unfolding r_def using Cons.prems(1) \<open>t0 \<le> t\<close> by (rule process_packet_ready)
  moreover have "sorted (t # packet_times ps)" using Cons.prems(2) by (simp add: p packet_times_def)
  moreover have "window r = window s" using keeps_length [OF ok] by (simp add: r_def)
  ultimately have IH: "real (fired_count key (fst (scheduler_run digest r ps))) * window s
       \<le> start (snd (scheduler_run digest r ps)) - start r
    \<and> start (snd (scheduler_run digest r ps)) \<le> last (t # packet_times ps)
    \<and> last (t # packet_times ps) - start (snd (scheduler_run digest r ps)) < window s"
    using Cons.IH [of r t] open_after [OF ok] by (simp add: r_def)
  let ?f = "fst (process_packet digest s m t dns tls)"
  have run: "fst (scheduler_run digest s (p # ps)) = ?f # fst (scheduler_run digest r ps)"
    "snd (scheduler_run digest s (p # ps)) = snd (scheduler_run digest r ps)"
    by (simp_all add: p r_def case_prod_unfold Let_def)
  have "(if dict_has ?f key then 1 else 0) * window s \<le> start r - start s"
    using fires [OF ok, of m t dns tls] restarts [OF ok, of m t dns tls] \<open>live s t\<close>
    by (auto simp: r_def due_def)
  moreover have "real (fired_count key (?f # fs)) * window s
      = (if dict_has ?f key then 1 else 0) * window s + real (fired_count key fs) * window s" for fs
    by (simp add: fired_count_def algebra_simps)
  moreover have "last (t0 # packet_times (p # ps)) = last (t # packet_times ps)"
    by (simp add: p packet_times_def)
  ultimately show ?case using IH unfolding run by simp
qed

end

interpretation win_1s: tumbling_window digest window_1s last_1s "''ddos''" for digest
  by unfold_locales
    (simp_all add: packet_state dict_has_keys process_packet_keys ready_def del: set_map,
     simp add: windows_ok_def)

interpretation win_5s: tumbling_window digest window_5s last_5s "''dga''" for digest
  by unfold_locales
    (simp_all add: packet_state dict_has_keys process_packet_keys ready_def del: set_map,
     simp add: windows_ok_def)

interpretation win_60s: tumbling_window digest window_60s last_60s "''beaconing''" for digest
  by unfold_locales
    (simp_all add: packet_state dict_has_keys process_packet_keys ready_def del: set_map,
     simp add: windows_ok_def)

lemma scheduler_run_first:
  "scheduler_run digest s ((m, t, dns, tls) # ps) =
     (fst (process_packet digest s m t dns tls)
        # fst (scheduler_run digest (snd (process_packet digest s m t dns tls)) ps),
      snd (scheduler_run digest (snd (process_packet digest s m t dns tls)) ps))"
  by (simp add: case_prod_unfold Let_def)



section \<open>DDoS counters tumble with the 1-second window\<close>

lemma ddos_sweep_counters [simp]:
  "dd_syn_count (ddos_sweep_stale_state d t ttl) = dd_syn_count d"
  "dd_syn_ack_count (ddos_sweep_stale_state d t ttl) = dd_syn_ack_count d"
  "amp_req_bytes (ddos_sweep_stale_state d t ttl) = amp_req_bytes d"
  "amp_res_bytes (ddos_sweep_stale_state d t ttl) = amp_res_bytes d"
  by (simp_all add: ddos_sweep_stale_state_def)

definition counters :: "ddos_features \<Rightarrow> int \<times> int \<times> int \<times> int" where
  "counters d = (dd_syn_count d, dd_syn_ack_count d, amp_req_bytes d, amp_res_bytes d)"

definition window_counts :: "packet_meta list \<Rightarrow> int \<times> int \<times> int \<times> int" where
  "window_counts ms = (count_of (is_tcp_flag 2) ms, count_of (is_tcp_flag 18) ms,
     len_of amp_request ms, len_of amp_response ms)"

definition metas :: "parsed_packet list \<Rightarrow> packet_meta list" where
  "metas ps = map fst ps"

lemma count_of_append [simp]: "count_of P (xs @ ys) = count_of P xs + count_of P ys"
  by (simp add: count_of_def)

lemma len_of_append [simp]: "len_of P (xs @ ys) = len_of P xs + len_of P ys"
  by (simp add: len_of_def)

lemma fed_counters:
  assumes "counters (sc_ddos s) = window_counts ms"
  shows "counters (sc_ddos (feed_extractors digest s m t dns tls)) = window_counts (ms @ [m])"
  using assms
  by (auto simp: counters_def window_counts_def feed_extractors_fields ddos_update_counters
      is_tcp_flag_def amp_request_def amp_response_def)

lemma packet_counters:
  assumes "windows_ok s" and "counters (sc_ddos s) = window_counts ms"
  shows "counters (sc_ddos (snd (process_packet digest s m t dns tls)))
    = window_counts (if due window_1s last_1s s t then [] else ms @ [m])"
proof -
  have "counters (ddos_reset_window_counters d) = window_counts []" for d
    by (simp add: counters_def window_counts_def ddos_reset_window_counters_def)
  moreover have "counters (ddos_sweep_stale_state d t' ttl) = counters d" for d t' ttl
    by (simp add: counters_def)
  ultimately show ?thesis
    using fed_counters [OF assms(2), of digest m t dns tls]
    by (simp add: packet_state(8) [OF assms(1)] Let_def)
qed

lemma quiet_run_counters:
  assumes "windows_ok s" and "counters (sc_ddos s) = window_counts ms"
    and "scheduler_run digest s ps = (fs, s')" and "fired_count ''ddos'' fs = 0"
  shows "windows_ok s' \<and> counters (sc_ddos s') = window_counts (ms @ metas ps)"
  using assms
proof (induction ps arbitrary: s ms fs)
  case Nil
  then show ?case by (simp add: metas_def)
next
  case (Cons p ps)
  obtain m t dns tls where p: "p = (m, t, dns, tls)" by (cases p)
  let ?r = "snd (process_packet digest s m t dns tls)"
  have "\<not> due window_1s last_1s s t"
    using Cons.prems(3,4) win_1s.fires [OF Cons.prems(1), of digest m t dns tls]
    unfolding p scheduler_run_first by (auto simp: fired_count_def)
  then have "counters (sc_ddos ?r) = window_counts (ms @ [m])"
    using packet_counters [OF Cons.prems(1,2)] by simp
  moreover have "scheduler_run digest ?r ps = (tl fs, s')" and "fired_count ''ddos'' (tl fs) = 0"
    using Cons.prems(3,4) unfolding p scheduler_run_first
    by (auto simp: fired_count_def split: if_splits)
  ultimately show ?case
    using Cons.IH [OF process_packet_windows_ok [OF Cons.prems(1)]]
    by (simp add: p metas_def)
qed

lemma rollup_vector:
  assumes "windows_ok s" and "counters (sc_ddos s) = (0, 0, 0, 0)"
    and "scheduler_run digest s ps = (fs, s')" and "fired_count ''ddos'' fs = 0"
    and "process_packet digest s' m t dns tls = (f, s'')" and "map_of f ''ddos'' = Some (RVec v)"
  obtains d where "v = ddos_extract d (dst_ip m)" and "counters d = window_counts (metas ps @ [m])"
    and "counters (sc_ddos s'') = (0, 0, 0, 0)"
proof -
  have "windows_ok s' \<and> counters (sc_ddos s') = window_counts (metas ps)"
    using quiet_run_counters [OF assms(1) _ assms(3,4), of "[]"] assms(2)
    by (simp add: window_counts_def)
  then have ok: "windows_ok s'" and c: "counters (sc_ddos s') = window_counts (metas ps)" by auto
  have f: "f = fst (process_packet digest s' m t dns tls)" using assms(5) by simp
  have due: "due window_1s last_1s s' t"
    using win_1s.fires [OF ok, of digest m t dns tls] assms(6) by (simp add: f dict_has_iff)
  then have "v = ddos_extract (sc_ddos (feed_extractors digest s' m t dns tls)) (dst_ip m)"
    using assms(6) ok unfolding f process_packet_def by (simp add: check_windows_fired)
  moreover have "counters (sc_ddos s'') = (0, 0, 0, 0)"
    using packet_counters [OF ok c, of digest m t dns tls] due assms(5) by (simp add: window_counts_def)
  ultimately show ?thesis using that fed_counters [OF c, of digest m t dns tls] by blast
qed

lemma ddos_vector_counts:
  assumes "counters d = window_counts ms"
  shows "dict_get (ddos_extract d dst) ''syn_synack_ratio'' 0
        = real_of_int (count_of (is_tcp_flag 2) ms) / real_of_int (max 1 (count_of (is_tcp_flag 18) ms))"
    and "dict_get (ddos_extract d dst) ''amp_byte_ratio'' 0
        = real_of_int (len_of amp_response ms) / real_of_int (max 1 (len_of amp_request ms))"
  using assms by (simp_all add: ddos_extract_def Let_def dict_get_def counters_def window_counts_def)

text \<open>
  C28. The 1-second DDoS vector is about its own window only: if the counters were just reset,
  and after any packets that fired no 1-second rollup one packet fires it, then the ratios
  it carries count exactly the packets since the reset, this one included; and the firing
  leaves the counters reset again, so consecutive rollups count disjoint packets.
\<close>

theorem ddos_rollup_counts_its_window:
  fixes digest :: "string \<Rightarrow> nat"
  assumes "windows_ok s" and "counters (sc_ddos s) = (0, 0, 0, 0)"
    and "scheduler_run digest s ps = (fs, s')" and "fired_count ''ddos'' fs = 0"
    and "process_packet digest s' m t dns tls = (f, s'')" and "map_of f ''ddos'' = Some (RVec v)"
  defines "ms \<equiv> metas ps @ [m]"
  shows "dict_get v ''syn_synack_ratio'' 0
        = real_of_int (count_of (is_tcp_flag 2) ms) / real_of_int (max 1 (count_of (is_tcp_flag 18) ms))
    \<and> dict_get v ''amp_byte_ratio'' 0
        = real_of_int (len_of amp_response ms) / real_of_int (max 1 (len_of amp_request ms))
    \<and> counters (sc_ddos s'') = (0, 0, 0, 0)"
proof -
  obtain d where v: "v = ddos_extract d (dst_ip m)" and d: "counters d = window_counts ms"
    and z: "counters (sc_ddos s'') = (0, 0, 0, 0)"
    unfolding ms_def by (rule rollup_vector [OF assms(1-6)])
  show ?thesis using z by (simp add: v ddos_vector_counts [OF d])
qed

theorem ddos_rollup_counts_its_window_witness:
  "\<exists>f s'' v. process_packet length ((scheduler_init 1 5 60)\<lparr>last_1s := 10, last_5s := 10, last_60s := 10\<rparr>)
      sample_meta 11 None None = (f, s'') \<and> map_of f ''ddos'' = Some (RVec v)
     \<and> dict_get v ''syn_synack_ratio'' 0 = 1"
proof -
  let ?s = "(scheduler_init 1 5 60)\<lparr>last_1s := 10, last_5s := 10, last_60s := 10\<rparr>"
  obtain f s'' where step: "process_packet length ?s sample_meta 11 None None = (f, s'')" by fastforce
  have ok: "windows_ok ?s" and c: "counters (sc_ddos ?s) = (0, 0, 0, 0)"
    by (simp_all add: windows_ok_def scheduler_init_def counters_def ddos_init_def)
  have "f = fst (process_packet length ?s sample_meta 11 None None)" using step by simp
  then have "\<exists>v. map_of f ''ddos'' = Some (RVec v)"
    using ok by (simp add: process_packet_def check_windows_fired)
      (simp add: due_def live_def scheduler_init_def)
  then obtain v where v: "map_of f ''ddos'' = Some (RVec v)" by blast
  show ?thesis
    using ddos_rollup_counts_its_window [OF ok c _ _ step v, of "[]" "[]"] step v
    by (simp add: fired_count_def metas_def is_tcp_flag_def sample_meta_def)
qed

section \<open>Sweeps and the minute reset\<close>

definition scheduler_wf :: "scheduler \<Rightarrow> bool" where
  "scheduler_wf s \<longleftrightarrow> windows_ok s \<and> dict_wf (dst_state (sc_ddos s)) \<and> dict_wf (flow_iats (sc_beaconing s))"

lemma fed_wf:
  assumes "scheduler_wf s"
  shows "scheduler_wf (feed_extractors digest s m t dns tls)"
  using assms
  by (auto simp: scheduler_wf_def feed_extractors_fields ddos_update_counters
      beaconing_update_def Let_def)

lemma reset_dst_state [simp]: "dst_state (ddos_reset_window_counters d) = dst_state d"
  by (simp add: ddos_reset_window_counters_def)

lemma process_packet_wf: "scheduler_wf s \<Longrightarrow> scheduler_wf (snd (process_packet digest s m t dns tls))"
  using fed_wf [of s digest m t dns tls]
  by (auto simp: scheduler_wf_def packet_state process_packet_windows_ok Let_def
      feed_extractors_fields ddos_sweep.sweep_wf beaconing_sweep.sweep_wf)

lemma scheduler_init_wf: "0 < w1 \<Longrightarrow> 0 < w5 \<Longrightarrow> 0 < w60 \<Longrightarrow> scheduler_wf (scheduler_init w1 w5 w60)"
  by (simp add: scheduler_wf_def windows_ok_def scheduler_init_def ddos_init_def beaconing_init_def)

text \<open>
  The sweeps bound the per-destination and per-pair state: after a packet that closes a
  minute, every kept destination was seen no earlier than 60 s, and every kept pair no
  earlier than 120 s, before that minute began, and the destination and the pair of the
  packet itself are kept. (The sweeps compare with the start of the closing minute, so an
  entry may outlive its time-to-live by up to the length of the window.)
\<close>

theorem scheduler_sweep_bounds_state:
  fixes digest :: "string \<Rightarrow> nat"
  assumes "scheduler_wf s" and "live s t" and "window_60s s \<le> t - last_60s s"
    and "process_packet digest s m t dns tls = (f, s')"
  shows "(\<forall>(k, st)\<in>set (dst_state (sc_ddos s')). last_60s s - 60 \<le> ds_last_time st)
    \<and> (\<forall>(k, st)\<in>set (flow_iats (sc_beaconing s')). last_60s s - 120 \<le> ia_last_time st)
    \<and> dict_has (flow_iats (sc_beaconing s')) (pair_key (src_ip m) (dst_ip m))
    \<and> (protocol m = Some ''TCP'' \<longrightarrow> dict_has (dst_state (sc_ddos s')) (dst_ip m))"
proof -
  have ok: "windows_ok s" and due: "due window_60s last_60s s t"
    using assms(1-3) by (simp_all add: scheduler_wf_def due_def)
  define d where "d = (if due window_1s last_1s s t
      then ddos_reset_window_counters (sc_ddos (feed_extractors digest s m t dns tls))
      else sc_ddos (feed_extractors digest s m t dns tls))"
  define b where "b = beaconing_update digest (sc_beaconing s) m t"
  have s': "sc_ddos s' = ddos_sweep_stale_state d (last_60s s) 60"
    "sc_beaconing s' = beaconing_sweep_stale_state b (last_60s s) 120"
    using packet_state(8,9) [OF ok, of digest m t dns tls] assms(4) due
    by (simp_all add: d_def b_def Let_def)
  have wf: "dict_wf (dst_state d)" "dict_wf (flow_iats b)"
    using fed_wf [OF assms(1), of digest m t dns tls]
    by (simp_all add: scheduler_wf_def d_def b_def feed_extractors_fields)
  have "0 < window_60s s" using ok by (simp add: windows_ok_def)
  then have old: "last_60s s \<le> t" using assms(3) by linarith
  have pair: "map_of (flow_iats b) (pair_key (src_ip m) (dst_ip m))
      = Some (iat_stat_update (map_of (flow_iats (sc_beaconing s)) (pair_key (src_ip m) (dst_ip m))) t)"
    by (simp add: b_def beaconing_update_def Let_def map_of_dict_set)
  have lt: "ia_last_time (iat_stat_update x t) = t" for x
    by (simp add: iat_stat_update_def Let_def split: option.splits)
  have "dict_has (flow_iats (sc_beaconing s')) (pair_key (src_ip m) (dst_ip m))"
    using beaconing_sweep.sweep_keeps_fresh [OF wf(2) pair, of "last_60s s" 120] old
    by (simp add: s' dict_has_iff lt)
  moreover have "dict_has (dst_state (sc_ddos s')) (dst_ip m)" if "protocol m = Some ''TCP''"
  proof -
    have dst: "map_of (dst_state d) (dst_ip m)
        = Some (dst_stat_update (map_of (dst_state (sc_ddos s)) (dst_ip m)) m t)"
      using that by (simp add: d_def feed_extractors_fields ddos_update_counters map_of_dict_set)
    have "ds_last_time (dst_stat_update x m t) = t" for x
      by (simp add: dst_stat_update_def Let_def split: option.splits)
    with ddos_sweep.sweep_keeps_fresh [OF wf(1) dst, of "last_60s s" 60] old show ?thesis
      by (simp add: s' dict_has_iff)
  qed
  ultimately show ?thesis
    using ddos_sweep.sweep_removes_stale [OF wf(1), of _ _ "last_60s s" 60]
      beaconing_sweep.sweep_removes_stale [OF wf(2), of _ _ "last_60s s" 120]
    by (fastforce simp: s')
qed

theorem scheduler_sweep_bounds_state_witness:
  "\<exists>f s'. process_packet length ((scheduler_init 1 5 60)\<lparr>last_1s := 10, last_5s := 10, last_60s := 10\<rparr>)
      sample_meta 70 None None = (f, s')
     \<and> (\<forall>(k, st)\<in>set (dst_state (sc_ddos s')). -50 \<le> ds_last_time st)
     \<and> dict_has (dst_state (sc_ddos s')) ''8.8.8.8''"
proof -
  let ?s = "(scheduler_init 1 5 60)\<lparr>last_1s := 10, last_5s := 10, last_60s := 10\<rparr>"
  obtain f s' where step: "process_packet length ?s sample_meta 70 None None = (f, s')" by fastforce
  have wf: "scheduler_wf ?s"
    by (simp add: scheduler_wf_def windows_ok_def scheduler_init_def ddos_init_def beaconing_init_def)
  have "live ?s 70" and "window_60s ?s \<le> 70 - last_60s ?s"
    by (simp_all add: live_def scheduler_init_def)
  from scheduler_sweep_bounds_state [OF wf this step] step show ?thesis
    by (auto simp: sample_meta_def)
qed

text \<open>
  The DNS-exfiltration counters are documented as per-minute, but they are only reset by
  a DNS message that itself arrives when the minute is over. When any packet without DNS
  closes the minute first, a DNS message arriving inside the next minute is added to the
  counts of the previous one: nothing is reset, for any state, packet and message.
\<close>

theorem dns_minute_carries_over:
  fixes digest :: "string \<Rightarrow> nat"
  assumes "windows_ok s" and "window_60s s \<le> t - last_60s s"
    and "process_packet digest s m t None tls = (f, s')"
    and "t' < t + window_60s s"
    and "process_packet digest s' m' t' (Some d) tls' = (f', s'')"
  shows "last_60s s' = t
    \<and> txt_cname_queries (sc_dns_exfil s'')
        = txt_cname_queries (sc_dns_exfil s) + int (length (carrier_names [d]))"
proof -
  have s': "s' = snd (process_packet digest s m t None tls)"
    and s'': "s'' = snd (process_packet digest s' m' t' (Some d) tls')" using assms(3,5) by simp_all
  have ok': "windows_ok s'" using process_packet_windows_ok [OF assms(1)] by (simp add: s')
  have "last_60s s' = t" "window_60s s' = window_60s s" "sc_dns_exfil s' = sc_dns_exfil s"
    using assms(2) by (simp_all add: s' packet_state [OF assms(1)])
  moreover have "sc_dns_exfil s'' = dns_exfil_update (sc_dns_exfil s') (Some d)
      (window_60s s' \<le> t' - last_60s s')"
    by (simp add: s'' packet_state [OF ok'])
  moreover have "dns_exfil_update x (Some d) False = dns_exfil_run x [d]" for x
    by (simp add: dns_exfil_run_def)
  ultimately show ?thesis using assms(4) by (simp add: dns_exfil_run_totals)
qed

theorem dns_minute_carries_over_witness:
  "\<exists>f s' f' s''.
     process_packet length ((scheduler_init 1 5 60)\<lparr>last_1s := 10, last_5s := 10, last_60s := 10,
        sc_dns_exfil := \<lparr>txt_cname_queries = 7, total_query_len = 70, total_entropy = 0\<rparr>\<rparr>)
        sample_meta 70 None None = (f, s')
     \<and> process_packet length s' sample_meta 71
          (Some \<lparr>queries = [\<lparr>q_name = Some ''x'', q_type = Some (QInt 16)\<rparr>], answers = [], nxdomain = None\<rparr>)
          None = (f', s'')
     \<and> txt_cname_queries (sc_dns_exfil s'') = 8"
proof -
  let ?s = "(scheduler_init 1 5 60)\<lparr>last_1s := 10, last_5s := 10, last_60s := 10,
        sc_dns_exfil := \<lparr>txt_cname_queries = 7, total_query_len = 70, total_entropy = 0\<rparr>\<rparr>"
  let ?d = "\<lparr>queries = [\<lparr>q_name = Some ''x'', q_type = Some (QInt 16)\<rparr>], answers = [], nxdomain = None\<rparr>"
  obtain f s' where 1: "process_packet length ?s sample_meta 70 None None = (f, s')" by fastforce
  obtain f' s'' where 2: "process_packet length s' sample_meta 71 (Some ?d) None = (f', s'')" by fastforce
  have "windows_ok ?s" "window_60s ?s \<le> 70 - last_60s ?s"
    by (simp_all add: windows_ok_def scheduler_init_def)
  from dns_minute_carries_over [OF this 1 _ 2] 1 2 show ?thesis
    by (auto simp: scheduler_init_def carrier_names_def txt_or_cname_def)
qed

lemma scheduler_run_windows:
  assumes "windows_ok s"
  shows "windows_ok (snd (scheduler_run digest s ps))"
    and "window_1s (snd (scheduler_run digest s ps)) = window_1s s"
proof -
  have "windows_ok (snd (scheduler_run digest s ps)) \<and> window_1s (snd (scheduler_run digest s ps)) = window_1s s"
    using assms
  proof (induction ps arbitrary: s)
    case Nil
    then show ?case by simp
  next
    case (Cons p ps)
    obtain m t dns tls where p: "p = (m, t, dns, tls)" by (cases p)
    show ?case
      using Cons.IH [OF process_packet_windows_ok [OF Cons.prems, of digest m t dns tls]]
        packet_state(1) [OF Cons.prems, of digest m t dns tls]
      by (simp only: p scheduler_run_first snd_conv)
  qed
  then show "windows_ok (snd (scheduler_run digest s ps))"
    and "window_1s (snd (scheduler_run digest s ps)) = window_1s s" by auto
qed

end
