(* ===== verification/Detectors.thy ===== *)
theory Detectors
  imports Features
begin

text \<open>
  The seven threat detectors of \<^verbatim>\<open>models/*.py\<close>. Each maps a feature vector to a score, the
  features it used and an explanation; a trained model, when one is loaded, decides the cases
  the deterministic rules leave open. Trained models (LightGBM, scikit-learn, PyTorch) and
  the two numpy reductions are third-party code: a model is a record of functions that may
  raise, and every theorem says what it needs of it. The conversion of a row to \<^verbatim>\<open>float32\<close>
  is part of what the model does with its input.

  The contract of \<^verbatim>\<open>models/base_detector.py\<close> (a score between 0 and 1, an explanation for
  every detection) is the locale \<open>detector\<close>; all seven detectors interpret it.
\<close>

section \<open>Models and predictions\<close>

type_synonym prediction = "real \<times> fvec \<times> string"

text \<open>\<open>ml_predict_proba\<close> is \<open>None\<close> for a model without that attribute.\<close>

record ml_model =
  ml_predict_proba :: "(real list list \<Rightarrow> real list list result) option"
  ml_predict :: "real list list \<Rightarrow> int list result"
  ml_decision_function :: "real list list \<Rightarrow> real list result"

definition proba_score :: "real list \<Rightarrow> real result" where
  "proba_score probs = (if 1 < length probs then Inr (probs ! 1) else py_index probs 0)"

definition load_model ::
    "(string \<Rightarrow> bool) \<Rightarrow> (string \<Rightarrow> ml_model result) \<Rightarrow> string option \<Rightarrow> ml_model option result" where
  "load_model path_exists joblib_load model_path =
     (case model_path of None \<Rightarrow> Inr None
      | Some p \<Rightarrow> if p \<noteq> [] \<and> path_exists p then bind_result (joblib_load p) (\<lambda>m. Inr (Some m))
                  else Inr None)"

fun base_predict_batch :: "('f \<Rightarrow> 'p result) \<Rightarrow> 'f list \<Rightarrow> 'p list result" where
  "base_predict_batch predict [] = Inr []"
| "base_predict_batch predict (fv # fvs) =
     bind_result (predict fv) (\<lambda>p. bind_result (base_predict_batch predict fvs) (\<lambda>ps. Inr (p # ps)))"

section \<open>DDoS\<close>

definition ddos_used :: "fvec \<Rightarrow> fvec" where
  "ddos_used fv =
     [(''syn_synack_ratio'', dict_get fv ''syn_synack_ratio'' 0),
      (''dst_pkt_ewma'', dict_get fv ''dst_pkt_ewma'' 0),
      (''amp_byte_ratio'', dict_get fv ''amp_byte_ratio'' 0),
      (''src_ip_entropy'', dict_get fv ''src_ip_entropy'' 0)]"

definition ddos_predict :: "ml_model option \<Rightarrow> fvec \<Rightarrow> prediction result" where
  "ddos_predict model fv =
     (let syn_ratio = dict_get fv ''syn_synack_ratio'' 0; pkt_ewma = dict_get fv ''dst_pkt_ewma'' 0;
          amp_ratio = dict_get fv ''amp_byte_ratio'' 0; entropy = dict_get fv ''src_ip_entropy'' 0;
          byte_ewma = dict_get fv ''dst_byte_ewma'' 0; used = ddos_used fv
      in if pkt_ewma < 2 \<and> syn_ratio < 2 \<and> amp_ratio < 5 \<and> entropy < 3 then Inr (0, used, [])
         else if 10 < syn_ratio then
           Inr (95 / 100, used, ''High probability of SYN Flood: SYN to SYN-ACK ratio is ''
                  @ fmt_fixed 1 syn_ratio @ ''x.'')
         else if 10 < amp_ratio then
           Inr (98 / 100, used,
                ''UDP Reflection/Amplification Flood: Outbound-to-inbound byte amplification ratio is ''
                  @ fmt_fixed 1 amp_ratio @ ''x.'')
         else if 3 < entropy \<and> (5 < pkt_ewma \<or> 1000 < byte_ewma) then
           Inr (92 / 100, used, ''Spoofed IP Volumetric Flood: Source IP entropy is ''
                  @ fmt_fixed 2 entropy @ '' bits.'')
         else (case model of None \<Rightarrow> Inr (0, used, [])
               | Some m \<Rightarrow>
                   (case ml_predict_proba m of
                      Some proba \<Rightarrow>
                        bind_result (proba [[syn_ratio, pkt_ewma]]) (\<lambda>rows.
                        bind_result (py_index rows 0) (\<lambda>probs.
                        bind_result (proba_score probs) (\<lambda>score.
                          Inr (score, used,
                               if 1 / 2 < score then ''LGBM classifier flagged flow with confidence ''
                                 @ fmt_fixed 2 score @ ''.'' else []))))
                    | None \<Rightarrow>
                        bind_result (ml_predict m [[syn_ratio, pkt_ewma]]) (\<lambda>preds.
                        bind_result (py_index preds 0) (\<lambda>pred.
                          if pred = -1 then Inr (8 / 10, used, ''Isolation Forest detected volumetric anomaly.'')
                          else Inr (0, used, []))))))"

text \<open>
  The batch version: one pass applies the rules, leaves a placeholder for the rows that go
  to the model and collects them; one model call scores all collected rows and its results
  are written back at their indices.
\<close>

record ddos_batch =
  db_results :: "prediction option list"
  db_indices :: "nat list"
  db_X :: "real list list"

definition ddos_batch_step :: "ml_model option \<Rightarrow> ddos_batch \<Rightarrow> nat \<times> fvec \<Rightarrow> ddos_batch" where
  "ddos_batch_step model b ifv =
     (let (i, fv) = ifv;
          syn_ratio = dict_get fv ''syn_synack_ratio'' 0; pkt_ewma = dict_get fv ''dst_pkt_ewma'' 0;
          amp_ratio = dict_get fv ''amp_byte_ratio'' 0; entropy = dict_get fv ''src_ip_entropy'' 0;
          byte_ewma = dict_get fv ''dst_byte_ewma'' 0; used = ddos_used fv;
          append_res = (\<lambda>p. b\<lparr>db_results := db_results b @ [p]\<rparr>)
      in if pkt_ewma < 2 \<and> syn_ratio < 2 \<and> amp_ratio < 5 \<and> entropy < 3 then append_res (Some (0, used, []))
         else if 10 < syn_ratio then
           append_res (Some (95 / 100, used, ''High probability of SYN Flood: SYN to SYN-ACK ratio is ''
                  @ fmt_fixed 1 syn_ratio @ ''x.''))
         else if 10 < amp_ratio then
           append_res (Some (98 / 100, used,
                ''UDP Reflection/Amplification Flood: Outbound-to-inbound byte amplification ratio is ''
                  @ fmt_fixed 1 amp_ratio @ ''x.''))
         else if 3 < entropy \<and> (5 < pkt_ewma \<or> 1000 < byte_ewma) then
           append_res (Some (92 / 100, used, ''Spoofed IP Volumetric Flood: Source IP entropy is ''
                  @ fmt_fixed 2 entropy @ '' bits.''))
         else (case model of None \<Rightarrow> append_res (Some (0, used, []))
               | Some m \<Rightarrow> \<lparr>db_results = db_results b @ [None], db_indices = db_indices b @ [i],
                            db_X = db_X b @ [[syn_ratio, pkt_ewma]]\<rparr>))"

fun write_probs ::
    "fvec list \<Rightarrow> prediction option list \<Rightarrow> (nat \<times> real list) list \<Rightarrow> prediction option list result" where
  "write_probs fvs results [] = Inr results"
| "write_probs fvs results ((idx, prob) # rest) =
     bind_result (proba_score prob) (\<lambda>score.
       let expl = (if 1 / 2 < score then ''LGBM classifier flagged flow with confidence ''
                     @ fmt_fixed 2 score @ ''.'' else [])
       in write_probs fvs (results[idx := Some (score, ddos_used (fvs ! idx), expl)]) rest)"

definition write_preds ::
    "fvec list \<Rightarrow> prediction option list \<Rightarrow> (nat \<times> int) list \<Rightarrow> prediction option list" where
  "write_preds fvs results ips =
     foldl (\<lambda>rs (idx, pred). rs[idx := Some (if pred = -1 then 8 / 10 else 0, ddos_used (fvs ! idx),
        if pred = -1 then ''Isolation Forest detected volumetric anomaly.'' else [])]) results ips"

definition ddos_predict_batch ::
    "ml_model option \<Rightarrow> fvec list \<Rightarrow> prediction option list result" where
  "ddos_predict_batch model fvs =
     (let b = foldl (ddos_batch_step model) \<lparr>db_results = [], db_indices = [], db_X = []\<rparr>
                (zip [0..<length fvs] fvs)
      in case model of None \<Rightarrow> Inr (db_results b)
         | Some m \<Rightarrow>
             if db_X b = [] then Inr (db_results b)
             else (case ml_predict_proba m of
                     Some proba \<Rightarrow> bind_result (proba (db_X b)) (\<lambda>probs.
                       write_probs fvs (db_results b) (zip (db_indices b) probs))
                   | None \<Rightarrow> bind_result (ml_predict m (db_X b)) (\<lambda>preds.
                       Inr (write_preds fvs (db_results b) (zip (db_indices b) preds)))))"

section \<open>Beaconing\<close>

definition beaconing_predict :: "ml_model option \<Rightarrow> fvec \<Rightarrow> prediction result" where
  "beaconing_predict model fv =
     (let cv = dict_get fv ''iat_cv'' 1; mean_iat = dict_get fv ''mean_iat'' 0;
          fan_in = dict_get fv ''dst_fan_in'' 0;
          used = [(''iat_cv'', cv), (''mean_iat'', mean_iat), (''dst_fan_in'', fan_in)]
      in if mean_iat = 0 then Inr (0, used, [])
         else if 0 < mean_iat \<and> cv < 1 / 10 then
           Inr (90 / 100, used, ''High periodicity detected: IAT CV is extremely low (''
                  @ fmt_fixed 3 cv @ ''), mean IAT '' @ fmt_fixed 2 mean_iat @ ''s.'')
         else (case model of None \<Rightarrow> Inr (0, used, [])
               | Some m \<Rightarrow>
                   bind_result (ml_predict m [[cv, mean_iat]]) (\<lambda>preds.
                   bind_result (py_index preds 0) (\<lambda>pred.
                     if pred = -1 \<and> cv < 1 / 2 then
                       Inr (85 / 100, used, ''One-Class SVM flagged abnormal timing periodicity (CV=''
                              @ fmt_fixed 2 cv @ '').'')
                     else Inr (0, used, [])))))"

section \<open>DGA\<close>

definition dga_predict :: "ml_model option \<Rightarrow> fvec \<Rightarrow> prediction result" where
  "dga_predict gbt_model fv =
     (let avg_len = dict_get fv ''avg_query_length'' 0; avg_ent = dict_get fv ''avg_query_entropy'' 0;
          nx = dict_get fv ''nxdomain_rate'' 0;
          used = [(''avg_query_length'', avg_len), (''avg_query_entropy'', avg_ent), (''nxdomain_rate'', nx)]
      in if avg_len = 0 then Inr (0, used, [])
         else
           (let (score, expl) =
              (if 35 / 10 < avg_ent \<and> 15 < avg_len
               then (7 / 10, ''Heuristic Pre-filter: High query entropy ('' @ fmt_fixed 2 avg_ent
                       @ '') and length ('' @ fmt_fixed 1 avg_len @ '').'')
               else (0, []))
            in case gbt_model of None \<Rightarrow> Inr (score, used, expl)
               | Some m \<Rightarrow>
                   (case ml_predict_proba m of None \<Rightarrow> Inr (score, used, expl)
                    | Some proba \<Rightarrow>
                        bind_result (proba [map snd used]) (\<lambda>rows.
                        bind_result (py_index rows 0) (\<lambda>probs.
                        bind_result (proba_score probs) (\<lambda>gbt_score.
                          if 1 / 2 < gbt_score then
                            Inr (max score gbt_score, used,
                                 ''GBT flagged tunneling/DGA behavior (prob: '' @ fmt_fixed 2 gbt_score
                                   @ ''). '' @ expl)
                          else Inr (score, used, expl)))))))"

text \<open>
  The character-level LSTM is loaded on first use. A domain string is the list of its code
  points; the loaded network is a function from the kept code points to a probability, and
  loading fails with \<open>None\<close>.
\<close>

record dga_classifier =
  gbt_model :: "ml_model option"
  lstm_model :: "(nat list \<Rightarrow> real) option"
  lstm_model_path :: "string option"

definition ensure_lstm_loaded ::
    "(string \<Rightarrow> bool) \<Rightarrow> (string \<Rightarrow> (nat list \<Rightarrow> real) option) \<Rightarrow> dga_classifier
      \<Rightarrow> bool \<times> dga_classifier" where
  "ensure_lstm_loaded path_exists torch_load c =
     (case lstm_model c of Some _ \<Rightarrow> (True, c)
      | None \<Rightarrow>
          (case lstm_model_path c of None \<Rightarrow> (False, c)
           | Some p \<Rightarrow>
               if p = [] \<or> \<not> path_exists p then (False, c)
               else (case torch_load p of None \<Rightarrow> (False, c)
                     | Some net \<Rightarrow> (True, c\<lparr>lstm_model := Some net\<rparr>))))"

definition predict_domain_string ::
    "(string \<Rightarrow> bool) \<Rightarrow> (string \<Rightarrow> (nat list \<Rightarrow> real) option) \<Rightarrow> dga_classifier \<Rightarrow> nat list
      \<Rightarrow> (real \<times> string) \<times> dga_classifier" where
  "predict_domain_string path_exists torch_load c domain_str =
     (let (ok, c) = ensure_lstm_loaded path_exists torch_load c
      in case lstm_model c of
           None \<Rightarrow> ((0, ''LSTM not loaded''), c)
         | Some net \<Rightarrow>
             if \<not> ok then ((0, ''LSTM not loaded''), c)
             else (let indices = filter (\<lambda>n. n < 256) domain_str
                   in if indices = [] then ((0, ''Empty domain''), c)
                      else (let prob = net indices
                            in ((prob, ''LSTM DGA probability: '' @ fmt_fixed 2 prob), c))))"

section \<open>DNS exfiltration\<close>

text \<open>
  \<open>repr_num\<close> is Python's text of an unformatted number (the query rate in the heuristic's
  message).
\<close>

definition dns_exfil_heuristic :: "(real \<Rightarrow> string) \<Rightarrow> fvec \<Rightarrow> prediction" where
  "dns_exfil_heuristic repr_num f =
     (let ent = dict_get f ''txt_cname_avg_entropy'' 0; len = dict_get f ''txt_cname_avg_len'' 0;
          rate = dict_get f ''txt_cname_rate'' 0
      in if 45 / 10 < ent \<and> 40 < len \<and> 5 < rate then
           (85 / 100, f, ''High entropy ('' @ fmt_fixed 2 ent @ '') and length ('' @ fmt_fixed 1 len
              @ '') in '' @ repr_num rate @ '' TXT/CNAME queries per min.'')
         else (0, f, []))"

definition dns_exfil_prob :: "real \<Rightarrow> real result" where
  "dns_exfil_prob score =
     (if 1 + score + 1 = 0 then Inl ZeroDivisionError else Inr (1 - (1 / (1 + score + 1))))"

definition dns_exfil_model_score :: "ml_model \<Rightarrow> fvec \<Rightarrow> prediction result" where
  "dns_exfil_model_score m fv =
     (if dict_get fv ''txt_cname_rate'' 0 = 0 then Inr (0, fv, [])
      else
        bind_result (ml_decision_function m
          [map (\<lambda>k. dict_get fv k 0) [''txt_cname_rate'', ''txt_cname_avg_len'', ''txt_cname_avg_entropy'']])
          (\<lambda>scores.
        bind_result (py_index scores 0) (\<lambda>score.
        bind_result (dns_exfil_prob score) (\<lambda>prob.
          if 6 / 10 < prob then
            Inr (prob, fv, ''DNS Exfiltration detected: Entropy=''
                   @ fmt_fixed 2 (dict_get fv ''txt_cname_avg_entropy'' 0) @ '', AvgLen=''
                   @ fmt_fixed 1 (dict_get fv ''txt_cname_avg_len'' 0))
          else Inr (prob, fv, [])))))"

definition dns_exfil_predict ::
    "(real \<Rightarrow> string) \<Rightarrow> ml_model option \<Rightarrow> fvec \<Rightarrow> prediction result" where
  "dns_exfil_predict repr_num model fv =
     (case model of None \<Rightarrow> Inr (dns_exfil_heuristic repr_num fv)
      | Some m \<Rightarrow> (case dns_exfil_model_score m fv of
                     Inr p \<Rightarrow> Inr p
                   | Inl _ \<Rightarrow> Inr (dns_exfil_heuristic repr_num fv)))"

section \<open>Encrypted traffic\<close>

definition encrypted_predict ::
    "(real list \<Rightarrow> real) \<Rightarrow> (real list \<Rightarrow> real) \<Rightarrow> ml_model option \<Rightarrow> enc_features \<Rightarrow> prediction result" where
  "encrypted_predict np_mean np_var rf_model fv =
     (let sizes = opt_get (ef_packet_sizes fv) []; ipts = opt_get (ef_packet_ipts fv) [];
          sni_len = opt_get (ef_sni_length_ewma fv) 0;
          mean_size = (if sizes \<noteq> [] then np_mean sizes else 0);
          var_size = (if sizes \<noteq> [] then np_var sizes else 0);
          mean_ipt = (if ipts \<noteq> [] then np_mean ipts else 0);
          used = [(''mean_size'', mean_size), (''var_size'', var_size), (''mean_ipt'', mean_ipt),
                  (''sni_length_ewma'', sni_len)]
      in if sizes = [] \<and> ipts = [] \<and> sni_len = 0 then Inr (0, used, [])
         else (case rf_model of None \<Rightarrow> Inr (0, used, [])
               | Some m \<Rightarrow>
                   (case ml_predict_proba m of None \<Rightarrow> Inr (0, used, [])
                    | Some proba \<Rightarrow>
                        bind_result (proba [map snd used]) (\<lambda>rows.
                        bind_result (py_index rows 0) (\<lambda>probs.
                        bind_result (proba_score probs) (\<lambda>rf_score.
                          if 1 / 2 < rf_score then
                            Inr (rf_score, used,
                                 ''Random Forest detected anomalous TLS handshake sequence (score: ''
                                   @ fmt_fixed 2 rf_score @ '').'')
                          else Inr (0, used, [])))))))"

section \<open>Exfiltration and reconnaissance\<close>

definition exfil_predict :: "ml_model option \<Rightarrow> fvec \<Rightarrow> prediction result" where
  "exfil_predict iso_model fv =
     (let out_in_ratio = dict_get fv ''outbound_inbound_ratio'' 0;
          out_b = dict_get fv ''outbound_bytes_ewma'' 0; in_b = dict_get fv ''inbound_bytes_ewma'' 0;
          used = [(''outbound_inbound_ratio'', out_in_ratio), (''outbound_bytes_ewma'', out_b),
                  (''inbound_bytes_ewma'', in_b)]
      in if out_b = 0 \<and> in_b = 0 then Inr (0, used, [])
         else if 10 < out_in_ratio \<and> 5000 < out_b then
           Inr (85 / 100, used, ''High Exfiltration Risk: Outbound/Inbound byte ratio is ''
                  @ fmt_fixed 1 out_in_ratio @ ''x with high volume.'')
         else (case iso_model of None \<Rightarrow> Inr (0, used, [])
               | Some m \<Rightarrow>
                   bind_result (ml_predict m [map snd used]) (\<lambda>preds.
                   bind_result (py_index preds 0) (\<lambda>pred.
                     if pred = -1 then
                       Inr (max 0 (75 / 100), used,
                         ''Isolation Forest detected multivariate volumetric anomaly (potential exfiltration).'')
                     else Inr (0, used, [])))))"

definition recon_predict :: "ml_model option \<Rightarrow> fvec \<Rightarrow> prediction result" where
  "recon_predict iso_model fv =
     (let syn_ratio = dict_get fv ''syn_only_ratio'' 0;
          scan_activity = dict_get fv ''scan_activity_score'' 0;
          used = [(''syn_only_ratio'', syn_ratio), (''scan_activity_score'', scan_activity)]
      in if scan_activity = 0 then Inr (0, used, [])
         else if 90 / 100 < syn_ratio \<and> 50 < scan_activity then
           Inr (9 / 10, used, ''Deterministic Rule: High SYN-only ratio (''
                  @ fmt_fixed 2 syn_ratio @ '') with volume '' @ fmt_fixed 0 scan_activity @ ''.'')
         else (case iso_model of None \<Rightarrow> Inr (0, used, [])
               | Some m \<Rightarrow>
                   bind_result (ml_predict m [map snd used]) (\<lambda>preds.
                   bind_result (py_index preds 0) (\<lambda>pred.
                     if pred = -1 then
                       Inr (max 0 (75 / 100), used,
                         ''Isolation Forest flagged anomalous scanning cardinality relative to baseline.'')
                     else Inr (0, used, [])))))"

section \<open>The detector contract\<close>

text \<open>
  What the detectors rely on of a trained model, all documented scikit-learn behaviour: one
  row of class probabilities, one label and one decision value per input row, probabilities
  between 0 and 1, decision values of an isolation forest not below -1.
\<close>

definition model_ok :: "ml_model option \<Rightarrow> bool" where
  "model_ok model \<longleftrightarrow>
     (\<forall>m. model = Some m \<longrightarrow>
        (\<forall>proba X. ml_predict_proba m = Some proba \<longrightarrow>
           (\<exists>rows. proba X = Inr rows \<and> length rows = length X
              \<and> (\<forall>r\<in>set rows. r \<noteq> [] \<and> (\<forall>p\<in>set r. 0 \<le> p \<and> p \<le> 1))))
        \<and> (\<forall>X. \<exists>ps. ml_predict m X = Inr ps \<and> length ps = length X)
        \<and> (\<forall>X. \<exists>ds. ml_decision_function m X = Inr ds \<and> length ds = length X \<and> (\<forall>d\<in>set ds. -1 \<le> d)))"

fun in_unit :: "prediction result \<Rightarrow> bool" where
  "in_unit (Inl e) = False"
| "in_unit (Inr (s, u, e)) = (0 \<le> s \<and> s \<le> 1)"

fun explains :: "real \<Rightarrow> prediction result \<Rightarrow> bool" where
  "explains thr (Inl e) = True"
| "explains thr (Inr (s, u, e)) = (e \<noteq> [] \<longleftrightarrow> thr < s)"

locale detector =
  fixes predict :: "ml_model option \<Rightarrow> 'f \<Rightarrow> prediction result" and thr :: real
  assumes total: "model_ok md \<Longrightarrow> in_unit (predict md fv)"
    and explained: "explains thr (predict md fv)"
begin

lemma verdict:
  assumes "model_ok md"
  shows "\<exists>s u e. predict md fv = Inr (s, u, e) \<and> 0 \<le> s \<and> s \<le> 1 \<and> (e \<noteq> [] \<longleftrightarrow> thr < s)"
  using total [OF assms, of fv] explained [of md fv] by (cases "predict md fv") auto

lemma batch:
  assumes "model_ok md"
  shows "\<exists>ps. base_predict_batch (predict md) fvs = Inr ps \<and> length ps = length fvs
     \<and> (\<forall>(s, u, e)\<in>set ps. 0 \<le> s \<and> s \<le> 1 \<and> (e \<noteq> [] \<longleftrightarrow> thr < s))"
proof (induction fvs)
  case Nil
  then show ?case by simp
next
  case (Cons fv fvs)
  obtain s u e where "predict md fv = Inr (s, u, e)" "0 \<le> s" "s \<le> 1" "e \<noteq> [] \<longleftrightarrow> thr < s"
    using verdict [OF assms] by blast
  with Cons show ?case by auto
qed

end

lemma model_ok_proba:
  assumes "model_ok (Some m)" and "ml_predict_proba m = Some proba"
  obtains r p where "\<And>x. proba [x] = Inr [r x]" and "\<And>x. proba_score (r x) = Inr (p x)"
    and "\<And>x. 0 \<le> p x \<and> p x \<le> 1"
proof -
  have "\<exists>r p. proba [x] = Inr [r] \<and> proba_score r = Inr p \<and> 0 \<le> p \<and> p \<le> 1" for x
  proof -
    obtain rows where rows: "proba [x] = Inr rows" "length rows = 1"
      "\<forall>r\<in>set rows. r \<noteq> [] \<and> (\<forall>p\<in>set r. 0 \<le> p \<and> p \<le> 1)"
      using assms unfolding model_ok_def by (metis length_Cons list.size(3) One_nat_def)
    then obtain r where r: "rows = [r]" "r \<noteq> []" "\<forall>p\<in>set r. 0 \<le> p \<and> p \<le> 1"
      by (cases rows) auto
    then have "r ! 0 \<in> set r" and "1 < length r \<Longrightarrow> r ! 1 \<in> set r" by simp_all
    with rows r show ?thesis by (auto simp: proba_score_def py_index_def)
  qed
  then show ?thesis using that by metis
qed

lemma model_ok_predict:
  assumes "model_ok (Some m)"
  obtains p where "\<And>x. ml_predict m [x] = Inr [p x]"
proof -
  have "\<exists>p. ml_predict m [x] = Inr [p]" for x
  proof -
    obtain ps where "ml_predict m [x] = Inr ps" "length ps = 1"
      using assms unfolding model_ok_def by (metis length_Cons list.size(3) One_nat_def)
    then show ?thesis by (cases ps) auto
  qed
  then show ?thesis using that by metis
qed

lemma model_ok_decision:
  assumes "model_ok (Some m)"
  obtains d where "\<And>x. ml_decision_function m [x] = Inr [d x]" and "\<And>x. -1 \<le> d x"
proof -
  have "\<exists>d. ml_decision_function m [x] = Inr [d] \<and> -1 \<le> d" for x
  proof -
    obtain ds where "ml_decision_function m [x] = Inr ds" "length ds = 1" "\<forall>d\<in>set ds. -1 \<le> d"
      using assms unfolding model_ok_def by (metis length_Cons list.size(3) One_nat_def)
    then show ?thesis by (cases ds) auto
  qed
  then show ?thesis using that by metis
qed

lemma py_index_single [simp]: "py_index [x] 0 = Inr x"
  by (simp add: py_index_def)

lemma dns_exfil_prob_range: "-1 \<le> d \<Longrightarrow> \<exists>p. dns_exfil_prob d = Inr p \<and> 0 \<le> p \<and> p \<le> 1"
  by (simp add: dns_exfil_prob_def divide_le_eq)

lemma model_cases:
  fixes md :: "ml_model option"
  obtains "md = None"
    | m where "md = Some m" and "ml_predict_proba m = None"
    | m proba where "md = Some m" and "ml_predict_proba m = Some proba"
  by (cases md) auto

lemma explains_bind:
  "(\<And>x. r = Inr x \<Longrightarrow> explains thr (f x)) \<Longrightarrow> explains thr (bind_result r f)"
  by (cases r) auto

lemmas predict_defs = ddos_predict_def beaconing_predict_def dga_predict_def exfil_predict_def
  recon_predict_def encrypted_predict_def dns_exfil_predict_def dns_exfil_model_score_def
  dns_exfil_heuristic_def

lemma proba_detectors_total:
  assumes "model_ok md"
  shows "in_unit (ddos_predict md fv)" "in_unit (dga_predict md fv)"
    "in_unit (encrypted_predict np_mean np_var md ev)"
proof -
  show "in_unit (ddos_predict md fv)"
  proof (cases md rule: model_cases)
    case (2 m)
    with assms obtain p where "\<And>x. ml_predict m [x] = Inr [p x]" by (auto elim: model_ok_predict)
    with 2 show ?thesis by (simp add: predict_defs Let_def)
  next
    case (3 m proba)
    with assms obtain r p where "\<And>x. proba [x] = Inr [r x]" "\<And>x. proba_score (r x) = Inr (p x)"
      "\<And>x. 0 \<le> p x \<and> p x \<le> 1" by (auto elim: model_ok_proba)
    with 3 show ?thesis by (simp add: predict_defs Let_def)
  qed (simp add: predict_defs Let_def)
  show "in_unit (dga_predict md fv)"
  proof (cases md rule: model_cases)
    case (3 m proba)
    with assms obtain r p where "\<And>x. proba [x] = Inr [r x]" "\<And>x. proba_score (r x) = Inr (p x)"
      "\<And>x. 0 \<le> p x \<and> p x \<le> 1" by (auto elim: model_ok_proba)
    with 3 show ?thesis by (simp add: predict_defs Let_def le_max_iff_disj)
  qed (simp_all add: predict_defs Let_def)
  show "in_unit (encrypted_predict np_mean np_var md ev)"
  proof (cases md rule: model_cases)
    case (3 m proba)
    with assms obtain r p where "\<And>x. proba [x] = Inr [r x]" "\<And>x. proba_score (r x) = Inr (p x)"
      "\<And>x. 0 \<le> p x \<and> p x \<le> 1" by (auto elim: model_ok_proba)
    with 3 show ?thesis by (simp add: predict_defs Let_def)
  qed (simp_all add: predict_defs Let_def)
qed

lemma label_detectors_total:
  assumes "model_ok md"
  shows "in_unit (beaconing_predict md fv)" "in_unit (exfil_predict md fv)" "in_unit (recon_predict md fv)"
proof -
  have "in_unit (beaconing_predict md fv) \<and> in_unit (exfil_predict md fv) \<and> in_unit (recon_predict md fv)"
  proof (cases md)
    case None
    then show ?thesis by (simp add: predict_defs Let_def)
  next
    case (Some m)
    with assms obtain p where "\<And>x. ml_predict m [x] = Inr [p x]" by (auto elim: model_ok_predict)
    with Some show ?thesis by (simp add: predict_defs Let_def)
  qed
  then show "in_unit (beaconing_predict md fv)" "in_unit (exfil_predict md fv)"
    "in_unit (recon_predict md fv)" by auto
qed

lemma dns_exfil_total:
  assumes "model_ok md"
  shows "in_unit (dns_exfil_predict repr_num md fv)"
proof (cases md)
  case None
  then show ?thesis by (simp add: predict_defs Let_def)
next
  case (Some m)
  with assms obtain d where d: "\<And>x. ml_decision_function m [x] = Inr [d x]" "\<And>x. -1 \<le> d x"
    by (auto elim: model_ok_decision)
  obtain p where "\<And>x. dns_exfil_prob (d x) = Inr (p x)" "\<And>x. 0 \<le> p x \<and> p x \<le> 1"
    using dns_exfil_prob_range [OF d(2)] by metis
  with Some d show ?thesis by (simp add: predict_defs Let_def)
qed

lemma detectors_explain:
  "explains (1 / 2) (ddos_predict md fv)" "explains (1 / 2) (beaconing_predict md fv)"
  "explains (1 / 2) (dga_predict md fv)" "explains (1 / 2) (exfil_predict md fv)"
  "explains (1 / 2) (recon_predict md fv)" "explains (1 / 2) (encrypted_predict np_mean np_var md ev)"
  by (auto simp: predict_defs Let_def intro!: explains_bind split: option.splits)

lemma dns_exfil_explains: "explains (6 / 10) (dns_exfil_predict repr_num md fv)"
proof -
  have h: "explains (6 / 10) (Inr (dns_exfil_heuristic repr_num fv))"
    by (simp add: dns_exfil_heuristic_def Let_def)
  have m: "explains (6 / 10) (dns_exfil_model_score m fv)" for m
    unfolding dns_exfil_model_score_def by (auto intro!: explains_bind)
  show ?thesis
  proof (cases md)
    case None
    with h show ?thesis by (simp only: dns_exfil_predict_def option.case)
  next
    case (Some m')
    show ?thesis
    proof (cases "dns_exfil_model_score m' fv")
      case (Inl e)
      with h Some show ?thesis by (simp only: dns_exfil_predict_def option.case sum.case)
    next
      case (Inr p)
      with m [of m'] Some show ?thesis by (simp only: dns_exfil_predict_def option.case sum.case)
    qed
  qed
qed

interpretation ddos_det: detector ddos_predict "1 / 2"
  by unfold_locales (simp_all add: proba_detectors_total detectors_explain)

interpretation beaconing_det: detector beaconing_predict "1 / 2"
  by unfold_locales (simp_all add: label_detectors_total detectors_explain)

interpretation dga_det: detector dga_predict "1 / 2"
  by unfold_locales (simp_all add: proba_detectors_total detectors_explain)

interpretation exfil_det: detector exfil_predict "1 / 2"
  by unfold_locales (simp_all add: label_detectors_total detectors_explain)

interpretation recon_det: detector recon_predict "1 / 2"
  by unfold_locales (simp_all add: label_detectors_total detectors_explain)

interpretation encrypted_det: detector "encrypted_predict np_mean np_var" "1 / 2" for np_mean np_var
  by unfold_locales (simp_all add: proba_detectors_total detectors_explain)

interpretation dns_exfil_det: detector "dns_exfil_predict repr_num" "6 / 10" for repr_num
  by unfold_locales (fact dns_exfil_total dns_exfil_explains)+

text \<open>
  C27. Every detector honours the contract of \<open>BaseDetector\<close>: with no model, or with any
  model that returns what scikit-learn documents, it returns a verdict without raising, the
  score lies in [0, 1], and the explanation is non-empty exactly for the scores the detector
  counts as detections (above 0.5; above 0.6 for DNS exfiltration).
\<close>

theorem detectors_honour_contract:
  assumes "model_ok md"
  shows "(\<forall>r \<in> {ddos_predict md fv, beaconing_predict md fv, dga_predict md fv, exfil_predict md fv,
            recon_predict md fv, encrypted_predict np_mean np_var md ev}.
        \<exists>s u e. r = Inr (s, u, e) \<and> 0 \<le> s \<and> s \<le> 1 \<and> (e \<noteq> [] \<longleftrightarrow> 1 / 2 < s))
    \<and> (\<exists>s u e. dns_exfil_predict repr_num md fv = Inr (s, u, e)
          \<and> 0 \<le> s \<and> s \<le> 1 \<and> (e \<noteq> [] \<longleftrightarrow> 6 / 10 < s))"
  using ddos_det.verdict [OF assms, of fv] beaconing_det.verdict [OF assms, of fv]
    dga_det.verdict [OF assms, of fv] exfil_det.verdict [OF assms, of fv]
    recon_det.verdict [OF assms, of fv] encrypted_det.verdict [OF assms, of np_mean np_var ev]
    dns_exfil_det.verdict [OF assms, of repr_num fv]
  by (intro conjI ballI) (elim insertE emptyE, blast+)

definition sample_model :: ml_model where
  "sample_model = \<lparr>ml_predict_proba = Some (\<lambda>X. Inr (map (\<lambda>_. [1 / 4, 3 / 4]) X)),
     ml_predict = (\<lambda>X. Inr (map (\<lambda>_. -1) X)), ml_decision_function = (\<lambda>X. Inr (map (\<lambda>_. 1 / 10) X))\<rparr>"

lemma sample_model_ok: "model_ok (Some sample_model)"
  by (simp add: model_ok_def sample_model_def)

theorem detectors_honour_contract_witness:
  "\<exists>s u e. ddos_predict (Some sample_model) [(''dst_pkt_ewma'', 3)] = Inr (s, u, e) \<and> 0 \<le> s \<and> s \<le> 1
     \<and> (e \<noteq> [] \<longleftrightarrow> 1 / 2 < s)"
  using detectors_honour_contract [OF sample_model_ok, of "[(''dst_pkt_ewma'', 3)]"] by simp

section \<open>The batch routine\<close>

text \<open>A model that scores every row on its own, as scikit-learn's estimators do.\<close>

definition row_wise :: "ml_model option \<Rightarrow> bool" where
  "row_wise model \<longleftrightarrow>
     (\<forall>m. model = Some m \<longrightarrow>
        (\<forall>proba. ml_predict_proba m = Some proba \<longrightarrow>
           (\<exists>f. (\<forall>X. proba X = Inr (map f X)) \<and> (\<forall>x. f x \<noteq> [])))
        \<and> (\<exists>g. \<forall>X. ml_predict m X = Inr (map g X)))"

definition ddos_queued :: "ml_model option \<Rightarrow> fvec \<Rightarrow> bool" where
  "ddos_queued model fv \<longleftrightarrow>
     (case model of None \<Rightarrow> False
      | Some m \<Rightarrow>
          \<not> (dict_get fv ''dst_pkt_ewma'' 0 < 2 \<and> dict_get fv ''syn_synack_ratio'' 0 < 2
             \<and> dict_get fv ''amp_byte_ratio'' 0 < 5 \<and> dict_get fv ''src_ip_entropy'' 0 < 3)
          \<and> \<not> 10 < dict_get fv ''syn_synack_ratio'' 0 \<and> \<not> 10 < dict_get fv ''amp_byte_ratio'' 0
          \<and> \<not> (3 < dict_get fv ''src_ip_entropy'' 0
               \<and> (5 < dict_get fv ''dst_pkt_ewma'' 0 \<or> 1000 < dict_get fv ''dst_byte_ewma'' 0)))"

definition ddos_row :: "fvec \<Rightarrow> real list" where
  "ddos_row fv = [dict_get fv ''syn_synack_ratio'' 0, dict_get fv ''dst_pkt_ewma'' 0]"

definition ok_or_none :: "prediction result \<Rightarrow> prediction option" where
  "ok_or_none r = (case r of Inl _ \<Rightarrow> None | Inr p \<Rightarrow> Some p)"

lemma ddos_batch_step_cases:
  "ddos_batch_step model b (i, fv) =
     (if ddos_queued model fv
      then \<lparr>db_results = db_results b @ [None], db_indices = db_indices b @ [i], db_X = db_X b @ [ddos_row fv]\<rparr>
      else b\<lparr>db_results := db_results b @ [ok_or_none (ddos_predict model fv)]\<rparr>)"
  by (cases model) (simp_all add: ddos_batch_step_def ddos_queued_def ddos_row_def ok_or_none_def
      ddos_predict_def Let_def)

lemma ddos_batch_pass:
  fixes model :: "ml_model option" and fvs :: "fvec list"
  defines "b k \<equiv> foldl (ddos_batch_step model) \<lparr>db_results = [], db_indices = [], db_X = []\<rparr>
      (zip [0..<k] (take k fvs))"
    and "Q \<equiv> \<lambda>i. ddos_queued model (fvs ! i)"
  assumes "k \<le> length fvs"
  shows "b k = \<lparr>db_results = map (\<lambda>i. if Q i then None else ok_or_none (ddos_predict model (fvs ! i))) [0..<k],
     db_indices = filter Q [0..<k], db_X = map (\<lambda>i. ddos_row (fvs ! i)) (filter Q [0..<k])\<rparr>"
  using assms(3)
proof (induction k)
  case 0
  then show ?case by (simp add: b_def)
next
  case (Suc k)
  have "zip [0..<Suc k] (take (Suc k) fvs) = zip [0..<k] (take k fvs) @ [(k, fvs ! k)]"
    using Suc.prems by (simp add: take_Suc_conv_app_nth)
  then have "b (Suc k) = ddos_batch_step model (b k) (k, fvs ! k)" by (simp add: b_def)
  with Suc show ?case by (simp add: ddos_batch_step_cases Q_def)
qed

lemma write_back:
  "length (foldl (\<lambda>rs i. rs[i := h i]) rs is) = length rs
   \<and> (\<forall>j<length rs. foldl (\<lambda>rs i. rs[i := h i]) rs is ! j = (if j \<in> set is then h j else rs ! j))"
  by (induction "is" arbitrary: rs) (auto simp: nth_list_update)

lemma write_probs_map:
  assumes "\<And>i. i \<in> set is \<Longrightarrow> proba_score (f i) = Inr (sc i)"
  shows "write_probs fvs rs (zip is (map f is)) = Inr (foldl (\<lambda>rs i. rs[i := Some (sc i, ddos_used (fvs ! i),
     if 1 / 2 < sc i then ''LGBM classifier flagged flow with confidence '' @ fmt_fixed 2 (sc i) @ ''.''
     else [])]) rs is)"
  using assms by (induction "is" arbitrary: rs) (simp_all add: Let_def)

lemma write_preds_map:
  "write_preds fvs rs (zip is (map g is)) = foldl (\<lambda>rs i. rs[i := Some (if g i = -1 then 8 / 10 else 0,
     ddos_used (fvs ! i), if g i = -1 then ''Isolation Forest detected volumetric anomaly.'' else [])]) rs is"
  unfolding write_preds_def by (induction "is" arbitrary: rs) simp_all

lemma base_batch_map:
  "(\<And>fv. fv \<in> set fvs \<Longrightarrow> predict fv = Inr (p fv)) \<Longrightarrow> base_predict_batch predict fvs = Inr (map p fvs)"
  by (induction fvs) simp_all

lemma ddos_predict_unqueued:
  assumes "\<not> ddos_queued md fv"
  shows "\<exists>p. ddos_predict md fv = Inr p"
proof -
  have "\<not> isl (ddos_predict md fv)"
    using assms by (cases md) (auto simp: ddos_queued_def ddos_predict_def Let_def)
  then show ?thesis by (cases "ddos_predict md fv") auto
qed

lemma ddos_predict_proba:
  assumes "ddos_queued (Some m) fv" and "ml_predict_proba m = Some proba"
    and "proba [ddos_row fv] = Inr [r]" and "proba_score r = Inr s"
  shows "ddos_predict (Some m) fv = Inr (s, ddos_used fv,
     if 1 / 2 < s then ''LGBM classifier flagged flow with confidence '' @ fmt_fixed 2 s @ ''.'' else [])"
proof -
  note q = assms(1) [unfolded ddos_queued_def option.case]
  show ?thesis
    using q assms(2-4) unfolding ddos_predict_def Let_def ddos_row_def by (auto simp: py_index_def)
qed

lemma ddos_predict_label:
  assumes "ddos_queued (Some m) fv" and "ml_predict_proba m = None"
    and "ml_predict m [ddos_row fv] = Inr [l]"
  shows "ddos_predict (Some m) fv = Inr (if l = -1 then 8 / 10 else 0, ddos_used fv,
     if l = -1 then ''Isolation Forest detected volumetric anomaly.'' else [])"
proof -
  note q = assms(1) [unfolded ddos_queued_def option.case]
  show ?thesis
    using q assms(2,3) unfolding ddos_predict_def Let_def ddos_row_def by (auto simp: py_index_def)
qed

lemma proba_score_total: "r \<noteq> [] \<Longrightarrow> \<exists>s. proba_score r = Inr s"
  by (simp add: proba_score_def py_index_def)

lemma ddos_batch_written:
  fixes fvs :: "fvec list"
  assumes "\<And>i. i < length fvs \<Longrightarrow> ddos_queued md (fvs ! i) \<Longrightarrow> Inr (h i) = ddos_predict md (fvs ! i)"
  shows "\<exists>ps. base_predict_batch (ddos_predict md) fvs = Inr ps
    \<and> foldl (\<lambda>rs i. rs[i := Some (h i)])
        (map (\<lambda>i. if ddos_queued md (fvs ! i) then None else ok_or_none (ddos_predict md (fvs ! i))) [0..<length fvs])
        (filter (\<lambda>i. ddos_queued md (fvs ! i)) [0..<length fvs]) = map Some ps"
proof -
  have "\<exists>p. ddos_predict md fv = Inr p" if "fv \<in> set fvs" for fv
    using that assms ddos_predict_unqueued by (metis in_set_conv_nth)
  then obtain p where p: "\<And>fv. fv \<in> set fvs \<Longrightarrow> ddos_predict md fv = Inr (p fv)" by metis
  let ?rs = "map (\<lambda>i. if ddos_queued md (fvs ! i) then None else ok_or_none (ddos_predict md (fvs ! i)))
      [0..<length fvs]"
  let ?out = "foldl (\<lambda>rs i. rs[i := Some (h i)]) ?rs (filter (\<lambda>i. ddos_queued md (fvs ! i)) [0..<length fvs])"
  have "?out ! j = Some (p (fvs ! j))" if "j < length fvs" for j
    using that assms [of j] p [of "fvs ! j"] write_back [of "\<lambda>i. Some (h i)" ?rs]
    by (simp add: ok_or_none_def)
  moreover have "length ?out = length fvs" using write_back [of "\<lambda>i. Some (h i)" ?rs] by simp
  ultimately have "?out = map Some (map p fvs)" by (intro nth_equalityI) simp_all
  moreover have "base_predict_batch (ddos_predict md) fvs = Inr (map p fvs)"
    by (rule base_batch_map) (rule p)
  ultimately show ?thesis by blast
qed

text \<open>
  C9. Batching changes nothing: for every model that scores rows independently, and with no
  model, the DDoS detector's \<open>predict_batch\<close> fills every placeholder and returns the
  same list of verdicts, in the same order, as the base class's loop over \<open>predict\<close>,
  although it calls the model once, on the rows the rules left open only.
\<close>

theorem ddos_batch_is_pointwise:
  assumes "row_wise md"
  shows "\<exists>ps. base_predict_batch (ddos_predict md) fvs = Inr ps \<and> ddos_predict_batch md fvs = Inr (map Some ps)"
proof -
  define qs where "qs = filter (\<lambda>i. ddos_queued md (fvs ! i)) [0..<length fvs]"
  define rs where "rs = map (\<lambda>i. if ddos_queued md (fvs ! i) then None
      else ok_or_none (ddos_predict md (fvs ! i))) [0..<length fvs]"
  define X where "X = map (\<lambda>i. ddos_row (fvs ! i)) qs"
  have pass: "foldl (ddos_batch_step md) \<lparr>db_results = [], db_indices = [], db_X = []\<rparr>
      (zip [0..<length fvs] fvs) = \<lparr>db_results = rs, db_indices = qs, db_X = X\<rparr>"
    using ddos_batch_pass [of "length fvs" fvs md] by (simp add: rs_def qs_def X_def)
  note written = ddos_batch_written [of fvs md, folded qs_def rs_def]
  show ?thesis
  proof (cases "qs = []")
    case True
    then have "\<not> ddos_queued md (fvs ! i)" if "i < length fvs" for i
      using that by (simp add: qs_def filter_empty_conv)
    with written [of undefined] True pass show ?thesis
      by (auto simp: ddos_predict_batch_def X_def Let_def split: option.splits)
  next
    case False
    then obtain m where m: "md = Some m" by (auto simp: qs_def ddos_queued_def filter_empty_conv split: option.splits)
    show ?thesis
    proof (cases "ml_predict_proba m")
      case None
      obtain g where g: "\<And>X. ml_predict m X = Inr (map g X)"
        using assms m unfolding row_wise_def by blast
      have "ddos_predict_batch md fvs = Inr (write_preds fvs rs (zip qs (map (\<lambda>i. g (ddos_row (fvs ! i))) qs)))"
        using False pass by (simp add: ddos_predict_batch_def m None X_def g comp_def)
      then show ?thesis
        using written [of "\<lambda>i. (if g (ddos_row (fvs ! i)) = -1 then 8 / 10 else 0, ddos_used (fvs ! i),
            if g (ddos_row (fvs ! i)) = -1 then ''Isolation Forest detected volumetric anomaly.'' else [])"]
          ddos_predict_label [OF _ None] g
        by (simp add: m write_preds_map)
    next
      case (Some proba)
      obtain f where f: "\<And>X. proba X = Inr (map f X)" "\<And>x. f x \<noteq> []"
        using assms m Some unfolding row_wise_def by blast
      obtain sc where sc: "\<And>x. proba_score (f x) = Inr (sc x)" using proba_score_total [OF f(2)] by metis
      have "ddos_predict_batch md fvs = write_probs fvs rs (zip qs (map (\<lambda>i. f (ddos_row (fvs ! i))) qs))"
        using False pass by (simp add: ddos_predict_batch_def m Some X_def f comp_def)
      then show ?thesis
        using written [of "\<lambda>i. (sc (ddos_row (fvs ! i)), ddos_used (fvs ! i),
            if 1 / 2 < sc (ddos_row (fvs ! i)) then ''LGBM classifier flagged flow with confidence ''
              @ fmt_fixed 2 (sc (ddos_row (fvs ! i))) @ ''.'' else [])"]
          ddos_predict_proba [OF _ Some] f sc
        by (simp add: m write_probs_map)
    qed
  qed
qed

theorem ddos_batch_is_pointwise_witness:
  "\<exists>ps. base_predict_batch (ddos_predict (Some sample_model)) [[(''dst_pkt_ewma'', 3)], [(''syn_synack_ratio'', 50)]]
        = Inr ps
     \<and> ddos_predict_batch (Some sample_model) [[(''dst_pkt_ewma'', 3)], [(''syn_synack_ratio'', 50)]]
        = Inr (map Some ps)"
proof (rule ddos_batch_is_pointwise)
  show "row_wise (Some sample_model)"
    by (auto simp: row_wise_def sample_model_def intro: exI [of _ "\<lambda>_. [1 / 4, 3 / 4]"] exI [of _ "\<lambda>_. -1"])
qed

text \<open>
  The DNS-exfiltration model score is inverted and cannot flag anything: an isolation
  forest gives anomalies the lower decision values, but the score the detector derives grows
  with the decision value; and for decision values up to 1/2, the largest an isolation
  forest with the default offset produces, the explanation is always empty. A query burst
  the heuristic would flag with 0.85 is then never reported once a model is loaded.
\<close>

theorem dns_exfil_model_never_flags:
  assumes "ml_decision_function m
      [map (\<lambda>k. dict_get fv k 0) [''txt_cname_rate'', ''txt_cname_avg_len'', ''txt_cname_avg_entropy'']] = Inr [d]"
    and "-1 \<le> d" and "d \<le> 1 / 2" and "dict_get fv ''txt_cname_rate'' 0 \<noteq> 0"
  shows "\<exists>s. dns_exfil_predict repr_num (Some m) fv = Inr (s, fv, []) \<and> s \<le> 6 / 10
    \<and> (\<forall>d' s'. -1 \<le> d' \<longrightarrow> d' < d \<longrightarrow> dns_exfil_prob d' = Inr s' \<longrightarrow> s' < s)"
proof -
  have "\<not> 6 / 10 < 1 - 1 / (2 + d)" using assms(2,3) by (simp add: field_simps)
  moreover have "1 - 1 / (2 + d') < 1 - 1 / (2 + d)" if "-1 \<le> d'" "d' < d" for d'
    using that by (simp add: frac_less2)
  ultimately show ?thesis
    using assms by (auto simp: dns_exfil_predict_def dns_exfil_model_score_def dns_exfil_prob_def)
qed

theorem dns_exfil_model_never_flags_witness:
  "\<exists>s. dns_exfil_predict (\<lambda>_. []) (Some sample_model)
      [(''txt_cname_rate'', 50), (''txt_cname_avg_len'', 60), (''txt_cname_avg_entropy'', 5)]
    = Inr (s, [(''txt_cname_rate'', 50), (''txt_cname_avg_len'', 60), (''txt_cname_avg_entropy'', 5)], [])
    \<and> s \<le> 6 / 10"
  using dns_exfil_model_never_flags [of sample_model
      "[(''txt_cname_rate'', 50), (''txt_cname_avg_len'', 60), (''txt_cname_avg_entropy'', 5)]" "1 / 10" "\<lambda>_. []"]
  by (auto simp: sample_model_def dict_get_def)

end
