(* ===== verification/Pipeline.thy ===== *)
theory Pipeline
  imports Scheduler Detectors Correlator
begin

text \<open>
  The detection pipeline as \<^verbatim>\<open>benchmarks/throughput_test.py\<close> and \<^verbatim>\<open>benchmarks/latency_test.py\<close> run
  it: captured bytes are parsed, fed to the scheduler, every detector scores the extractors'
  current vectors, and detections are normalized and correlated. This is the composition of
  all detection components over raw packets; the measurements themselves (clock, CPU, memory)
  are left out. The degradation curves of \<^verbatim>\<open>benchmarks/adversarial_test.py\<close> are here as well.

  An exception other than an empty queue leaves the loop, so it is the result of the run. The
  theorems show that no exception occurs and every alert is well-formed as long as packets
  carry a known transport, that a SYN flood raises an alert end to end, and that a single
  packet of another transport ends the run when it arrives during one.
\<close>

section \<open>The pipeline\<close>

text \<open>Decoders, hash, numpy reductions, fresh ids and set order: what the pipeline calls and does not define.\<close>

record pipe_env =
  pe_link :: dpkt_link
  pe_dns :: "bytes \<Rightarrow> dpkt_exc + dns_msg"
  pe_tls :: "bytes \<Rightarrow> dpkt_exc + tls_record list"
  pe_handshake :: "bytes \<Rightarrow> handshake option"
  pe_digest :: "string \<Rightarrow> nat"
  pe_mean :: "real list \<Rightarrow> real"
  pe_var :: "real list \<Rightarrow> real"
  pe_uuid :: "nat \<Rightarrow> string"
  pe_order :: "string list \<Rightarrow> string list"

record detector_models =
  m_ddos :: "ml_model option"
  m_beaconing :: "ml_model option"
  m_dga :: "ml_model option"
  m_encrypted :: "ml_model option"
  m_recon :: "ml_model option"
  m_exfil :: "ml_model option"

definition detector_names :: "string list" where
  "detector_names = [''ddos'', ''beaconing'', ''dga'', ''encrypted'', ''recon'', ''exfil'']"

definition run_detector :: "pipe_env \<Rightarrow> detector_models \<Rightarrow> string \<Rightarrow> rollup \<Rightarrow> prediction result" where
  "run_detector env ms name r =
     (case r of
        RVec v \<Rightarrow>
          if name = ''ddos'' then ddos_predict (m_ddos ms) v
          else if name = ''beaconing'' then beaconing_predict (m_beaconing ms) v
          else if name = ''dga'' then dga_predict (m_dga ms) v
          else if name = ''recon'' then recon_predict (m_recon ms) v
          else if name = ''exfil'' then exfil_predict (m_exfil ms) v
          else Inl KeyError
      | REnc v \<Rightarrow> if name = ''encrypted'' then encrypted_predict (pe_mean env) (pe_var env) (m_encrypted ms) v else Inl KeyError
      | RTag _ \<Rightarrow> Inl AttributeError)"

text \<open>The metadata dictionary in the role of the normalizer's \<^verbatim>\<open>flow_info\<close>.\<close>

definition meta_flow_info :: "packet_meta \<Rightarrow> flow_info" where
  "meta_flow_info m =
     \<lparr>fi_src_ip = Some (Some (src_ip m)), fi_dst_ip = Some (Some (dst_ip m)), fi_src_port = Some (src_port m),
      fi_dst_port = Some (dst_port m), fi_protocol = Some (protocol m)\<rparr>"

record pipeline =
  pp_scheduler :: scheduler
  pp_correlator :: correlator
  pp_alerts :: "alert list"
  pp_packets :: nat

definition pipeline_init :: pipeline where
  "pipeline_init = \<lparr>pp_scheduler = scheduler_init (1 / 10) (5 / 10) 1, pp_correlator = correlator_init 600,
     pp_alerts = [], pp_packets = 0\<rparr>"

fun detect_all ::
    "pipe_env \<Rightarrow> normalizer \<Rightarrow> detector_models \<Rightarrow> fired \<Rightarrow> packet_meta \<Rightarrow> real \<Rightarrow> string list
      \<Rightarrow> pipeline \<Rightarrow> pipeline result" where
  "detect_all env cals ms f meta ts [] p = Inr p"
| "detect_all env cals ms f meta ts (name # names) p =
     (case map_of f name of
        None \<Rightarrow> detect_all env cals ms f meta ts names p
      | Some vec \<Rightarrow>
          bind_result (run_detector env ms name vec) (\<lambda>(score, used, expl).
            if expl \<noteq> [] \<and> 1 / 2 < score then
              bind_result (normalize cals (pe_uuid env (length (pp_alerts p))) name score used expl (meta_flow_info meta)
                             ts None None) (\<lambda>a.
                let (a, c) = correlate (pe_order env) (pp_correlator p) a
                in detect_all env cals ms f meta ts names (p\<lparr>pp_correlator := c, pp_alerts := pp_alerts p @ [a]\<rparr>))
            else detect_all env cals ms f meta ts names p))"

definition parse_app ::
    "pipe_env \<Rightarrow> packet_meta \<Rightarrow> (dns_parsed option \<times> tls_parsed option) result" where
  "parse_app env meta =
     bind_result (if protocol meta = Some ''UDP'' \<and> (dst_port meta = 53 \<or> src_port meta = 53)
                  then parse_dns (pe_dns env) (payload meta) else Inr None) (\<lambda>dns.
     bind_result (if protocol meta = Some ''TCP'' \<and> (dst_port meta = 443 \<or> src_port meta = 443)
                  then parse_tls_handshake (pe_tls env) (pe_handshake env) (payload meta) else Inr None) (\<lambda>tls.
     Inr (dns, tls)))"

definition pipeline_packet ::
    "pipe_env \<Rightarrow> normalizer \<Rightarrow> detector_models \<Rightarrow> real \<times> bytes \<Rightarrow> pipeline \<Rightarrow> pipeline result" where
  "pipeline_packet env cals ms pkt p =
     (let (ts, buf) = pkt; p = p\<lparr>pp_packets := pp_packets p + 1\<rparr>
      in bind_result (parse_packet (pe_link env) buf) (\<lambda>parsed.
         case parsed of
           None \<Rightarrow> Inr p
         | Some meta \<Rightarrow>
             bind_result (parse_app env meta) (\<lambda>(dns, tls).
               let (_, s) = process_packet (pe_digest env) (pp_scheduler p) meta ts dns tls
               in detect_all env cals ms (extract_all (pe_digest env) s (src_ip meta) (dst_ip meta)) meta ts
                    detector_names (p\<lparr>pp_scheduler := s\<rparr>))))"

fun pipeline_run ::
    "pipe_env \<Rightarrow> normalizer \<Rightarrow> detector_models \<Rightarrow> (real \<times> bytes) list \<Rightarrow> pipeline \<Rightarrow> pipeline result" where
  "pipeline_run env cals ms [] p = Inr p"
| "pipeline_run env cals ms (pkt # pkts) p =
     bind_result (pipeline_packet env cals ms pkt p) (pipeline_run env cals ms pkts)"

text \<open>The reduced pipeline of the latency test: the DDoS detector alone, no correlation, the alert is discarded.\<close>

definition latency_packet ::
    "pipe_env \<Rightarrow> normalizer \<Rightarrow> ml_model option \<Rightarrow> real \<times> bytes \<Rightarrow> scheduler \<Rightarrow> nat \<Rightarrow> (scheduler \<times> nat) result" where
  "latency_packet env cals md pkt s n =
     (let (ts, buf) = pkt
      in bind_result (parse_packet (pe_link env) buf) (\<lambda>parsed.
         case parsed of
           None \<Rightarrow> Inr (s, n)
         | Some meta \<Rightarrow>
             (let (_, s) = process_packet (pe_digest env) s meta ts None None
              in case map_of (extract_all (pe_digest env) s (src_ip meta) (dst_ip meta)) ''ddos'' of
                   Some (RVec v) \<Rightarrow>
                     bind_result (ddos_predict md v) (\<lambda>(score, used, expl).
                       if expl \<noteq> [] \<and> 1 / 2 < score
                       then bind_result (normalize cals (pe_uuid env n) ''ddos'' score used expl (meta_flow_info meta) ts None None)
                              (\<lambda>_. Inr (s, n + 1))
                       else Inr (s, n))
                 | _ \<Rightarrow> Inr (s, n))))"

section \<open>Degradation curves\<close>

definition flagged :: "prediction result \<Rightarrow> bool result" where
  "flagged r = bind_result r (\<lambda>(score, used, expl). Inr (1 / 2 < score \<and> expl \<noteq> []))"

definition beaconing_jitter :: "ml_model option \<Rightarrow> (real \<times> bool result) list" where
  "beaconing_jitter md =
     map (\<lambda>cv. (cv, flagged (beaconing_predict md [(''iat_cv'', cv), (''mean_iat'', 10), (''dst_fan_in'', 1)])))
       [1 / 100, 1 / 10, 3 / 10, 5 / 10, 7 / 10, 9 / 10, 12 / 10]"

definition recon_slow_low :: "ml_model option \<Rightarrow> (real \<times> bool result) list" where
  "recon_slow_low md =
     map (\<lambda>vol. (vol, flagged (recon_predict md [(''syn_only_ratio'', 1), (''scan_activity_score'', vol)])))
       [1000, 500, 100, 50, 20, 10, 5, 1]"

section \<open>No exception, and well-formed alerts\<close>

definition models_ok :: "detector_models \<Rightarrow> bool" where
  "models_ok ms \<longleftrightarrow> model_ok (m_ddos ms) \<and> model_ok (m_beaconing ms) \<and> model_ok (m_dga ms) \<and> model_ok (m_encrypted ms)
     \<and> model_ok (m_recon ms) \<and> model_ok (m_exfil ms)"

text \<open>
  What the decoders are documented to do: addresses have four or sixteen bytes, and a
  malformed DNS or TLS payload is one of the two decoding errors the parsers catch.
\<close>

definition decoders_ok :: "pipe_env \<Rightarrow> bool" where
  "decoders_ok env \<longleftrightarrow>
     (\<forall>buf ip. decode_ip (pe_link env) buf = Some ip \<longrightarrow> length (ip_src ip) \<in> {4, 16} \<and> length (ip_dst ip) \<in> {4, 16})
     \<and> (\<forall>bs e. pe_dns env bs \<noteq> Inl (OtherError e))
     \<and> (\<forall>bs e. pe_tls env bs \<noteq> Inl UnicodeDecodeError \<and> pe_tls env bs \<noteq> Inl (OtherError e))"

definition known_transport :: "pipe_env \<Rightarrow> bytes \<Rightarrow> bool" where
  "known_transport env buf \<longleftrightarrow> (\<forall>ip. decode_ip (pe_link env) buf = Some ip \<longrightarrow> ip_data ip \<noteq> OtherTransport)"

text \<open>The alert a detector raises for a packet.\<close>

definition alert_of :: "string \<Rightarrow> packet_meta \<Rightarrow> real \<Rightarrow> alert \<Rightarrow> bool" where
  "alert_of name m ts a \<longleftrightarrow> al_detector a = name \<and> al_threat_class a = upper name \<and> al_timestamp a = ts
     \<and> 0 \<le> al_confidence a \<and> al_confidence a \<le> 1 \<and> al_severity a = get_severity (al_confidence a)
     \<and> al_flow a = \<lparr>fid_src_ip = src_ip m, fid_dst_ip = dst_ip m, fid_src_port = Some (src_port m),
                    fid_dst_port = Some (dst_port m), fid_protocol = the (protocol m)\<rparr>
     \<and> ev_explanation (al_evidence a) \<noteq> []"

lemma normalize_meta:
  assumes "protocol m = Some pr" and "expl \<noteq> []"
  obtains a where "normalize cals i name score used expl (meta_flow_info m) ts None None = Inr a" "alert_of name m ts a"
    "al_confidence a = max 0 (min 1 (calibrated cals name score))"
  using assms by (simp add: normalize_def make_flow_id_def meta_flow_info_def str_field_def alert_of_def Let_def)

lemma normalize_unknown:
  "protocol m = None \<Longrightarrow> normalize cals i name score used expl (meta_flow_info m) ts None None = Inl ValidationError"
  by (simp add: normalize_def make_flow_id_def meta_flow_info_def str_field_def)

lemma correlate_alert:
  "alert_of name m ts (fst (correlate od c a)) \<longleftrightarrow> alert_of name m ts a"
  "al_confidence (fst (correlate od c a)) = al_confidence a"
  by (simp_all add: correlate_def alert_of_def Let_def case_prod_unfold)

lemma extract_all_lookup [simp]:
  "map_of (extract_all digest s src dst) ''ddos'' = Some (RVec (ddos_extract (sc_ddos s) dst))"
  "map_of (extract_all digest s src dst) ''beaconing'' = Some (RVec (beaconing_extract digest (sc_beaconing s) src dst))"
  "map_of (extract_all digest s src dst) ''dga'' = Some (RVec (dga_extract (sc_dga s)))"
  "map_of (extract_all digest s src dst) ''encrypted'' = Some (REnc (encrypted_extract (sc_encrypted s)))"
  "map_of (extract_all digest s src dst) ''recon'' = Some (RVec (recon_extract (sc_recon s) src))"
  "map_of (extract_all digest s src dst) ''exfil'' = Some (RVec (exfil_extract (sc_exfil s)))"
  by (simp_all add: extract_all_def)

lemma run_detector_simps [simp]:
  "run_detector env ms ''ddos'' (RVec v) = ddos_predict (m_ddos ms) v"
  "run_detector env ms ''beaconing'' (RVec v) = beaconing_predict (m_beaconing ms) v"
  "run_detector env ms ''dga'' (RVec v) = dga_predict (m_dga ms) v"
  "run_detector env ms ''encrypted'' (REnc w) = encrypted_predict (pe_mean env) (pe_var env) (m_encrypted ms) w"
  "run_detector env ms ''recon'' (RVec v) = recon_predict (m_recon ms) v"
  "run_detector env ms ''exfil'' (RVec v) = exfil_predict (m_exfil ms) v"
  by (simp_all add: run_detector_def)

lemma run_detector_verdict:
  assumes "models_ok ms" and "name \<in> set detector_names"
  obtains r sc used expl where "map_of (extract_all digest s src dst) name = Some r"
    "run_detector env ms name r = Inr (sc, used, expl)" "0 \<le> sc" "sc \<le> 1"
proof -
  have ok: "model_ok (m_ddos ms)" "model_ok (m_beaconing ms)" "model_ok (m_dga ms)" "model_ok (m_encrypted ms)"
    "model_ok (m_recon ms)" "model_ok (m_exfil ms)" using assms(1) unfolding models_ok_def by blast+
  note verdicts = ddos_det.verdict [OF ok(1), of "ddos_extract (sc_ddos s) dst"]
    beaconing_det.verdict [OF ok(2), of "beaconing_extract digest (sc_beaconing s) src dst"]
    dga_det.verdict [OF ok(3), of "dga_extract (sc_dga s)"]
    encrypted_det.verdict [OF ok(4), of "pe_mean env" "pe_var env" "encrypted_extract (sc_encrypted s)"]
    recon_det.verdict [OF ok(5), of "recon_extract (sc_recon s) src"]
    exfil_det.verdict [OF ok(6), of "exfil_extract (sc_exfil s)"]
  from assms(2) have "name = ''ddos'' \<or> name = ''beaconing'' \<or> name = ''dga'' \<or> name = ''encrypted''
    \<or> name = ''recon'' \<or> name = ''exfil''" by (simp add: detector_names_def)
  then have "\<exists>r sc used expl. map_of (extract_all digest s src dst) name = Some r
    \<and> run_detector env ms name r = Inr (sc, used, expl) \<and> 0 \<le> sc \<and> sc \<le> 1"
  proof (elim disjE)
    assume n: "name = ''ddos''"
    show ?thesis using verdicts(1) unfolding n extract_all_lookup run_detector_simps(1) [of env ms, symmetric] by blast
  next
    assume n: "name = ''beaconing''"
    show ?thesis using verdicts(2) unfolding n extract_all_lookup run_detector_simps(2) [of env ms, symmetric] by blast
  next
    assume n: "name = ''dga''"
    show ?thesis using verdicts(3) unfolding n extract_all_lookup run_detector_simps(3) [of env ms, symmetric] by blast
  next
    assume n: "name = ''encrypted''"
    show ?thesis using verdicts(4) unfolding n extract_all_lookup run_detector_simps(4) [of env ms, symmetric] by blast
  next
    assume n: "name = ''recon''"
    show ?thesis using verdicts(5) unfolding n extract_all_lookup run_detector_simps(5) [of env ms, symmetric] by blast
  next
    assume n: "name = ''exfil''"
    show ?thesis using verdicts(6) unfolding n extract_all_lookup run_detector_simps(6) [of env ms, symmetric] by blast
  qed
  then show thesis using that by blast
qed

text \<open>What the loop over the detectors adds.\<close>

definition adds_alerts :: "packet_meta \<Rightarrow> real \<Rightarrow> string set \<Rightarrow> pipeline \<Rightarrow> pipeline \<Rightarrow> bool" where
  "adds_alerts m ts N p p' \<longleftrightarrow> pp_scheduler p' = pp_scheduler p \<and> pp_packets p' = pp_packets p
     \<and> (\<exists>new. pp_alerts p' = pp_alerts p @ new \<and> (\<forall>a\<in>set new. \<exists>name\<in>N. alert_of name m ts a))"

lemma detect_all_flagged:
  assumes "map_of f name = Some r" and "run_detector env ms name r = Inr (sc, used, expl)" and "expl \<noteq> []" and "1 / 2 < sc"
    and "protocol m = Some pr"
  obtains b c where "detect_all env cals ms f m ts (name # names) p
      = detect_all env cals ms f m ts names (p\<lparr>pp_correlator := c, pp_alerts := pp_alerts p @ [b]\<rparr>)"
    "alert_of name m ts b" "al_confidence b = max 0 (min 1 (calibrated cals name sc))"
proof -
  obtain a where a: "normalize cals (pe_uuid env (length (pp_alerts p))) name sc used expl (meta_flow_info m) ts None None = Inr a"
    "alert_of name m ts a" "al_confidence a = max 0 (min 1 (calibrated cals name sc))"
    by (rule normalize_meta [OF assms(5,3)])
  obtain b c where b: "correlate (pe_order env) (pp_correlator p) a = (b, c)" by (rule prod.exhaust)
  have "alert_of name m ts b" "al_confidence b = al_confidence a"
    using a(2) correlate_alert(1) [of name m ts "pe_order env" "pp_correlator p" a]
      correlate_alert(2) [of "pe_order env" "pp_correlator p" a] by (simp_all add: b)
  moreover have "detect_all env cals ms f m ts (name # names) p
      = detect_all env cals ms f m ts names (p\<lparr>pp_correlator := c, pp_alerts := pp_alerts p @ [b]\<rparr>)"
    using assms(1-4) by (simp add: a(1) b)
  ultimately show thesis using a(3) that by metis
qed

lemma detect_all_total:
  assumes "models_ok ms" and "protocol m = Some pr" and "set names \<subseteq> set detector_names"
  shows "\<exists>p'. detect_all env cals ms (extract_all digest s src dst) m ts names p = Inr p' \<and> adds_alerts m ts (set names) p p'"
  using assms(3)
proof (induction names arbitrary: p)
  case Nil
  then show ?case by (simp add: adds_alerts_def)
next
  case (Cons name names)
  let ?f = "extract_all digest s src dst"
  have sub: "set names \<subseteq> set detector_names" and mem: "name \<in> set detector_names" using Cons.prems by simp_all
  have widen: "adds_alerts m ts (set names) q p' \<Longrightarrow> adds_alerts m ts (set (name # names)) q p'" for q p'
    unfolding adds_alerts_def by auto
  obtain r sc used expl where r: "map_of ?f name = Some r" and v: "run_detector env ms name r = Inr (sc, used, expl)"
    by (rule run_detector_verdict [OF assms(1) mem])
  show ?case
  proof (cases "expl \<noteq> [] \<and> 1 / 2 < sc")
    case False
    then have "detect_all env cals ms ?f m ts (name # names) p = detect_all env cals ms ?f m ts names p"
      by (auto simp: r v)
    then show ?thesis using Cons.IH [OF sub, of p] widen by metis
  next
    case True
    obtain b c where b: "detect_all env cals ms ?f m ts (name # names) p
        = detect_all env cals ms ?f m ts names (p\<lparr>pp_correlator := c, pp_alerts := pp_alerts p @ [b]\<rparr>)" "alert_of name m ts b"
      by (rule detect_all_flagged [OF r v _ _ assms(2)]) (use True in auto)
    define q where "q = p\<lparr>pp_correlator := c, pp_alerts := pp_alerts p @ [b]\<rparr>"
    obtain p' where p': "detect_all env cals ms ?f m ts names q = Inr p'" "adds_alerts m ts (set names) q p'"
      using Cons.IH [OF sub, of q] by blast
    obtain new where new: "pp_alerts p' = pp_alerts q @ new" "\<forall>a\<in>set new. \<exists>n\<in>set names. alert_of n m ts a"
      using p'(2) unfolding adds_alerts_def by blast
    have "pp_alerts p' = pp_alerts p @ (b # new)" using new(1) by (simp add: q_def)
    moreover have "\<forall>a\<in>set (b # new). \<exists>n\<in>set (name # names). alert_of n m ts a" using new(2) b(2) by auto
    moreover have "pp_scheduler p' = pp_scheduler p \<and> pp_packets p' = pp_packets p"
      using p'(2) by (simp add: adds_alerts_def q_def)
    ultimately have "adds_alerts m ts (set (name # names)) p p'" unfolding adds_alerts_def by blast
    then show ?thesis using p'(1) unfolding b(1) q_def by blast
  qed
qed

text \<open>The stages before the detectors do not raise either.\<close>

lemma parse_app_total: "decoders_ok env \<Longrightarrow> \<exists>dns tls. parse_app env m = Inr (dns, tls)"
  by (auto simp: decoders_ok_def parse_app_def parse_dns_def parse_tls_handshake_def split: sum.splits dpkt_exc.splits)

lemma parse_packet_total:
  assumes "decoders_ok env"
  shows "decode_ip (pe_link env) buf = None \<Longrightarrow> parse_packet (pe_link env) buf = Inr None"
    and "decode_ip (pe_link env) buf = Some ip \<Longrightarrow> \<exists>m. parse_packet (pe_link env) buf = Inr (Some m)
      \<and> (protocol m = None \<longleftrightarrow> ip_data ip = OtherTransport)"
proof -
  show "decode_ip (pe_link env) buf = None \<Longrightarrow> parse_packet (pe_link env) buf = Inr None"
    by (simp add: parse_packet_def)
  assume ip: "decode_ip (pe_link env) buf = Some ip"
  then have "length (ip_src ip) = 4 \<or> length (ip_src ip) = 16" "length (ip_dst ip) = 4 \<or> length (ip_dst ip) = 16"
    using assms unfolding decoders_ok_def by auto
  then obtain s t where "inet_to_str (ip_src ip) = Inr s" "inet_to_str (ip_dst ip) = Inr t"
    using inet_to_str_total by metis
  then show "\<exists>m. parse_packet (pe_link env) buf = Inr (Some m) \<and> (protocol m = None \<longleftrightarrow> ip_data ip = OtherTransport)"
    by (cases "ip_data ip") (simp_all add: parse_packet_def ip base_meta_def)
qed

lemma pipeline_packet_meta:
  assumes "parse_packet (pe_link env) buf = Inr (Some m)" and "parse_app env m = Inr (dns, tls)"
  shows "pipeline_packet env cals ms (ts, buf) p =
    (let s = snd (process_packet (pe_digest env) (pp_scheduler p) m ts dns tls)
     in detect_all env cals ms (extract_all (pe_digest env) s (src_ip m) (dst_ip m)) m ts detector_names
          (p\<lparr>pp_packets := pp_packets p + 1, pp_scheduler := s\<rparr>))"
  using assms by (simp add: pipeline_packet_def Let_def case_prod_unfold)

text \<open>The packets of a capture as the scheduler sees them.\<close>

definition parsed_of :: "pipe_env \<Rightarrow> real \<times> bytes \<Rightarrow> parsed_packet list" where
  "parsed_of env pkt =
     (case parse_packet (pe_link env) (snd pkt) of
        Inr (Some m) \<Rightarrow> (case parse_app env m of Inr (dns, tls) \<Rightarrow> [(m, fst pkt, dns, tls)] | Inl _ \<Rightarrow> [])
      | _ \<Rightarrow> [])"

definition parsed_all :: "pipe_env \<Rightarrow> (real \<times> bytes) list \<Rightarrow> parsed_packet list" where
  "parsed_all env pkts = concat (map (parsed_of env) pkts)"

definition raised_for :: "pipe_env \<Rightarrow> (real \<times> bytes) list \<Rightarrow> alert \<Rightarrow> bool" where
  "raised_for env pkts a \<longleftrightarrow>
     (\<exists>x\<in>set (parsed_all env pkts). \<exists>name\<in>set detector_names. alert_of name (fst x) (fst (snd x)) a)"

lemma parsed_all_simps [simp]:
  "parsed_all env [] = []" "parsed_all env (pkt # pkts) = parsed_of env pkt @ parsed_all env pkts"
  "parsed_all env (xs @ ys) = parsed_all env xs @ parsed_all env ys"
  by (simp_all add: parsed_all_def)

lemma raised_for_append: "raised_for env (xs @ ys) a \<longleftrightarrow> raised_for env xs a \<or> raised_for env ys a"
  unfolding raised_for_def parsed_all_simps set_append by blast

lemma pipeline_packet_total:
  assumes "models_ok ms" and "decoders_ok env" and "known_transport env buf"
  shows "\<exists>p'. pipeline_packet env cals ms (ts, buf) p = Inr p' \<and> pp_packets p' = pp_packets p + 1
    \<and> pp_scheduler p' = snd (scheduler_run (pe_digest env) (pp_scheduler p) (parsed_of env (ts, buf)))
    \<and> (\<exists>new. pp_alerts p' = pp_alerts p @ new \<and> (\<forall>a\<in>set new. raised_for env [(ts, buf)] a))"
proof (cases "decode_ip (pe_link env) buf")
  case None
  then show ?thesis using parse_packet_total(1) [OF assms(2)] by (simp add: pipeline_packet_def parsed_of_def)
next
  case (Some ip)
  obtain m where m: "parse_packet (pe_link env) buf = Inr (Some m)" "protocol m = None \<longleftrightarrow> ip_data ip = OtherTransport"
    using parse_packet_total(2) [OF assms(2) Some] by (elim exE conjE) (rule that)
  obtain dns tls where app: "parse_app env m = Inr (dns, tls)" using parse_app_total [OF assms(2), of m] by (elim exE)
  have "ip_data ip \<noteq> OtherTransport" using assms(3) Some unfolding known_transport_def by blast
  then obtain pr where pr: "protocol m = Some pr" using m(2) by blast
  define s where "s = snd (process_packet (pe_digest env) (pp_scheduler p) m ts dns tls)"
  define q where "q = p\<lparr>pp_packets := pp_packets p + 1, pp_scheduler := s\<rparr>"
  obtain p' where p': "detect_all env cals ms (extract_all (pe_digest env) s (src_ip m) (dst_ip m)) m ts detector_names q = Inr p'"
    "adds_alerts m ts (set detector_names) q p'" using detect_all_total [OF assms(1) pr subset_refl] by blast
  have po: "parsed_of env (ts, buf) = [(m, ts, dns, tls)]" by (simp add: parsed_of_def m(1) app)
  have "pipeline_packet env cals ms (ts, buf) p = Inr p'"
    using p'(1) unfolding pipeline_packet_meta [OF m(1) app] Let_def q_def s_def .
  moreover have "pp_packets p' = pp_packets p + 1" "pp_scheduler p' = s" using p'(2) by (simp_all add: adds_alerts_def q_def)
  moreover have "s = snd (scheduler_run (pe_digest env) (pp_scheduler p) (parsed_of env (ts, buf)))"
    unfolding po scheduler_run_first by (simp add: s_def)
  moreover obtain new where new: "pp_alerts p' = pp_alerts q @ new" "\<forall>a\<in>set new. \<exists>name\<in>set detector_names. alert_of name m ts a"
    using p'(2) unfolding adds_alerts_def by blast
  moreover have "pp_alerts q = pp_alerts p" by (simp add: q_def)
  moreover have "\<forall>a\<in>set new. raised_for env [(ts, buf)] a"
    using new(2) by (simp add: raised_for_def po)
  ultimately show ?thesis by metis
qed

lemma scheduler_run_append:
  "snd (scheduler_run digest s (xs @ ys)) = snd (scheduler_run digest (snd (scheduler_run digest s xs)) ys)"
  by (induction xs arbitrary: s) (auto simp: case_prod_unfold Let_def)

lemma pipeline_run_total:
  assumes "models_ok ms" and "decoders_ok env" and "\<forall>(ts, buf)\<in>set pkts. known_transport env buf"
  shows "\<exists>p'. pipeline_run env cals ms pkts p = Inr p' \<and> pp_packets p' = pp_packets p + length pkts
    \<and> pp_scheduler p' = snd (scheduler_run (pe_digest env) (pp_scheduler p) (parsed_all env pkts))
    \<and> (\<exists>new. pp_alerts p' = pp_alerts p @ new \<and> (\<forall>a\<in>set new. raised_for env pkts a))"
  using assms(3)
proof (induction pkts arbitrary: p)
  case (Cons pkt pkts)
  obtain ts buf where pkt: "pkt = (ts, buf)" by (rule prod.exhaust)
  have kt: "known_transport env buf" and rest: "\<forall>(ts, buf)\<in>set pkts. known_transport env buf"
    using Cons.prems by (auto simp: pkt)
  obtain q new1 where q: "pipeline_packet env cals ms pkt p = Inr q" "pp_packets q = pp_packets p + 1"
    "pp_scheduler q = snd (scheduler_run (pe_digest env) (pp_scheduler p) (parsed_of env pkt))"
    "pp_alerts q = pp_alerts p @ new1" "\<forall>a\<in>set new1. raised_for env [pkt] a"
    using pipeline_packet_total [OF assms(1,2) kt, of cals ts p] unfolding pkt by blast
  obtain p' new2 where p': "pipeline_run env cals ms pkts q = Inr p'" "pp_packets p' = pp_packets q + length pkts"
    "pp_scheduler p' = snd (scheduler_run (pe_digest env) (pp_scheduler q) (parsed_all env pkts))"
    "pp_alerts p' = pp_alerts q @ new2" "\<forall>a\<in>set new2. raised_for env pkts a"
    using Cons.IH [OF rest, of q] by blast
  have "\<forall>a\<in>set (new1 @ new2). raised_for env (pkt # pkts) a"
    using q(5) p'(5) raised_for_append [of env "[pkt]" pkts] by (simp add: ball_Un)
  moreover have "pp_alerts p' = pp_alerts p @ (new1 @ new2)" by (simp add: q(4) p'(4))
  moreover have "pp_scheduler p' = snd (scheduler_run (pe_digest env) (pp_scheduler p) (parsed_all env (pkt # pkts)))"
    by (simp add: p'(3) q(3) scheduler_run_append)
  moreover have "pipeline_run env cals ms (pkt # pkts) p = Inr p'" by (simp add: q(1) p'(1))
  moreover have "pp_packets p' = pp_packets p + length (pkt # pkts)" by (simp add: q(2) p'(2))
  ultimately show ?case by blast
qed simp

text \<open>
  C11. Raw packets in, well-formed alerts out: when every trained model answers in its range,
  the decoders behave as documented and no packet carries an unknown transport, the whole
  detection pipeline processes any capture without an exception, counts every packet, and
  each alert it adds was raised by one of its six detectors for one of the parsed packets:
  it bears that packet's time and flow, a confidence in \<open>[0, 1]\<close> with the matching severity,
  and an explanation.
\<close>

theorem pipeline_total_and_typed:
  assumes "models_ok ms" and "decoders_ok env" and "\<forall>(ts, buf)\<in>set pkts. known_transport env buf"
  shows "\<exists>p'. pipeline_run env cals ms pkts pipeline_init = Inr p' \<and> pp_packets p' = length pkts
    \<and> (\<forall>a\<in>set (pp_alerts p'). raised_for env pkts a)"
  using pipeline_run_total [OF assms, of cals pipeline_init] by (auto simp: pipeline_init_def)

definition sample_pipe :: "transport \<Rightarrow> pipe_env" where
  "sample_pipe tr = \<lparr>pe_link = \<lparr>dpkt_ip = (\<lambda>_. Some (IP4 [10, 0, 0, 1] [8, 8, 8, 8] 40 tr)),
       dpkt_ip6 = (\<lambda>_. None), dpkt_eth = (\<lambda>_. None)\<rparr>,
     pe_dns = (\<lambda>_. Inl NeedData), pe_tls = (\<lambda>_. Inl NeedData), pe_handshake = (\<lambda>_. None), pe_digest = length,
     pe_mean = (\<lambda>_. 0), pe_var = (\<lambda>_. 0), pe_uuid = nat_str, pe_order = id\<rparr>"

definition no_models :: detector_models where
  "no_models = \<lparr>m_ddos = None, m_beaconing = None, m_dga = None, m_encrypted = None, m_recon = None, m_exfil = None\<rparr>"

lemma sample_pipe_ok: "decoders_ok (sample_pipe tr)" "models_ok no_models" "tr \<noteq> OtherTransport \<Longrightarrow> known_transport (sample_pipe tr) buf"
  by (auto simp: decoders_ok_def models_ok_def model_ok_def no_models_def sample_pipe_def known_transport_def decode_ip_def
      split: list.splits if_splits)

theorem pipeline_total_and_typed_witness:
  "\<exists>p'. pipeline_run (sample_pipe (Tcp 1000 80 2 [])) [] no_models [(5, [0x45]), (6, [0x45])] pipeline_init = Inr p'
     \<and> pp_packets p' = 2"
  using pipeline_total_and_typed [OF sample_pipe_ok(2,1), of "[(5, [0x45]), (6, [0x45])]" "Tcp 1000 80 2 []" "[]"]
    sample_pipe_ok(3) by fastforce

section \<open>Floods, end to end\<close>

lemma flood_verdict:
  assumes "counters d = window_counts ms"
    and "10 * max 1 (count_of (is_tcp_flag 18) ms) < count_of (is_tcp_flag 2) ms"
  obtains used expl where "ddos_predict md (ddos_extract d dst) = Inr (95 / 100, used, expl)" "expl \<noteq> []"
proof -
  let ?a = "real_of_int (max 1 (count_of (is_tcp_flag 18) ms))"
  have "10 * ?a < real_of_int (count_of (is_tcp_flag 2) ms)"
    using assms(2) by (metis of_int_less_iff of_int_mult of_int_numeral)
  moreover have "0 < ?a" by simp
  ultimately have "10 < real_of_int (count_of (is_tcp_flag 2) ms) / ?a" by (simp only: pos_less_divide_eq)
  then have "10 < dict_get (ddos_extract d dst) ''syn_synack_ratio'' 0" unfolding ddos_vector_counts(1) [OF assms(1)] .
  then show thesis using that by (simp add: ddos_predict_def Let_def)
qed

lemma quiet_first_window:
  assumes "0 < w1" "0 < w5" "0 < w60" "0 < t" and "sorted (t # packet_times ps)" and "last (t # packet_times ps) - t < w1"
  shows "fired_count ''ddos'' (fst (scheduler_run digest (scheduler_init w1 w5 w60) ((m, t, dns, tls) # ps))) = 0"
proof -
  define r where "r = snd (process_packet digest (scheduler_init w1 w5 w60) m t dns tls)"
  have ok: "windows_ok (scheduler_init w1 w5 w60)" using assms(1-3) by (simp add: windows_ok_def scheduler_init_def)
  have r: "ready r t" "last_1s r = t" unfolding r_def by (rule first_packet_ready [OF assms(1-4)])+
  have w: "window_1s r = w1" unfolding r_def packet_state(1) [OF ok] by (simp add: scheduler_init_def)
  have none: "fst (process_packet digest (scheduler_init w1 w5 w60) m t dns tls) = []"
    using process_packet_keys [OF ok, of digest m t dns tls] by (simp add: due_def live_def scheduler_init_def)
  have "t - last_1s r < window_1s r" by (simp add: r w assms(1))
  from win_1s.rate [OF r(1) assms(5) this, of digest] assms(6)
  have "real (fired_count ''ddos'' (fst (scheduler_run digest r ps))) * w1 < w1" unfolding r(2) w by linarith
  then have "real (fired_count ''ddos'' (fst (scheduler_run digest r ps))) < 1" using assms(1) by simp
  then show ?thesis unfolding scheduler_run_first none r_def [symmetric] by (simp add: fired_count_def dict_has_def)
qed

text \<open>The packets of one first window.\<close>

definition first_window :: "real \<Rightarrow> parsed_packet list \<Rightarrow> bool" where
  "first_window w ps \<longleftrightarrow> ps \<noteq> [] \<and> 0 < hd (packet_times ps) \<and> sorted (packet_times ps)
     \<and> last (packet_times ps) - hd (packet_times ps) < w"

lemma first_window_counters:
  assumes "first_window w1 ps" and "0 < w1" "0 < w5" "0 < w60"
  shows "counters (sc_ddos (snd (scheduler_run digest (scheduler_init w1 w5 w60) ps))) = window_counts (metas ps)"
proof -
  obtain m t dns tls qs where ps: "ps = (m, t, dns, tls) # qs"
    using assms(1) unfolding first_window_def by (cases ps) auto
  have "sorted (t # packet_times qs)" "last (t # packet_times qs) - t < w1" "0 < t"
    using assms(1) by (simp_all add: first_window_def ps packet_times_def)
  then have quiet: "fired_count ''ddos'' (fst (scheduler_run digest (scheduler_init w1 w5 w60) ps)) = 0"
    unfolding ps using assms(2-4) by (intro quiet_first_window)
  have "windows_ok (scheduler_init w1 w5 w60)" using assms(2-4) by (simp add: windows_ok_def scheduler_init_def)
  moreover have "counters (sc_ddos (scheduler_init w1 w5 w60)) = window_counts []"
    by (simp add: scheduler_init_def counters_def ddos_init_def window_counts_def)
  ultimately show ?thesis
    using quiet_run_counters [of "scheduler_init w1 w5 w60" "[]" digest ps, OF _ _ prod.collapse [symmetric] quiet] by simp
qed

lemma pipeline_run_append:
  "pipeline_run env cals ms (xs @ ys) p = bind_result (pipeline_run env cals ms xs p) (pipeline_run env cals ms ys)"
proof (induction xs arbitrary: p)
  case (Cons x xs)
  then show ?case by (cases "pipeline_packet env cals ms x p") simp_all
qed simp

lemma pipeline_run_single: "pipeline_run env cals ms [pkt] p = pipeline_packet env cals ms pkt p"
  by (cases "pipeline_packet env cals ms pkt p") simp_all

text \<open>The pipeline just before the detectors see the last packet of a flood.\<close>

lemma flood_reaches_detector:
  assumes "models_ok ms" and "decoders_ok env" and "\<forall>(ts, buf)\<in>set pkts. known_transport env buf"
    and "parse_packet (pe_link env) buf = Inr (Some m)" and "parse_app env m = Inr (dns, tls)"
    and "first_window (1 / 10) (parsed_all env pkts @ [(m, ts, dns, tls)])"
    and "10 * max 1 (count_of (is_tcp_flag 18) (metas (parsed_all env pkts) @ [m]))
           < count_of (is_tcp_flag 2) (metas (parsed_all env pkts) @ [m])"
  obtains s q used expl where "pipeline_run env cals ms (pkts @ [(ts, buf)]) pipeline_init
      = detect_all env cals ms (extract_all (pe_digest env) s (src_ip m) (dst_ip m)) m ts detector_names q"
    "ddos_predict (m_ddos ms) (ddos_extract (sc_ddos s) (dst_ip m)) = Inr (95 / 100, used, expl)" "expl \<noteq> []"
proof -
  obtain p where p: "pipeline_run env cals ms pkts pipeline_init = Inr p"
    "pp_scheduler p = snd (scheduler_run (pe_digest env) (pp_scheduler pipeline_init) (parsed_all env pkts))"
    using pipeline_run_total [OF assms(1-3)] by blast
  define s where "s = snd (process_packet (pe_digest env) (pp_scheduler p) m ts dns tls)"
  have "s = snd (scheduler_run (pe_digest env) (scheduler_init (1 / 10) (5 / 10) 1) (parsed_all env pkts @ [(m, ts, dns, tls)]))"
    unfolding scheduler_run_append scheduler_run_first by (simp add: s_def p(2) pipeline_init_def)
  then have "counters (sc_ddos s) = window_counts (metas (parsed_all env pkts) @ [m])"
    using first_window_counters [OF assms(6), of "5 / 10" 1 "pe_digest env"] by (simp add: metas_def)
  then obtain used expl where "ddos_predict (m_ddos ms) (ddos_extract (sc_ddos s) (dst_ip m)) = Inr (95 / 100, used, expl)"
    "expl \<noteq> []" by (rule flood_verdict [OF _ assms(7)])
  moreover have "pipeline_run env cals ms (pkts @ [(ts, buf)]) pipeline_init
      = detect_all env cals ms (extract_all (pe_digest env) s (src_ip m) (dst_ip m)) m ts detector_names
          (p\<lparr>pp_packets := pp_packets p + 1, pp_scheduler := s\<rparr>)"
    unfolding pipeline_run_append p(1) bind_result.simps pipeline_run_single pipeline_packet_meta [OF assms(4,5)] Let_def s_def ..
  ultimately show thesis using that by blast
qed

lemma flood_alert:
  assumes "models_ok ms" and "decoders_ok env" and "\<forall>(ts, buf)\<in>set pkts. known_transport env buf"
    and "parse_packet (pe_link env) buf = Inr (Some m)" and "parse_app env m = Inr (dns, tls)"
    and "first_window (1 / 10) (parsed_all env pkts @ [(m, ts, dns, tls)])"
    and "10 * max 1 (count_of (is_tcp_flag 18) (metas (parsed_all env pkts) @ [m]))
           < count_of (is_tcp_flag 2) (metas (parsed_all env pkts) @ [m])"
    and "protocol m \<noteq> None"
  shows "\<exists>p'. pipeline_run env cals ms (pkts @ [(ts, buf)]) pipeline_init = Inr p'
    \<and> (\<exists>a\<in>set (pp_alerts p'). alert_of ''ddos'' m ts a
         \<and> al_confidence a = max 0 (min 1 (calibrated cals ''ddos'' (95 / 100))))"
proof -
  obtain s q used expl where run: "pipeline_run env cals ms (pkts @ [(ts, buf)]) pipeline_init
      = detect_all env cals ms (extract_all (pe_digest env) s (src_ip m) (dst_ip m)) m ts detector_names q"
    and v: "ddos_predict (m_ddos ms) (ddos_extract (sc_ddos s) (dst_ip m)) = Inr (95 / 100, used, expl)" "expl \<noteq> []"
    by (rule flood_reaches_detector [OF assms(1-7)])
  obtain pr where pr: "protocol m = Some pr" using assms(8) by blast
  have names: "detector_names = ''ddos'' # tl detector_names" "set (tl detector_names) \<subseteq> set detector_names"
    by (simp_all add: detector_names_def)
  have d: "run_detector env ms ''ddos'' (RVec (ddos_extract (sc_ddos s) (dst_ip m))) = Inr (95 / 100, used, expl)"
    using v(1) by simp
  obtain b c where b: "detect_all env cals ms (extract_all (pe_digest env) s (src_ip m) (dst_ip m)) m ts (''ddos'' # tl detector_names) q
      = detect_all env cals ms (extract_all (pe_digest env) s (src_ip m) (dst_ip m)) m ts (tl detector_names)
          (q\<lparr>pp_correlator := c, pp_alerts := pp_alerts q @ [b]\<rparr>)"
    "alert_of ''ddos'' m ts b" "al_confidence b = max 0 (min 1 (calibrated cals ''ddos'' (95 / 100)))"
    by (rule detect_all_flagged [OF extract_all_lookup(1) d v(2) _ pr]) simp_all
  obtain p' where p': "detect_all env cals ms (extract_all (pe_digest env) s (src_ip m) (dst_ip m)) m ts (tl detector_names)
        (q\<lparr>pp_correlator := c, pp_alerts := pp_alerts q @ [b]\<rparr>) = Inr p'"
    "adds_alerts m ts (set (tl detector_names)) (q\<lparr>pp_correlator := c, pp_alerts := pp_alerts q @ [b]\<rparr>) p'"
    using detect_all_total [OF assms(1) pr names(2)] by blast
  have "b \<in> set (pp_alerts p')" using p'(2) by (auto simp: adds_alerts_def)
  moreover have "pipeline_run env cals ms (pkts @ [(ts, buf)]) pipeline_init = Inr p'"
    using run b(1) p'(1) names(1) by simp
  ultimately show ?thesis using b(2,3) by blast
qed

text \<open>
  C12. A SYN flood in a capture raises an alert: whenever the packets up to some TCP, UDP or
  ICMP packet lie within one window of the pipeline and hold more than ten bare SYNs per
  SYN-ACK (and more than ten in all), processing that packet adds a DDoS alert with its time
  and flow and the calibrated confidence of 0.95, whatever the trained models are.
\<close>

theorem syn_flood_raises_alert:
  assumes "models_ok ms" and "decoders_ok env" and "\<forall>(ts, buf)\<in>set pkts. known_transport env buf"
    and "parse_packet (pe_link env) buf = Inr (Some m)" and "parse_app env m = Inr (dns, tls)"
    and "first_window (1 / 10) (parsed_all env pkts @ [(m, ts, dns, tls)])"
    and "10 * max 1 (count_of (is_tcp_flag 18) (metas (parsed_all env pkts) @ [m]))
           < count_of (is_tcp_flag 2) (metas (parsed_all env pkts) @ [m])"
    and "protocol m \<noteq> None"
  shows "\<exists>p'. pipeline_run env cals ms (pkts @ [(ts, buf)]) pipeline_init = Inr p'
    \<and> (\<exists>a\<in>set (pp_alerts p'). alert_of ''ddos'' m ts a
         \<and> al_confidence a = max 0 (min 1 (calibrated cals ''ddos'' (95 / 100))))"
  by (rule flood_alert [OF assms])

definition syn_env :: pipe_env where
  "syn_env = sample_pipe (Tcp 1000 80 2 [])"

definition syn_meta :: packet_meta where
  "syn_meta = \<lparr>src_ip = ''10.0.0.1'', dst_ip = ''8.8.8.8'', ip_len = Some 40, protocol = Some ''TCP'', src_port = 1000,
     dst_port = 80, tcp_flags = Some 2, orig_pkts = None, payload = []\<rparr>"

lemma char_of_digits [simp]:
  "char_of (48 :: nat) = CHR ''0''" "char_of (49 :: nat) = CHR ''1''" "char_of (56 :: nat) = CHR ''8''"
  by (simp_all add: char_of_def bit_Suc_0_iff)

lemma syn_env_parses:
  "parse_packet (pe_link syn_env) [0x45] = Inr (Some syn_meta)" "parse_app syn_env syn_meta = Inr (None, None)"
  by (simp_all add: syn_env_def sample_pipe_def parse_packet_def decode_ip_def inet_to_str_def inet_ntop4_def base_meta_def
      syn_meta_def parse_app_def nat_str.simps digit_char_def)

lemma syn_env_parsed: "parsed_all syn_env (replicate n (5, [0x45])) = replicate n (syn_meta, 5, None, None)"
  by (induction n) (simp_all add: parsed_of_def syn_env_parses)

theorem syn_flood_raises_alert_witness:
  "\<exists>p'. pipeline_run syn_env [] no_models (replicate 10 (5, [0x45]) @ [(5, [0x45])]) pipeline_init = Inr p'
     \<and> (\<exists>a\<in>set (pp_alerts p'). al_detector a = ''ddos'' \<and> al_severity a = CRITICAL)"
proof -
  have known: "\<forall>(ts, buf)\<in>set (replicate 10 (5, [0x45])). known_transport syn_env buf"
    using sample_pipe_ok(3) by (auto simp: syn_env_def)
  have win: "first_window (1 / 10) (parsed_all syn_env (replicate 10 (5, [0x45])) @ [(syn_meta, 5, None, None)])"
    by (simp add: syn_env_parsed first_window_def packet_times_def sorted_append)
  have flood: "10 * max 1 (count_of (is_tcp_flag 18) (metas (parsed_all syn_env (replicate 10 (5, [0x45]))) @ [syn_meta]))
      < count_of (is_tcp_flag 2) (metas (parsed_all syn_env (replicate 10 (5, [0x45]))) @ [syn_meta])"
    unfolding syn_env_parsed by (simp add: metas_def count_of_def is_tcp_flag_def syn_meta_def filter_replicate)
  have pr: "protocol syn_meta \<noteq> None" by (simp add: syn_meta_def)
  have ok: "decoders_ok syn_env" unfolding syn_env_def by (rule sample_pipe_ok)
  from syn_flood_raises_alert [OF sample_pipe_ok(2) ok known syn_env_parses win flood pr, of "[]"]
  show ?thesis by (auto simp: alert_of_def calibrated_def get_severity_def)
qed


text \<open>Captures in which the first byte tells a SYN from a packet of another transport.\<close>

definition mixed_env :: pipe_env where
  "mixed_env = syn_env\<lparr>pe_link := \<lparr>dpkt_ip = (\<lambda>bs. Some (IP4 [10, 0, 0, 1] [8, 8, 8, 8] 40
       (if bs = [0x45] then Tcp 1000 80 2 [] else OtherTransport))), dpkt_ip6 = (\<lambda>_. None), dpkt_eth = (\<lambda>_. None)\<rparr>\<rparr>"

lemma mixed_env_facts:
  "parse_packet (pe_link mixed_env) [0x45] = Inr (Some syn_meta)" "parse_app mixed_env syn_meta = Inr (None, None)"
  "parse_packet (pe_link mixed_env) [0x46] = Inr (Some (syn_meta\<lparr>protocol := None, src_port := 0, dst_port := 0, tcp_flags := Some 0\<rparr>))"
  "parse_app mixed_env (syn_meta\<lparr>protocol := None, src_port := 0, dst_port := 0, tcp_flags := Some 0\<rparr>) = Inr (None, None)"
  "known_transport mixed_env [0x45]" "decoders_ok mixed_env"
  by (simp_all add: mixed_env_def syn_env_def sample_pipe_def parse_packet_def decode_ip_def inet_to_str_def inet_ntop4_def
      base_meta_def syn_meta_def parse_app_def nat_str.simps digit_char_def known_transport_def decoders_ok_def split: list.splits)

lemma mixed_env_parsed: "parsed_all mixed_env (replicate n (5, [0x45])) = replicate n (syn_meta, 5, None, None)"
  by (induction n) (simp_all add: parsed_of_def mixed_env_facts)


section \<open>How detection degrades\<close>

lemma flagged_det:
  assumes "model_ok md" and "\<And>md fv. model_ok md \<Longrightarrow> \<exists>s u e. predict md fv = Inr (s, u, e) \<and> 0 \<le> s \<and> s \<le> 1 \<and> (e \<noteq> [] \<longleftrightarrow> 1 / 2 < s)"
  shows "\<exists>b. flagged (predict md fv) = Inr b"
  using assms(2) [OF assms(1), of fv] by (auto simp: flagged_def)

lemma beaconing_flagged:
  "0 < mean \<Longrightarrow> cv < 1 / 10 \<Longrightarrow> flagged (beaconing_predict md [(''iat_cv'', cv), (''mean_iat'', mean), (''dst_fan_in'', f)]) = Inr True"
  "model_ok md \<Longrightarrow> 0 < mean \<Longrightarrow> 1 / 2 \<le> cv
     \<Longrightarrow> flagged (beaconing_predict md [(''iat_cv'', cv), (''mean_iat'', mean), (''dst_fan_in'', f)]) = Inr False"
proof -
  show "0 < mean \<Longrightarrow> cv < 1 / 10 \<Longrightarrow> flagged (beaconing_predict md [(''iat_cv'', cv), (''mean_iat'', mean), (''dst_fan_in'', f)]) = Inr True"
    by (simp add: flagged_def beaconing_predict_def dict_get_def Let_def)
  assume a: "model_ok md" "0 < mean" "1 / 2 \<le> cv"
  show "flagged (beaconing_predict md [(''iat_cv'', cv), (''mean_iat'', mean), (''dst_fan_in'', f)]) = Inr False"
  proof (cases md)
    case None
    then show ?thesis using a by (simp add: flagged_def beaconing_predict_def dict_get_def Let_def)
  next
    case (Some m)
    obtain p where "\<And>x. ml_predict m [x] = Inr [p x]" using model_ok_predict a(1) Some by blast
    then show ?thesis using a Some by (simp add: flagged_def beaconing_predict_def dict_get_def Let_def py_index_def)
  qed
qed

lemma recon_flagged:
  "50 < vol \<Longrightarrow> flagged (recon_predict md [(''syn_only_ratio'', 1), (''scan_activity_score'', vol)]) = Inr True"
  "0 < vol \<Longrightarrow> vol \<le> 50 \<Longrightarrow> flagged (recon_predict None [(''syn_only_ratio'', 1), (''scan_activity_score'', vol)]) = Inr False"
  by (simp_all add: flagged_def recon_predict_def dict_get_def Let_def)

text \<open>
  The degradation curves: whatever the trained model, timing with a coefficient of
  variation of 0.01 is flagged and with 0.5 or more never is, so an attacker who jitters that
  much escapes the beaconing detector; scans above volume 50 are always flagged, and without
  a model none below.
\<close>

theorem degradation_curves:
  assumes "model_ok md"
  shows "map snd (beaconing_jitter md) =
      Inr True # map (\<lambda>cv. flagged (beaconing_predict md [(''iat_cv'', cv), (''mean_iat'', 10), (''dst_fan_in'', 1)])) [1 / 10, 3 / 10]
        @ [Inr False, Inr False, Inr False, Inr False]"
    and "map snd (take 3 (recon_slow_low md)) = [Inr True, Inr True, Inr True]"
    and "map snd (drop 3 (recon_slow_low None)) = replicate 5 (Inr False)"
proof -
  show "map snd (beaconing_jitter md) =
      Inr True # map (\<lambda>cv. flagged (beaconing_predict md [(''iat_cv'', cv), (''mean_iat'', 10), (''dst_fan_in'', 1)])) [1 / 10, 3 / 10]
        @ [Inr False, Inr False, Inr False, Inr False]"
    unfolding beaconing_jitter_def
    by (simp only: list.map snd_conv append.simps) (simp add: beaconing_flagged(1) beaconing_flagged(2) [OF assms])
qed (simp_all add: recon_slow_low_def recon_flagged numeral_eq_Suc)

section \<open>The replay harness\<close>

text \<open>
  \<^verbatim>\<open>benchmarks/replay_harness.py\<close> puts a capture on a network interface: with \<^verbatim>\<open>tcpreplay\<close>, or packet by
  packet with a pause after each. What it does is a list of operations, which has no
  operation that receives.
\<close>

datatype 'p wire_op = SendP 'p string | Sleep real | RunCmd "string list"

definition replay_with_tcpreplay :: "string \<Rightarrow> string \<Rightarrow> int \<Rightarrow> 'p wire_op list" where
  "replay_with_tcpreplay pcap_file interface pps = [RunCmd [''tcpreplay'', ''-i'', interface, ''--pps'', int_str pps, pcap_file]]"

definition replay_with_scapy :: "bool \<Rightarrow> 'p list \<Rightarrow> string \<Rightarrow> int \<Rightarrow> 'p wire_op list" where
  "replay_with_scapy have_scapy pkts interface pps =
     (if \<not> have_scapy then []
      else let interval = (if 0 < pps then 1 / real_of_int pps else 0)
           in concat (map (\<lambda>pkt. SendP pkt interface # (if 0 < interval then [Sleep interval] else [])) pkts))"

text \<open>The exit code and the operations; \<open>None\<close> is a capture that does not exist.\<close>

definition harness_main :: "bool \<Rightarrow> 'p list option \<Rightarrow> string \<Rightarrow> string \<Rightarrow> int \<Rightarrow> string \<Rightarrow> int \<times> 'p wire_op list" where
  "harness_main have_scapy capture pcap_file interface pps backend =
     (case capture of
        None \<Rightarrow> (1, [])
      | Some pkts \<Rightarrow>
          (0, if backend = ''tcpreplay'' then replay_with_tcpreplay pcap_file interface pps
              else replay_with_scapy have_scapy pkts interface pps))"

fun sent_of :: "'p wire_op \<Rightarrow> 'p list" where
  "sent_of (SendP p _) = [p]"
| "sent_of _ = []"

fun pause_of :: "'p wire_op \<Rightarrow> real" where
  "pause_of (Sleep d) = d"
| "pause_of _ = 0"

text \<open>With a positive rate the replay sends every packet of the capture once, in order, and pauses n / pps seconds for n packets.\<close>

lemma replay_sends_capture:
  assumes "0 < pps"
  shows "concat (map sent_of (replay_with_scapy True pkts interface pps)) = pkts"
    "sum_list (map pause_of (replay_with_scapy True pkts interface pps)) = real (length pkts) / real_of_int pps"
  using assms by (induction pkts) (simp_all add: replay_with_scapy_def Let_def add_divide_distrib)

end
