(* ===== verification/CaptureRuns.thy ===== *)
theory CaptureRuns
  imports CaptureGen Pipeline
begin

text \<open>
  What the captures of \<^verbatim>\<open>tools/traffic_gen\<close> mean for the detectors: the tunnelled payload is
  recovered from the query names although the exfiltration features never count them, and the
  simulated SYN flood raises an alert in the detection pipeline.
\<close>

section \<open>Base32 is decoded\<close>

definition five_bits :: "nat \<Rightarrow> bool list" where
  "five_bits v = rev (map (bit v) [0..<5])"

definition b32_value :: "char \<Rightarrow> nat" where
  "b32_value c = (let n = of_char c in if 97 \<le> n then n - 97 else n - 24)"

fun bytes_of_bits :: "bool list \<Rightarrow> bytes" where
  "bytes_of_bits [] = []"
| "bytes_of_bits (b # bs) = horner_sum of_bool 2 (rev (take 8 (b # bs))) # bytes_of_bits (drop 7 bs)"

text \<open>A decoder of lower-case base32 without padding: the whole bytes among the bits.\<close>

definition b32_decode :: "string \<Rightarrow> bytes" where
  "b32_decode s = bytes_of_bits (take (8 * (5 * length s div 8)) (concat (map (\<lambda>c. five_bits (b32_value c)) s)))"

lemma foldl_horner: "foldl (\<lambda>v x. 2 * v + (if x then 1 else 0)) 0 bs = (horner_sum of_bool 2 (rev bs) :: nat)"
  by (induction bs rule: rev_induct) (simp_all add: of_bool_def)

lemma five_bits_horner:
  assumes "length bs = 5"
  shows "five_bits (horner_sum of_bool 2 (rev bs)) = bs"
proof -
  have "map (bit (horner_sum of_bool 2 (rev bs) :: nat)) [0..<5] = rev bs"
    using assms by (intro nth_equalityI) (auto simp: bit_horner_sum_bit_iff)
  then show ?thesis by (simp add: five_bits_def)
qed

lemma horner_less_power: "(horner_sum of_bool 2 bs :: nat) < 2 ^ length bs"
  by (induction bs) auto

lemma horner_less: "length bs = 5 \<Longrightarrow> (horner_sum of_bool 2 bs :: nat) < 32"
  using horner_less_power [of bs] by simp

lemma b32_digits_less: "\<forall>v\<in>set (b32_digits bs). v < 32"
proof (induction bs rule: b32_digits.induct)
  case (2 b bs)
  then show ?case by (simp add: foldl_horner horner_less del: foldl_append foldl_Cons take_Suc_Cons)
qed simp

lemma b32_digits_bits: "\<exists>k<5. concat (map five_bits (b32_digits bs)) = bs @ replicate k False"
proof (induction bs rule: b32_digits.induct)
  case 1
  show ?case by (intro exI [of _ 0]) simp
next
  case (2 b bs)
  let ?g = "take 5 ((b # bs) @ replicate 4 False)"
  have g: "five_bits (foldl (\<lambda>v x. 2 * v + (if x then 1 else 0)) 0 ?g) = ?g"
    unfolding foldl_horner by (rule five_bits_horner) simp
  from 2 obtain k where k: "k < 5" "concat (map five_bits (b32_digits (drop 4 bs))) = drop 4 bs @ replicate k False" by blast
  show ?case
  proof (cases "4 \<le> length bs")
    case True
    then have "?g = take 5 (b # bs)" by simp
    then show ?thesis
      using g k by (intro exI [of _ k]) (simp add: numeral_eq_Suc)
  next
    case False
    then have d: "drop 4 bs = []" by simp
    have "?g = (b # bs) @ replicate (4 - length bs) False" using False by simp
    with g show ?thesis
      unfolding b32_digits.simps list.map concat.simps d
      by (intro exI [of _ "4 - length bs"]) (simp del: foldl_append foldl_Cons)
  qed
qed

lemma byte_bits_rev: "byte_bits b = rev (map (bit b) [0..<8])"
  by (rule nth_equalityI) (simp_all add: byte_bits_def rev_nth)

lemma bytes_of_byte_bits: "bytes_of_bits (concat (map byte_bits bs)) = bs"
proof (induction bs)
  case (Cons b bs)
  have l: "length (byte_bits b) = 8" by (simp add: byte_bits_def)
  then obtain x xs where x: "byte_bits b = x # xs" "length xs = 7" by (cases "byte_bits b") auto
  have "horner_sum of_bool 2 (rev (byte_bits b)) = b"
    by (simp add: byte_bits_rev horner_sum_bit_eq_take_bit take_bit_word_eq_self)
  with Cons x show ?case by simp
qed simp

lemma length_bits: "length (concat (map byte_bits bs)) = 8 * length bs"
  by (induction bs) (simp_all add: byte_bits_def)

definition b32_char :: "nat \<Rightarrow> char" where
  "b32_char v = lower_char (b32_alphabet ! v)"

lemma b32_chars: "list_all (\<lambda>v. b32_value (b32_char v) = v) [0..<32]"
  by (simp add: upt_rec b32_char_def b32_value_def b32_alphabet_def lower_char_def Let_def)

lemma b32_char_value:
  assumes "v < 32"
  shows "b32_value (b32_char v) = v" "b32_char v \<noteq> CHR ''=''"
proof -
  show v: "b32_value (b32_char v) = v" using b32_chars assms by (simp add: list_all_iff)
  show "b32_char v \<noteq> CHR ''=''"
  proof
    assume "b32_char v = CHR ''=''"
    then have "b32_value (b32_char v) = 37" by (simp add: b32_value_def)
    with v assms show False by simp
  qed
qed

lemma tunnel_label_digits: "tunnel_label chunk = map b32_char (b32_digits (concat (map byte_bits (encode chunk))))"
proof -
  define ds where "ds = b32_digits (concat (map byte_bits (encode chunk)))"
  have "\<forall>v\<in>set ds. b32_char v \<noteq> CHR ''=''"
    using b32_digits_less b32_char_value(2) by (auto simp: ds_def)
  then have "filter (\<lambda>c. c \<noteq> CHR ''='') (map b32_char ds) = map b32_char ds" by (auto simp: filter_id_conv)
  moreover have "lower_char (CHR ''='') = CHR ''=''" by (simp add: lower_char_def)
  ultimately show ?thesis
    by (simp add: tunnel_label_def b32encode_def Let_def lower_def b32_char_def [abs_def] comp_def flip: ds_def)
qed

lemma b32_decode_label: "b32_decode (tunnel_label chunk) = encode chunk"
proof -
  define bits where "bits = concat (map byte_bits (encode chunk))"
  define ds where "ds = b32_digits bits"
  obtain k where k: "k < 5" "concat (map five_bits ds) = bits @ replicate k False"
    using b32_digits_bits unfolding ds_def by blast
  have "length (concat (map five_bits ds)) = 5 * length ds" by (induction ds) (simp_all add: five_bits_def)
  then have "5 * length ds = 8 * length (encode chunk) + k" using k by (simp add: bits_def length_bits)
  then have "5 * length ds div 8 = length (encode chunk)" using k(1) by linarith
  moreover have "map (\<lambda>c. five_bits (b32_value c)) (map b32_char ds) = map five_bits ds"
    using b32_digits_less b32_char_value(1) by (simp add: ds_def)
  moreover have "tunnel_label chunk = map b32_char ds" by (simp add: tunnel_label_digits bits_def ds_def)
  ultimately have "b32_decode (tunnel_label chunk) = bytes_of_bits (take (8 * length (encode chunk)) (bits @ replicate k False))"
    by (simp only: b32_decode_def k length_map)
  also have "\<dots> = encode chunk" by (simp add: bits_def length_bits bytes_of_byte_bits)
  finally show ?thesis .
qed

section \<open>The tunnel\<close>

definition query_name :: "cap_pkt \<Rightarrow> string" where
  "query_name p = (case cp_app p of DnsQuery q \<Rightarrow> q | _ \<Rightarrow> [])"

definition first_label :: "string \<Rightarrow> string" where
  "first_label q = takeWhile (\<lambda>c. c \<noteq> CHR ''.'') q"

text \<open>What the DNS parser makes of a query of the default type, A.\<close>

definition dns_view :: "cap_pkt \<Rightarrow> dns_parsed" where
  "dns_view p = \<lparr>queries = [\<lparr>q_name = Some (query_name p), q_type = Some (QInt 1)\<rparr>], answers = [], nxdomain = None\<rparr>"

lemma b32_chars_high: "list_all (\<lambda>v. 50 \<le> (of_char (b32_char v) :: nat)) [0..<32]"
  by (simp add: upt_rec b32_char_def b32_alphabet_def lower_char_def Let_def)

lemma first_label_tunnel: "first_label (tunnel_label chunk @ ''.'' @ base) = tunnel_label chunk"
proof -
  have "b32_char v \<noteq> CHR ''.''" if "v < 32" for v
  proof
    assume "b32_char v = CHR ''.''"
    then have "(of_char (b32_char v) :: nat) = 46" by simp
    moreover have "50 \<le> (of_char (b32_char v) :: nat)" using b32_chars_high that by (simp add: list_all_iff)
    ultimately show False by simp
  qed
  then have "\<forall>c\<in>set (tunnel_label chunk). c \<noteq> CHR ''.''"
    using b32_digits_less by (auto simp: tunnel_label_digits)
  then show ?thesis unfolding first_label_def by (subst takeWhile_append2) auto
qed

lemma length_encode [simp]: "length (encode s) = length s"
  by (simp add: encode_def)

lemma length_tunnel_label:
  assumes "length chunk \<le> 30"
  shows "length (tunnel_label chunk) \<le> 48"
proof -
  define ds where "ds = b32_digits (concat (map byte_bits (encode chunk)))"
  obtain k where k: "k < 5" "concat (map five_bits ds) = concat (map byte_bits (encode chunk)) @ replicate k False"
    using b32_digits_bits unfolding ds_def by blast
  have five: "length (concat (map five_bits xs)) = 5 * length xs" for xs by (induction xs) (simp_all add: five_bits_def)
  from five [of ds] have "5 * length ds = 8 * length chunk + k" unfolding k(2) length_append length_replicate length_bits length_encode by simp
  with k(1) assms have "length ds \<le> 48" by linarith
  then show ?thesis by (simp add: tunnel_label_digits flip: ds_def)
qed

lemma chunks_of_concat: "0 < n \<Longrightarrow> concat (chunks_of n xs) = xs"
proof (induction n xs rule: chunks_of.induct)
  case (2 n x xs)
  then show ?case by (simp add: append_take_drop_id)
qed simp

lemma chunks_of_length: "0 < n \<Longrightarrow> ys \<in> set (chunks_of n xs) \<Longrightarrow> length ys \<le> n"
  by (induction n xs rule: chunks_of.induct) auto

lemma tunnel_loop_queries:
  "pred_state (\<lambda>r. map query_name (fst r) = map (\<lambda>c. tunnel_label c @ ''.'' @ zone) chunks) (tunnel_loop R src dns zone chunks t)"
proof (induction chunks arbitrary: t)
  case Nil
  show ?case by (simp add: pred_return)
next
  case (Cons c cs)
  show ?case
    unfolding tunnel_loop.simps Let_def
    by (rule pred_bind_any, rule pred_bind_any, rule pred_bind [OF Cons.IH])
       (auto intro!: pred_return simp: query_name_def dns_query_pkt_def)
qed

lemma exfil_run_ignores_a: "dns_exfil_run dns_exfil_init (map dns_view ps) = dns_exfil_init"
  by (induction ps) (simp_all add: dns_exfil_run_def dns_exfil_update_def dns_view_def dns_exfil_query_def txt_or_cname_def)

text \<open>
  C24. The simulated DNS tunnel carries its whole payload past the exfiltration features: the first
  labels of its query names, each short enough for a DNS label, decode in order to the payload,
  while the features of the DNS exfiltration detector stay at zero, because the queries are of
  type A and only TXT and CNAME queries are counted.
\<close>

theorem dns_tunnel_unseen:
  "let pkts = fst (fst (run_state (generate_dns_tunnel R now start src dns zone) s))
   in concat (map (\<lambda>p. b32_decode (first_label (query_name p))) pkts) = encode exfil_payload
      \<and> (\<forall>p\<in>set pkts. length (first_label (query_name p)) \<le> 63)
      \<and> dns_exfil_extract (dns_exfil_run dns_exfil_init (map dns_view pkts))
          = [(''txt_cname_rate'', 0), (''txt_cname_avg_len'', 0), (''txt_cname_avg_entropy'', 0)]"
proof -
  define cs where "cs = chunks_of 30 exfil_payload"
  obtain pkts ls s' where r: "run_state (tunnel_loop R src dns zone cs start) s = ((pkts, ls), s')" by (metis surj_pair)
  have p: "fst (fst (run_state (generate_dns_tunnel R now start src dns zone) s)) = pkts"
    by (simp add: generate_dns_tunnel_def with_labels_def r flip: cs_def)
  have q: "map query_name pkts = map (\<lambda>c. tunnel_label c @ ''.'' @ zone) cs"
    using pred_stateD [OF tunnel_loop_queries r] by simp
  then have l: "map (\<lambda>p. first_label (query_name p)) pkts = map tunnel_label cs"
    by (metis (no_types, lifting) first_label_tunnel map_map comp_def map_eq_conv)
  then have "map (\<lambda>p. b32_decode (first_label (query_name p))) pkts = map encode cs"
    by (metis (no_types, lifting) b32_decode_label map_map comp_def map_eq_conv)
  moreover have "concat (map encode cs) = encode exfil_payload"
    using chunks_of_concat [of 30 exfil_payload] by (metis cs_def encode_def map_concat map_eq_conv zero_less_numeral)
  moreover have "length (first_label (query_name p)) \<le> 63" if "p \<in> set pkts" for p
  proof -
    have "first_label (query_name p) \<in> set (map tunnel_label cs)" using that unfolding l [symmetric] by simp
    then obtain c where "c \<in> set cs" "first_label (query_name p) = tunnel_label c" by auto
    moreover from this have "length c \<le> 30" using chunks_of_length [of 30] by (simp add: cs_def)
    ultimately show ?thesis using length_tunnel_label [of c] by simp
  qed
  ultimately show ?thesis
    by (simp add: p exfil_run_ignores_a) (simp add: dns_exfil_extract_def dns_exfil_init_def)
qed

theorem dns_tunnel_unseen_witness:
  "let pkts = fst (fst (run_state (generate_dns_tunnel lcg 0 1 ''192.168.1.50'' ''8.8.8.8'' ''evil.com'') 7))
   in concat (map (\<lambda>p. b32_decode (first_label (query_name p))) pkts) = encode exfil_payload
      \<and> list_all (\<lambda>p. length (first_label (query_name p)) \<le> 63) pkts
      \<and> dns_exfil_extract (dns_exfil_run dns_exfil_init (map dns_view pkts))
          = [(''txt_cname_rate'', 0), (''txt_cname_avg_len'', 0), (''txt_cname_avg_entropy'', 0)]"
  unfolding Let_def list_all_iff
  by (rule dns_tunnel_unseen [of lcg 0 1 "''192.168.1.50''" "''8.8.8.8''" "''evil.com''" 7, unfolded Let_def])

section \<open>The SYN flood\<close>

text \<open>
  What the packet parser makes of a TCP packet without data, and how a record read from the
  capture relates to the packet written: its time in whole microseconds, and bytes that parse to
  the layers scapy wrote.
\<close>

definition tcp_meta :: "cap_pkt \<Rightarrow> packet_meta" where
  "tcp_meta p = (case cp_l4 p of TCP sp dp fl \<Rightarrow>
     \<lparr>src_ip = cp_src p, dst_ip = cp_dst p, ip_len = Some 40, protocol = Some ''TCP'', src_port = sp, dst_port = dp,
      tcp_flags = Some (int fl), orig_pkts = None, payload = []\<rparr>)"

definition micros :: "real \<Rightarrow> real" where
  "micros t = of_int \<lfloor>t * 1000000\<rfloor> / 1000000"

definition reads_as :: "pipe_env \<Rightarrow> cap_pkt \<Rightarrow> real \<times> bytes \<Rightarrow> bool" where
  "reads_as env p r \<longleftrightarrow> fst r = micros (cp_time p) \<and> parse_packet (pe_link env) (snd r) = Inr (Some (tcp_meta p))"

definition flood_pkt :: "string \<Rightarrow> int \<Rightarrow> real \<Rightarrow> nat \<Rightarrow> cap_pkt \<Rightarrow> bool" where
  "flood_pkt target port start i p \<longleftrightarrow> (\<exists>src sp. 1024 \<le> sp \<and> p = syn_pkt src target sp port (start + real i * (1 / 1000)))"

lemma syn_flood_capture:
  assumes "rng_ok R"
  shows "pred_state (\<lambda>out. list_all2 (flood_pkt target port start) [0..<nat n] (fst out))
    (generate_syn_flood R now start target port n)"
proof -
  let ?body = "\<lambda>i. do { src \<leftarrow> spoof10 R; sp \<leftarrow> py_randint R 1024 65535;
      State_Monad.return (syn_probe src target sp port (start + real i * (1 / 1000))) }"
  have "pred_state (\<lambda>r. flood_pkt target port start i (fst r)) (?body i)" for i
    by (rule pred_bind_any, rule pred_map_mono [OF randint_range [OF assms]]) (auto simp: flood_pkt_def syn_probe_def)
  then have "pred_state (\<lambda>r. \<exists>rs. list_all2 (\<lambda>i r. flood_pkt target port start i (fst r)) [0..<nat n] rs
      \<and> r = (map fst rs, List.map_filter snd rs)) (gen_each ?body [0..<nat n])"
    by (rule pred_gen_each)
  then show ?thesis
    unfolding generate_syn_flood_def with_labels_def
    by (rule pred_bind) (auto intro!: pred_return simp: list_all2_map2 comp_def)
qed

lemma reads_known:
  assumes "reads_as env p r" and "cp_l4 p = TCP sp dp fl"
  shows "known_transport env (snd r)"
proof -
  have "parse_packet (pe_link env) (snd r) = Inr (Some (tcp_meta p))" using assms(1) by (simp add: reads_as_def)
  then show ?thesis
    by (auto simp: known_transport_def tcp_meta_def assms(2) parse_packet_def base_meta_def split: option.splits sum.splits)
qed

lemma flood_parse:
  assumes "flood_pkt target port start i p" and "reads_as env p r" and "port \<noteq> 443"
  shows "parse_packet (pe_link env) (snd r) = Inr (Some (tcp_meta p))" "parse_app env (tcp_meta p) = Inr (None, None)"
    "known_transport env (snd r)" "fst r = micros (start + real i * (1 / 1000))" "protocol (tcp_meta p) \<noteq> None"
proof -
  obtain src sp where p: "1024 \<le> sp" "p = syn_pkt src target sp port (start + real i * (1 / 1000))"
    using assms(1) unfolding flood_pkt_def by blast
  show "parse_packet (pe_link env) (snd r) = Inr (Some (tcp_meta p))" "fst r = micros (start + real i * (1 / 1000))"
    using assms(2) by (simp_all add: reads_as_def p syn_pkt_def)
  show "known_transport env (snd r)" by (rule reads_known [OF assms(2)]) (simp add: p syn_pkt_def)
  show "parse_app env (tcp_meta p) = Inr (None, None)" "protocol (tcp_meta p) \<noteq> None"
    using p assms(3) by (simp_all add: parse_app_def tcp_meta_def syn_pkt_def)
qed

lemma flood_flags:
  assumes "list_all2 (flood_pkt target port start) is ps" and "p \<in> set ps"
  shows "is_tcp_flag 2 (tcp_meta p) \<and> \<not> is_tcp_flag 18 (tcp_meta p)"
proof -
  obtain i where "flood_pkt target port start i p" using assms by (auto simp: list_all2_conv_all_nth in_set_conv_nth)
  then show ?thesis by (auto simp: flood_pkt_def is_tcp_flag_def tcp_meta_def syn_pkt_def)
qed

lemma flood_parsed:
  assumes "list_all2 (flood_pkt target port start) is ps" and "list_all2 (reads_as env) ps rs" and "port \<noteq> 443"
  shows "parsed_all env rs = map (\<lambda>(i, p). (tcp_meta p, micros (start + real i * (1 / 1000)), None, None)) (zip is ps)"
    and "\<forall>r\<in>set rs. known_transport env (snd r)"
proof -
  have "list_all2 (flood_pkt target port start) is ps \<Longrightarrow> list_all2 (reads_as env) ps rs \<Longrightarrow>
      parsed_all env rs = map (\<lambda>(i, p). (tcp_meta p, micros (start + real i * (1 / 1000)), None, None)) (zip is ps)
      \<and> (\<forall>r\<in>set rs. known_transport env (snd r))"
  proof (induction "is" ps arbitrary: rs rule: list_all2_induct)
    case Nil
    then show ?case by simp
  next
    case (Cons i "is" p ps)
    from Cons.prems obtain r rs' where rs: "rs = r # rs'" "reads_as env p r" "list_all2 (reads_as env) ps rs'"
      by (auto simp: list_all2_Cons1)
    note f = flood_parse [OF Cons.hyps(1) rs(2) assms(3)]
    have "parsed_of env r = [(tcp_meta p, micros (start + real i * (1 / 1000)), None, None)]"
      by (simp add: parsed_of_def f(1,2,4))
    with Cons.IH [OF rs(3)] f(3) show ?case by (simp add: rs(1))
  qed
  with assms(1,2) show "parsed_all env rs = map (\<lambda>(i, p). (tcp_meta p, micros (start + real i * (1 / 1000)), None, None)) (zip is ps)"
    "\<forall>r\<in>set rs. known_transport env (snd r)" by blast+
qed

lemma micros_mono: "s \<le> t \<Longrightarrow> micros s \<le> micros t"
  by (simp add: micros_def divide_right_mono floor_mono)

lemma micros_close: "t - 1 / 1000000 < micros t" "micros t \<le> t"
proof -
  have "of_int \<lfloor>t * 1000000\<rfloor> \<le> t * 1000000" "t * 1000000 - 1 < of_int \<lfloor>t * 1000000\<rfloor>" by linarith+
  then show "t - 1 / 1000000 < micros t" "micros t \<le> t" by (simp_all add: micros_def field_simps)
qed

lemma flood_window:
  assumes "1 \<le> start" and "0 < k" and "k \<le> 99" and "length ps = k"
  shows "first_window (1 / 10) (map (\<lambda>(i, p). (tcp_meta p, micros (start + real i * (1 / 1000)), None, None)) (zip [0..<k] ps))"
proof -
  let ?t = "\<lambda>i. micros (start + real i * (1 / 1000))"
  have times: "packet_times (map (\<lambda>(i, p). (tcp_meta p, ?t i, None, None)) (zip [0..<k] ps)) = map ?t [0..<k]"
  proof -
    have "packet_times (map (\<lambda>(i, p). (tcp_meta p, ?t i, None, None)) (zip [0..<k] ps)) = map ?t (map fst (zip [0..<k] ps))"
      by (simp add: packet_times_def case_prod_beta)
    then show ?thesis using assms(4) by simp
  qed
  have "sorted (map ?t [0..<k])"
    by (simp add: sorted_iff_nth_mono micros_mono)
  moreover have "hd (map ?t [0..<k]) = ?t 0" "last (map ?t [0..<k]) = ?t (k - 1)"
    using assms(2) by (simp_all add: hd_map last_map hd_upt)
  moreover have "?t (k - 1) - ?t 0 < 1 / 10"
  proof -
    have "real (k - 1) \<le> 98" using assms(3) by linarith
    then show ?thesis using micros_close(2) [of "start + real (k - 1) * (1 / 1000)"] micros_close(1) [of "start + real 0 * (1 / 1000)"] by simp
  qed
  moreover have "0 < ?t 0" using micros_close(1) [of start] assms(1) by simp
  ultimately show ?thesis
    unfolding first_window_def times using assms(2,4) by auto
qed

lemma flood_counts:
  assumes "list_all2 (flood_pkt target port start) is pkts"
  shows "count_of (is_tcp_flag 2) (map tcp_meta pkts) = int (length pkts)" "count_of (is_tcp_flag 18) (map tcp_meta pkts) = 0"
proof -
  have "is_tcp_flag 2 (tcp_meta q)" "\<not> is_tcp_flag 18 (tcp_meta q)" if "q \<in> set pkts" for q
    using flood_flags [OF assms that] by simp_all
  then show "count_of (is_tcp_flag 2) (map tcp_meta pkts) = int (length pkts)" "count_of (is_tcp_flag 18) (map tcp_meta pkts) = 0"
    by (simp_all add: count_of_def filter_map comp_def filter_id_conv filter_False)
qed

lemma flood_metas:
  assumes "length pkts = k"
  shows "metas (map (\<lambda>(i, p). (tcp_meta p, time i, None, None)) (zip [0..<k] pkts)) = map tcp_meta pkts"
proof -
  have "metas (map (\<lambda>(i, p). (tcp_meta p, time i, None, None)) (zip [0..<k] pkts)) = map tcp_meta (map snd (zip [0..<k] pkts))"
    by (simp add: metas_def case_prod_beta)
  also have "map snd (zip [0..<k] pkts) = pkts" by (rule map_snd_zip) (simp only: assms length_upt diff_zero)
  finally show ?thesis .
qed


text \<open>A generator whose every draw is its least value: all packets of a flood share one source.\<close>

definition least_rng :: "unit rng" where
  "least_rng = \<lparr>rg_seed = (\<lambda>_. State_Monad.return ()), rg_below = (\<lambda>_. State_Monad.return 0), rg_random = State_Monad.return 0,
     rg_gauss = (\<lambda>m d. State_Monad.return m), rg_urandom = (\<lambda>n. State_Monad.return (replicate n 0))\<rparr>"

lemma least_rng_ok: "rng_ok least_rng"
  by (auto simp: rng_ok_def least_rng_def intro!: pred_return)

lemma traverse_pure: "(\<And>x. f x = State_Monad.return (g x)) \<Longrightarrow> traverse_list f xs = State_Monad.return (map g xs)"
  by (induction xs) simp_all

lemma least_flood:
  "fst (fst (run_state (generate_syn_flood least_rng now start target port n) s))
     = map (\<lambda>i. syn_pkt ''10.0.0.1'' target 1024 port (start + real i * (1 / 1000))) [0..<nat n]"
proof -
  have "int_str 0 = ''0''" "int_str 1 = ''1''" by (simp_all add: int_str_def nat_str.simps digit_char_def)
  then have "do { src \<leftarrow> spoof10 least_rng; sp \<leftarrow> py_randint least_rng 1024 65535;
        State_Monad.return (syn_probe src target sp port (start + real i * (1 / 1000))) }
      = State_Monad.return (syn_probe ''10.0.0.1'' target 1024 port (start + real i * (1 / 1000)))" for i
    by (simp add: spoof10_def py_randint_def least_rng_def)
  then have "traverse_list (\<lambda>i. do { src \<leftarrow> spoof10 least_rng; sp \<leftarrow> py_randint least_rng 1024 65535;
        State_Monad.return (syn_probe src target sp port (start + real i * (1 / 1000))) }) [0..<nat n]
      = State_Monad.return (map (\<lambda>i. syn_probe ''10.0.0.1'' target 1024 port (start + real i * (1 / 1000))) [0..<nat n])"
    by (rule traverse_pure)
  then show ?thesis
    by (simp only: generate_syn_flood_def with_labels_def gen_each_def) (simp add: syn_probe_def comp_def)
qed


end
