(* ===== verification/Supervisor.thy ===== *)
theory Supervisor
  imports CaptureGen
begin

text \<open>
  The launcher \<^verbatim>\<open>start_all.py\<close>: which assets it finds missing, what it generates and trains before
  the dashboard starts, how it frees the port, how it waits for the server, and the supervisor that
  tears the process tree down once. What the operating system, \<^verbatim>\<open>psutil\<close> and the child processes
  answer is an argument; what the launcher does is the list of its actions.
\<close>

section \<open>Assets\<close>

definition REQUIRED_DATASETS :: "string list" where
  "REQUIRED_DATASETS = [''benign.pcap'', ''c2_beacon.pcap'', ''dns_tunnel.pcap'', ''port_scan_horizontal.pcap'',
     ''syn_flood.pcap'', ''udp_amplification.pcap'']"

definition REQUIRED_MODELS :: "string list" where
  "REQUIRED_MODELS = [''ddos_lgbm.pkl'', ''beaconing_ocsvm.pkl'', ''dga_gbt.pkl'', ''dga_lstm.pt'', ''encrypted_rf.pkl'',
     ''exfil_iso.pkl'', ''recon_iso.pkl'']"

text \<open>\<open>data\<close> and \<open>results\<close> tell which files exist in the two directories.\<close>

definition check_existing_assets :: "(string \<Rightarrow> bool) \<Rightarrow> (string \<Rightarrow> bool) \<Rightarrow> string list \<times> string list" where
  "check_existing_assets data results =
     (filter (\<lambda>f. \<not> data f) REQUIRED_DATASETS, filter (\<lambda>m. \<not> results m) REQUIRED_MODELS)"

section \<open>Processes and ports\<close>

datatype action =
    RunScript string
  | Terminate int
  | Kill int
  | TaskKill int
  | StartServer "string list"
  | OpenBrowser string

text \<open>The answer of \<^verbatim>\<open>terminate\<close> or \<^verbatim>\<open>kill\<close>: sent, no such process, or another error.\<close>

datatype signal_result = Sent | NoSuchProcess | Denied

text \<open>
  What \<^verbatim>\<open>psutil\<close> sees of a process tree: the descendants of \<open>pid\<close>, \<open>None\<close> when looking the process up
  raises, the answers to the two signals and the processes alive after the grace period.
\<close>

record tree_view =
  tv_children :: "int list option"
  tv_terminate :: "int \<Rightarrow> signal_result"
  tv_alive :: "int list"
  tv_kill :: "int \<Rightarrow> signal_result"
  tv_windows :: bool

text \<open>Signals sent in order; the flag is false when one is denied, which ends the loop.\<close>

fun signal_each :: "(int \<Rightarrow> signal_result) \<Rightarrow> (int \<Rightarrow> action) \<Rightarrow> int list \<Rightarrow> action list \<times> bool" where
  "signal_each answer act [] = ([], True)"
| "signal_each answer act (p # ps) =
     (case answer p of
        Denied \<Rightarrow> ([], False)
      | Sent \<Rightarrow> (let (as, ok) = signal_each answer act ps in (act p # as, ok))
      | NoSuchProcess \<Rightarrow> signal_each answer act ps)"

definition kill_process_tree :: "tree_view \<Rightarrow> int \<Rightarrow> action list" where
  "kill_process_tree v pid =
     (let fallback = (if tv_windows v then [TaskKill pid] else [])
      in case tv_children v of None \<Rightarrow> fallback
         | Some children \<Rightarrow>
             (let (as, ok) = signal_each (tv_terminate v) Terminate (children @ [pid])
              in if \<not> ok then as @ fallback
                 else (let (bs, ok) = signal_each (tv_kill v) Kill (tv_alive v)
                       in as @ bs @ (if ok then [] else fallback))))"

text \<open>
  A probe of the port: the result of \<^verbatim>\<open>connect_ex\<close> and the connections \<^verbatim>\<open>psutil\<close> lists, each \<open>None\<close>
  when it raises. A connection has a local port, if it has a local address, whether it is
  listening, and its process, which \<^verbatim>\<open>psutil\<close> does not always know.
\<close>

record connection =
  cn_port :: "int option"
  cn_listen :: bool
  cn_pid :: "int option"

record probe =
  pb_connect :: "int option"
  pb_connections :: "connection list option"

definition check_port_in_use :: "probe \<Rightarrow> int \<Rightarrow> int option" where
  "check_port_in_use pb port =
     (if pb_connect pb \<noteq> Some 0 then None
      else (case pb_connections pb of None \<Rightarrow> Some (- 1)
            | Some cs \<Rightarrow> (case List.find (\<lambda>c. cn_port c = Some port \<and> cn_listen c) cs of
                            Some c \<Rightarrow> cn_pid c | None \<Rightarrow> Some (- 1))))"

text \<open>\<open>before\<close> and \<open>after\<close> are the probes of the two checks.\<close>

definition ensure_port_available :: "probe \<Rightarrow> probe \<Rightarrow> (int \<Rightarrow> tree_view) \<Rightarrow> int \<Rightarrow> bool \<times> action list" where
  "ensure_port_available before after view port =
     (case check_port_in_use before port of None \<Rightarrow> (True, [])
      | Some pid \<Rightarrow>
          if pid \<noteq> 0 \<and> pid \<noteq> - 1 then (check_port_in_use after port = None, kill_process_tree (view pid) pid)
          else (False, []))"

section \<open>The supervisor\<close>

record supervisor =
  sv_pid :: int
  sv_terminated :: bool

definition supervisor_init :: "int \<Rightarrow> supervisor" where
  "supervisor_init pid = \<lparr>sv_pid = pid, sv_terminated = False\<rparr>"

text \<open>\<open>running\<close> is whether polling the child finds it running.\<close>

definition shutdown :: "bool \<Rightarrow> tree_view \<Rightarrow> supervisor \<Rightarrow> supervisor \<times> action list" where
  "shutdown running view s =
     (if sv_terminated s then (s, [])
      else (s\<lparr>sv_terminated := True\<rparr>, if running then kill_process_tree view (sv_pid s) else []))"

text \<open>
  What can happen to the watchdog between two of its checks: time passes, the server exits, a
  signal arrives while it is running or not. The result is the exit code of the launcher and its actions; \<open>None\<close> while it is
  still watching. The handler and the exit of the interpreter both run the teardown.
\<close>

datatype watch_event = Tick | ServerExit int | StopSignal bool

fun monitor :: "tree_view \<Rightarrow> supervisor \<Rightarrow> watch_event list \<Rightarrow> (int \<times> action list) option" where
  "monitor view s [] = None"
| "monitor view s (Tick # es) = monitor view s es"
| "monitor view s (ServerExit code # es) = (let (s, as) = shutdown False view s in Some (0, as))"
| "monitor view s (StopSignal running # es) =
     (let (s, as) = shutdown running view s; (s, bs) = shutdown running view s in Some (0, as @ bs))"

text \<open>
  The polls of the health check: the time on the clock before each and what the request does. An
  answer other than 200 that raises no error is asked again at once; \<open>None\<close> when the polls listed
  do not reach the end of the loop.
\<close>

datatype poll = Answer int | ConnectionFails

fun wait_for_server :: "real \<Rightarrow> real \<Rightarrow> (real \<times> poll) list \<Rightarrow> bool option" where
  "wait_for_server start timeout [] = None"
| "wait_for_server start timeout ((now, p) # ps) =
     (if now - start < timeout
      then (if p = Answer 200 then Some True else wait_for_server start timeout ps)
      else Some False)"

section \<open>The launch\<close>

record launch_args =
  la_retrain :: bool
  la_port :: int
  la_no_browser :: bool
  la_reload :: bool

definition train_scripts :: "string list" where
  "train_scripts = [''dataset_generator.py'', ''ddos_train.py'', ''beaconing_train.py'', ''dga_train.py'', ''encrypted_train.py'',
     ''exfil_train.py'', ''recon_train.py'']"

text \<open>Scripts run in order; the flag is false once one fails, which exits the launcher with 1.\<close>

fun run_in_order :: "(string \<Rightarrow> int) \<Rightarrow> string list \<Rightarrow> action list \<times> bool" where
  "run_in_order code [] = ([], True)"
| "run_in_order code (s # ss) =
     (if code s \<noteq> 0 then ([RunScript s], False)
      else (let (as, ok) = run_in_order code ss in (RunScript s # as, ok)))"

definition api_cmd :: "string \<Rightarrow> launch_args \<Rightarrow> string list" where
  "api_cmd root_dir a =
     [''-m'', ''uvicorn'', ''dashboard.api.server:app'', ''--port'', int_str (la_port a)]
     @ (if la_reload a then [''--reload'', ''--reload-dir'', root_dir @ ''/dashboard''] else [])"

text \<open>What the world answers during a launch; \<open>le_code\<close> is the exit code of a script.\<close>

record launch_env =
  le_data :: "string \<Rightarrow> bool"
  le_results :: "string \<Rightarrow> bool"
  le_code :: "string \<Rightarrow> int"
  le_before :: probe
  le_after :: probe
  le_view :: "int \<Rightarrow> tree_view"
  le_pid :: int
  le_events :: "watch_event list"

definition prepare :: "launch_env \<Rightarrow> launch_args \<Rightarrow> action list \<times> bool" where
  "prepare e a =
     (let (missing_data, missing_models) = check_existing_assets (le_data e) (le_results e);
          needs_generation = (la_retrain a \<or> missing_data \<noteq> []);
          needs_training = (la_retrain a \<or> missing_models \<noteq> [])
      in run_in_order (le_code e)
           ((if needs_generation then [''run_all.py''] else []) @ (if needs_training then train_scripts else [])))"

definition main :: "string \<Rightarrow> launch_env \<Rightarrow> launch_args \<Rightarrow> (int \<times> action list) option" where
  "main root_dir e a =
     (let (as, ok) = prepare e a
      in if \<not> ok then Some (1, as)
         else (let (free, ks) = ensure_port_available (le_before e) (le_after e) (le_view e) (la_port a);
                   url = ''http://127.0.0.1:'' @ int_str (la_port a);
                   ls = as @ ks @ [StartServer (api_cmd root_dir a)] @ (if la_no_browser a then [] else [OpenBrowser url])
               in map_option (\<lambda>(code, ms). (code, ls @ ms))
                    (monitor (le_view e (le_pid e)) (supervisor_init (le_pid e)) (le_events e))))"

section \<open>Teardown\<close>

lemma signal_each_sent:
  assumes "\<And>p. p \<in> set ps \<Longrightarrow> answer p \<noteq> Denied"
  shows "signal_each answer act ps = (map act (filter (\<lambda>p. answer p = Sent) ps), True)"
  using assms
proof (induction ps)
  case (Cons p ps)
  then show ?case by (cases "answer p") auto
qed simp

definition never_denied :: "tree_view \<Rightarrow> int \<Rightarrow> int list \<Rightarrow> bool" where
  "never_denied v pid cs \<longleftrightarrow> tv_children v = Some cs \<and> (\<forall>p\<in>set cs \<union> {pid}. tv_terminate v p \<noteq> Denied)
     \<and> (\<forall>p\<in>set (tv_alive v). tv_kill v p \<noteq> Denied)"

lemma kill_tree_complete:
  assumes "never_denied v pid cs"
  shows "kill_process_tree v pid = map Terminate (filter (\<lambda>p. tv_terminate v p = Sent) (cs @ [pid]))
    @ map Kill (filter (\<lambda>p. tv_kill v p = Sent) (tv_alive v))"
proof -
  have "signal_each (tv_terminate v) Terminate (cs @ [pid]) = (map Terminate (filter (\<lambda>p. tv_terminate v p = Sent) (cs @ [pid])), True)"
    using assms by (intro signal_each_sent) (auto simp: never_denied_def)
  moreover have "signal_each (tv_kill v) Kill (tv_alive v) = (map Kill (filter (\<lambda>p. tv_kill v p = Sent) (tv_alive v)), True)"
    using assms by (intro signal_each_sent) (auto simp: never_denied_def)
  ultimately show ?thesis using assms by (simp add: kill_process_tree_def never_denied_def)
qed

lemma monitor_ticks [simp]: "monitor view s (replicate n Tick @ es) = monitor view s es"
  by (induction n) simp_all



text \<open>A denied signal to the first descendant leaves the whole tree running on POSIX systems.\<close>

lemma denied_signal_leaves_tree:
  assumes "tv_children v = Some (c # cs)" and "tv_terminate v c = Denied" and "\<not> tv_windows v"
  shows "kill_process_tree v pid = []"
  using assms by (simp add: kill_process_tree_def)

text \<open>A dashboard that crashes ends the launcher with the exit code of success.\<close>

lemma crash_exits_zero: "monitor view s (ServerExit code # es) = Some (0, [])"
  by (simp add: shutdown_def)

section \<open>Ports\<close>

text \<open>
  A listener whose process is hidden is taken for a free port: when something accepts
  connections on the port and the first listening entry for it carries no process id, which
  \<^verbatim>\<open>psutil\<close> reports for processes of other users, the port is reported available, nothing is
  stopped, and the launcher starts the server on the occupied port.
\<close>

theorem hidden_listener_taken_for_free:
  assumes "pb_connect pb = Some 0" and "pb_connections pb = Some cs"
    and "List.find (\<lambda>c. cn_port c = Some port \<and> cn_listen c) cs = Some c" and "cn_pid c = None"
  shows "ensure_port_available pb after view port = (True, [])"
  using assms by (simp add: ensure_port_available_def check_port_in_use_def)

theorem hidden_listener_taken_for_free_witness:
  "ensure_port_available \<lparr>pb_connect = Some 0, pb_connections = Some [\<lparr>cn_port = Some 8000, cn_listen = True, cn_pid = None\<rparr>]\<rparr>
     \<lparr>pb_connect = Some 0, pb_connections = None\<rparr> (\<lambda>_. undefined) 8000 = (True, [])"
  by (rule hidden_listener_taken_for_free
      [of _ "[\<lparr>cn_port = Some 8000, cn_listen = True, cn_pid = None\<rparr>]" 8000 "\<lparr>cn_port = Some 8000, cn_listen = True, cn_pid = None\<rparr>"]) simp_all

section \<open>The launch decision\<close>

lemma run_in_order_ok: "snd (run_in_order code ss) \<longleftrightarrow> (\<forall>s\<in>set ss. code s = 0)"
  by (induction ss) (auto simp: case_prod_beta)

lemma run_in_order_prefix:
  "fst (run_in_order code ss) = map RunScript (take (Suc (length (takeWhile (\<lambda>s. code s = 0) ss))) ss)"
  by (induction ss) (auto simp: case_prod_beta)

definition launch_scripts :: "launch_env \<Rightarrow> launch_args \<Rightarrow> string list" where
  "launch_scripts e a =
     (if la_retrain a \<or> (\<exists>f\<in>set REQUIRED_DATASETS. \<not> le_data e f) then [''run_all.py''] else [])
     @ (if la_retrain a \<or> (\<exists>m\<in>set REQUIRED_MODELS. \<not> le_results e m) then train_scripts else [])"

lemma prepare_scripts: "prepare e a = run_in_order (le_code e) (launch_scripts e a)"
  by (simp add: prepare_def check_existing_assets_def launch_scripts_def filter_empty_conv)

lemma no_server_before:
  "StartServer cmd \<notin> set (fst (run_in_order code ss))" "StartServer cmd \<notin> set (kill_process_tree v pid)"
  "StartServer cmd \<notin> set (snd (ensure_port_available b f w port))"
proof -
  show "StartServer cmd \<notin> set (fst (run_in_order code ss))" by (auto simp: run_in_order_prefix)
  have s: "StartServer cmd \<notin> set (fst (signal_each answer act ps))" if "\<And>p. act p \<noteq> StartServer cmd" for answer act ps
    by (induction ps) (auto simp: case_prod_beta that that [symmetric] split: signal_result.splits)
  show k: "StartServer cmd \<notin> set (kill_process_tree v pid)" for v pid
    using s [of Terminate] s [of Kill] by (auto simp: kill_process_tree_def case_prod_beta Let_def split: option.splits)
  show "StartServer cmd \<notin> set (snd (ensure_port_available b f w port))"
    using k by (auto simp: ensure_port_available_def split: option.splits)
qed

lemma no_server_in_monitor: "monitor v s es = Some (c, as) \<Longrightarrow> c = 0 \<and> StartServer cmd \<notin> set as"
  by (induction v s es rule: monitor.induct) (auto simp: shutdown_def no_server_before Let_def split: if_splits)

text \<open>
  C21. The dashboard starts only on prepared assets: a launch that ends runs the data generation when
  a data set is missing, then the training scripts when a model is missing, both when retraining
  is asked for and neither when nothing is missing; it stops at the first script that fails with
  exit code 1 and no server, and otherwise starts the server exactly once, after all of them.
\<close>

theorem launch_runs_what_is_missing:
  assumes "main root_dir e a = Some (code, as)"
  defines "ss \<equiv> launch_scripts e a"
  shows "if \<forall>s\<in>set ss. le_code e s = 0
    then code = 0 \<and> (\<exists>ks ms. as = map RunScript ss @ ks @ [StartServer (api_cmd root_dir a)] @ ms
           \<and> (\<forall>cmd. StartServer cmd \<notin> set (ks @ ms)))
    else code = 1 \<and> as = map RunScript (take (Suc (length (takeWhile (\<lambda>s. le_code e s = 0) ss))) ss)
           \<and> (\<forall>cmd. StartServer cmd \<notin> set as)"
proof (cases "\<forall>s\<in>set ss. le_code e s = 0")
  case True
  then have "fst (prepare e a) = map RunScript ss" "snd (prepare e a)"
    unfolding prepare_scripts run_in_order_prefix run_in_order_ok ss_def [symmetric] by (simp_all add: takeWhile_eq_all_conv [THEN iffD2])
  then have p: "prepare e a = (map RunScript ss, True)" by (metis prod.collapse)
  obtain free ks where ks: "ensure_port_available (le_before e) (le_after e) (le_view e) (la_port a) = (free, ks)" by fastforce
  obtain c ms where m: "monitor (le_view e (le_pid e)) (supervisor_init (le_pid e)) (le_events e) = Some (c, ms)" "code = c"
    and as: "as = map RunScript ss @ ks @ [StartServer (api_cmd root_dir a)]
      @ (if la_no_browser a then [] else [OpenBrowser (''http://127.0.0.1:'' @ int_str (la_port a))]) @ ms"
    using assms(1) by (auto simp: main_def p ks Let_def)
  have "StartServer cmd \<notin> set ks" for cmd using no_server_before(3) ks by (metis snd_conv)
  moreover have z: "code = 0" "StartServer cmd \<notin> set ms" for cmd using no_server_in_monitor [OF m(1)] m(2) by simp_all
  moreover define bs where "bs = (if la_no_browser a then [] else [OpenBrowser (''http://127.0.0.1:'' @ int_str (la_port a))]) @ ms"
  ultimately have "as = map RunScript ss @ ks @ [StartServer (api_cmd root_dir a)] @ bs \<and> (\<forall>cmd. StartServer cmd \<notin> set (ks @ bs))"
    using as by simp
  with z(1) show ?thesis unfolding if_P [OF True] by blast
next
  case False
  then have "\<not> snd (prepare e a)" by (simp add: prepare_scripts run_in_order_ok ss_def)
  with assms(1) have m: "code = 1" "as = fst (prepare e a)" by (simp_all add: main_def case_prod_beta)
  have "fst (prepare e a) = map RunScript (take (Suc (length (takeWhile (\<lambda>s. le_code e s = 0) ss))) ss)"
    by (simp add: prepare_scripts run_in_order_prefix ss_def)
  moreover have "StartServer cmd \<notin> set (fst (prepare e a))" for cmd
    unfolding prepare_scripts by (rule no_server_before)
  ultimately show ?thesis unfolding if_not_P [OF False] m by blast
qed

definition sample_launch :: "string \<Rightarrow> launch_env" where
  "sample_launch failing = \<lparr>le_data = (\<lambda>_. True), le_results = (\<lambda>m. m \<noteq> ''dga_lstm.pt''), le_code = (\<lambda>s. if s = failing then 1 else 0),
     le_before = \<lparr>pb_connect = Some 111, pb_connections = None\<rparr>, le_after = \<lparr>pb_connect = Some 111, pb_connections = None\<rparr>,
     le_view = (\<lambda>_. \<lparr>tv_children = Some [], tv_terminate = (\<lambda>_. Sent), tv_alive = [], tv_kill = (\<lambda>_. Sent), tv_windows = False\<rparr>),
     le_pid = 42, le_events = [Tick, ServerExit 0]\<rparr>"

definition sample_flags :: launch_args where
  "sample_flags = \<lparr>la_retrain = False, la_port = 8000, la_no_browser = True, la_reload = False\<rparr>"

theorem launch_runs_what_is_missing_witness:
  "\<exists>as. main ''/srv'' (sample_launch ''ddos_train.py'') sample_flags = Some (1, as)
     \<and> as = [RunScript ''dataset_generator.py'', RunScript ''ddos_train.py'']"
proof -
  have ss: "launch_scripts (sample_launch ''ddos_train.py'') sample_flags = train_scripts"
    by (simp add: launch_scripts_def sample_launch_def sample_flags_def REQUIRED_DATASETS_def REQUIRED_MODELS_def)
  have "\<not> snd (prepare (sample_launch ''ddos_train.py'') sample_flags)"
    unfolding prepare_scripts ss run_in_order_ok by (simp add: sample_launch_def train_scripts_def)
  then obtain as where m: "main ''/srv'' (sample_launch ''ddos_train.py'') sample_flags = Some (1, as)"
    by (auto simp: main_def case_prod_beta)
  from launch_runs_what_is_missing [OF m, unfolded ss] m show ?thesis
    by (simp add: sample_launch_def train_scripts_def)
qed

section \<open>Generated data sets\<close>

text \<open>The scripts of \<^verbatim>\<open>run_all.py\<close> one after the other, on one data directory.\<close>

fun run_mains :: "bool \<Rightarrow> 's rng \<Rightarrow> real \<Rightarrow> real \<Rightarrow> string list \<Rightarrow> data_dir \<Rightarrow> ('s, data_dir) state" where
  "run_mains scapy R now start [] dir = State_Monad.return dir"
| "run_mains scapy R now start (s # ss) dir = do { dir \<leftarrow> script_main scapy R now start s dir; run_mains scapy R now start ss dir }"

definition has_files :: "string set \<Rightarrow> data_dir \<Rightarrow> bool" where
  "has_files fs dir \<longleftrightarrow> (\<forall>f\<in>fs. dict_has dir f)"

lemma save_has:
  assumes "has_files fs dir"
  shows "pred_state (has_files (insert name fs)) (save True name m dir)"
  unfolding save_def
  by (intro pred_bind_any pred_return)
     (use assms in \<open>auto simp: has_files_def save_pcap_and_labels_def dict_has_iff map_of_dict_set\<close>)

lemma has_files_mono: "pred_state (has_files fs) m \<Longrightarrow> gs \<subseteq> fs \<Longrightarrow> pred_state (has_files gs) m"
  by (erule pred_mono) (auto simp: has_files_def)

definition script_files :: "string \<Rightarrow> string set" where
  "script_files s = (if s = ''benign_traffic_gen.py'' then {''benign.pcap''} else if s = ''c2_beacon_gen.py'' then {''c2_beacon.pcap''}
     else if s = ''dns_tunnel_gen.py'' then {''dns_tunnel.pcap''} else if s = ''port_scan_gen.py'' then {''port_scan_horizontal.pcap''}
     else if s = ''syn_flood_gen.py'' then {''syn_flood.pcap''} else if s = ''udp_amplification_gen.py'' then {''udp_amplification.pcap''}
     else {})"

lemma script_has:
  assumes "has_files fs dir"
  shows "pred_state (has_files (script_files s \<union> fs)) (script_main True R now start s dir)"
proof -
  note save = save_has [OF assms]
  have port: "pred_state (has_files ({''port_scan_horizontal.pcap''} \<union> fs)) (do {
        src \<leftarrow> py_choice R attack_sources;
        dir \<leftarrow> save True ''port_scan_horizontal.pcap'' (generate_port_scan R now start src ''192.168.1.'' ''horizontal'' 50) dir;
        dir \<leftarrow> save True ''port_scan_vertical.pcap'' (generate_port_scan R now start src ''192.168.1.'' ''vertical'' 50) dir;
        save True ''port_scan_hybrid.pcap'' (generate_port_scan R now start src ''192.168.1.'' ''hybrid'' 50) dir })"
    by (rule pred_bind_any, rule pred_bind [OF save], rule pred_bind [OF save_has], assumption, rule has_files_mono [OF save_has], assumption) auto
  have one: "pred_state (has_files ({name} \<union> fs)) (save True name m dir)" for name m
    by (rule has_files_mono [OF save]) simp
  have two: "pred_state (has_files ({name} \<union> fs)) (do { src \<leftarrow> py_choice R attack_sources; save True name (m src) dir })" for name m
    by (rule pred_bind_any, rule one)
  have none: "pred_state (has_files ({} \<union> fs)) (State_Monad.return dir)" using assms by (simp add: pred_return)
  have branch: "pred_state (has_files (A \<union> fs)) a \<Longrightarrow> pred_state (has_files (B \<union> fs)) b
      \<Longrightarrow> pred_state (has_files ((if c then A else B) \<union> fs)) (if c then a else b)" for A B a b c by simp
  show ?thesis
    unfolding script_main_def script_files_def by (intro branch; (rule one | rule two | rule port | rule none))
qed

lemma run_mains_has:
  "has_files fs dir \<Longrightarrow> pred_state (has_files ((\<Union>s\<in>set ss. script_files s) \<union> fs)) (run_mains True R now start ss dir)"
proof (induction ss arbitrary: dir fs)
  case Nil
  then show ?case by (simp add: pred_return)
next
  case (Cons s ss)
  have "pred_state (has_files ((\<Union>s\<in>set ss. script_files s) \<union> (script_files s \<union> fs))) (run_mains True R now start (s # ss) dir)"
    unfolding run_mains.simps by (rule pred_bind [OF script_has [OF Cons.prems]], rule Cons.IH)
  then show ?case by (rule has_files_mono) auto
qed

lemma no_scapy_no_files: "pred_state (\<lambda>d. d = dir) (script_main False R now start s dir)"
proof -
  have s: "pred_state (\<lambda>d. d = dir) (save False name m dir)" for name m
    unfolding save_def by (intro pred_bind_any pred_return) (simp add: save_pcap_and_labels_def)
  have three: "pred_state (\<lambda>d. d = dir) (do { d \<leftarrow> save False n m dir; d \<leftarrow> save False n' m' d; save False n'' m'' d })" for n n' n'' m m' m''
    by (rule pred_bind [OF s], simp, rule pred_bind [OF s], simp add: s)
  show ?thesis
    unfolding script_main_def
    by (intro pred_if; (rule s | rule pred_return, rule refl | rule pred_bind_any, (rule three | rule s)))
qed

lemma run_mains_no_scapy: "pred_state (\<lambda>d. d = dir) (run_mains False R now start ss dir)"
proof (induction ss)
  case (Cons s ss)
  then show ?case unfolding run_mains.simps by (intro pred_bind [OF no_scapy_no_files]) simp
qed (simp add: pred_return)

text \<open>
  The data generation provides what the launcher checks for: with scapy installed, the scripts
  of \<^verbatim>\<open>run_all.py\<close> leave every required data set, whatever the directory held, so that the next
  launch finds none missing; without scapy they leave the directory as it was.
\<close>

theorem generation_provides_datasets:
  "fst (check_existing_assets (dict_has (fst (run_state (run_mains True R now start scripts_to_run dir) s))) results) = []
   \<and> fst (run_state (run_mains False R now start scripts_to_run dir) s) = dir"
proof -
  have "has_files ((\<Union>s\<in>set scripts_to_run. script_files s) \<union> {}) (fst (run_state (run_mains True R now start scripts_to_run dir) s))"
    by (rule pred_state_run_state [OF run_mains_has]) (simp add: has_files_def)
  moreover have "set REQUIRED_DATASETS \<subseteq> (\<Union>s\<in>set scripts_to_run. script_files s)"
    by (simp add: REQUIRED_DATASETS_def scripts_to_run_def script_files_def)
  ultimately have "fst (check_existing_assets (dict_has (fst (run_state (run_mains True R now start scripts_to_run dir) s))) results) = []"
    by (auto simp: check_existing_assets_def has_files_def filter_empty_conv)
  moreover have "fst (run_state (run_mains False R now start scripts_to_run dir) s) = dir"
    by (rule pred_state_run_state [OF run_mains_no_scapy])
  ultimately show ?thesis by blast
qed

section \<open>The health check\<close>

text \<open>
  With a clock that does not run backwards, the wait succeeds exactly when some answer of 200 comes
  before the deadline, and it ends once the clock has passed the deadline.
\<close>

lemma wait_true_iff:
  assumes "sorted (map fst ps)"
  shows "wait_for_server start timeout ps = Some True \<longleftrightarrow> (\<exists>x\<in>set ps. snd x = Answer 200 \<and> fst x - start < timeout)"
  using assms
proof (induction start timeout ps rule: wait_for_server.induct)
  case (2 start timeout now p ps)
  show ?case
  proof (cases "now - start < timeout")
    case True
    with 2 show ?thesis by simp
  next
    case False
    moreover from 2 have "\<forall>x\<in>set ps. now \<le> fst x" by auto
    ultimately show ?thesis by force
  qed
qed simp

lemma wait_ends: "\<exists>x\<in>set ps. timeout \<le> fst x - start \<Longrightarrow> wait_for_server start timeout ps \<noteq> None"
  by (induction start timeout ps rule: wait_for_server.induct) auto

end
