(* ===== verification/Ingest.thy ===== *)
theory Ingest
  imports Parsers "HOL-Library.Sublist"
begin

text \<open>
  The ingest stage: the bounded pcap reader of \<^verbatim>\<open>ingest/pcap_reader.py\<close>, whose producer thread
  and consumer are the two halves of a step relation over a shared queue, the log reader of
  \<^verbatim>\<open>ingest/zeek_reader.py\<close> and the UDP listener of \<^verbatim>\<open>ingest/flow_export_listener.py\<close>. Rule
  induction over the steps shows that the queue never exceeds its bound, that every packet
  read is delivered, waiting or counted as dropped, and that order is kept.
\<close>

section \<open>The pcap reader\<close>

type_synonym packet = "real \<times> bytes"

datatype phase = Reading | AtEof | Done

text \<open>
  The reader's fields and the producer's local state; \<open>None\<close> in the buffer is the sentinel
  \<^verbatim>\<open>(None, None)\<close>. \<open>consumed\<close> records what \<open>get_packet\<close> has returned so far.
\<close>

record reader =
  max_buffer_size :: nat
  sample_rate :: real
  buffer :: "packet option list"
  stop_event :: bool
  dropped_packets :: nat
  packet_count :: nat
  unread :: "packet list"
  phase :: phase
  consumed :: "packet option list"

definition reader_init :: "nat \<Rightarrow> real \<Rightarrow> packet list \<Rightarrow> reader" where
  "reader_init mx rate pcap =
     \<lparr>max_buffer_size = mx, sample_rate = rate, buffer = [], stop_event = False, dropped_packets = 0,
      packet_count = 0, unread = pcap, phase = Reading, consumed = []\<rparr>"

text \<open>A queue with \<^verbatim>\<open>maxsize\<close> 0 is unbounded.\<close>

definition queue_full :: "reader \<Rightarrow> bool" where
  "queue_full s \<longleftrightarrow> 0 < max_buffer_size s \<and> max_buffer_size s \<le> length (buffer s)"

definition put_or_drop :: "reader \<Rightarrow> packet \<Rightarrow> reader" where
  "put_or_drop s p =
     (if queue_full s then s\<lparr>dropped_packets := dropped_packets s + 1\<rparr>
      else s\<lparr>buffer := buffer s @ [Some p]\<rparr>)"

text \<open>One iteration of the loop for a packet; the division and the modulo may raise.\<close>

definition ingest_one :: "reader \<Rightarrow> packet \<Rightarrow> reader result" where
  "ingest_one s p =
     (let s = s\<lparr>packet_count := packet_count s + 1\<rparr>
      in if real (max_buffer_size s) * (8 / 10) < real (length (buffer s)) then
           (if sample_rate s = 0 then Inl ZeroDivisionError
            else (let m = py_int (1 / sample_rate s)
                  in if m = 0 then Inl ZeroDivisionError
                     else if int (packet_count s) mod m \<noteq> 0
                     then Inr (s\<lparr>dropped_packets := dropped_packets s + 1\<rparr>)
                     else Inr (put_or_drop s p)))
         else Inr (put_or_drop s p))"

inductive reader_step :: "reader \<Rightarrow> reader \<Rightarrow> bool" where
  read: "phase s = Reading \<Longrightarrow> unread s = p # ps \<Longrightarrow> \<not> stop_event s \<Longrightarrow> ingest_one s p = Inr s'
    \<Longrightarrow> reader_step s (s'\<lparr>unread := ps\<rparr>)"
| read_error: "phase s = Reading \<Longrightarrow> unread s = p # ps \<Longrightarrow> \<not> stop_event s \<Longrightarrow> ingest_one s p = Inl e
    \<Longrightarrow> reader_step s (s\<lparr>packet_count := packet_count s + 1, unread := ps, phase := AtEof\<rparr>)"
| stopped: "phase s = Reading \<Longrightarrow> unread s \<noteq> [] \<Longrightarrow> stop_event s \<Longrightarrow> reader_step s (s\<lparr>phase := AtEof\<rparr>)"
| exhausted: "phase s = Reading \<Longrightarrow> unread s = [] \<Longrightarrow> reader_step s (s\<lparr>phase := AtEof\<rparr>)"
| put_eof: "phase s = AtEof \<Longrightarrow> \<not> queue_full s
    \<Longrightarrow> reader_step s (s\<lparr>buffer := buffer s @ [None], phase := Done\<rparr>)"
| eof_timeout: "phase s = AtEof \<Longrightarrow> queue_full s \<Longrightarrow> reader_step s (s\<lparr>phase := Done\<rparr>)"
| get_packet: "buffer s = x # xs \<Longrightarrow> reader_step s (s\<lparr>buffer := xs, consumed := consumed s @ [x]\<rparr>)"
| stop: "reader_step s (s\<lparr>stop_event := True\<rparr>)"

inductive reachable :: "reader \<Rightarrow> reader \<Rightarrow> bool" for s where
  here: "reachable s s"
| there: "reachable s t \<Longrightarrow> reader_step t u \<Longrightarrow> reachable s u"

inductive_simps reader_step_iff: "reader_step s t"

section \<open>The log reader and the listener\<close>

text \<open>
  A log file's lines pass through \<open>parse\<close> (\<^verbatim>\<open>json.loads\<close>); the record gets its log type. Only a
  full queue is caught, so a malformed line ends the thread.
\<close>

fun zeek_read_log ::
    "(string \<Rightarrow> 'r option) \<Rightarrow> nat \<Rightarrow> string \<Rightarrow> string list \<Rightarrow> (string \<times> 'r) option list
      \<Rightarrow> (string \<times> 'r) option list result" where
  "zeek_read_log parse mx ty [] buf = Inr buf"
| "zeek_read_log parse mx ty (line # ls) buf =
     (case parse line of None \<Rightarrow> Inl ValueError
      | Some r \<Rightarrow> zeek_read_log parse mx ty ls (if mx \<le> length buf then buf else buf @ [Some (ty, r)]))"

text \<open>The lines read before a malformed one are already in the queue.\<close>

definition zeek_log_prefix ::
    "(string \<Rightarrow> 'r option) \<Rightarrow> nat \<Rightarrow> string \<Rightarrow> string list \<Rightarrow> (string \<times> 'r) option list
      \<Rightarrow> (string \<times> 'r) option list" where
  "zeek_log_prefix parse mx ty ls buf =
     projr (zeek_read_log parse mx ty (takeWhile (\<lambda>l. parse l \<noteq> None) ls) buf)"

text \<open>
  The thread after Zeek has run, with no stop request and no consumer: \<open>None\<close> for a log that
  does not exist. The result is the queue it leaves and whether the end-of-file marker was put:
  it is not when a line raises, and with a full queue the blocking \<^verbatim>\<open>put\<close> waits for a consumer.
\<close>

fun zeek_logs ::
    "(string \<Rightarrow> 'r option) \<Rightarrow> nat \<Rightarrow> (string \<times> string list option) list \<Rightarrow> (string \<times> 'r) option list
      \<Rightarrow> (string \<times> 'r) option list \<times> bool" where
  "zeek_logs parse mx [] buf = (buf, True)"
| "zeek_logs parse mx ((ty, None) # logs) buf = zeek_logs parse mx logs buf"
| "zeek_logs parse mx ((ty, Some ls) # logs) buf =
     (case zeek_read_log parse mx ty ls buf of
        Inl _ \<Rightarrow> (zeek_log_prefix parse mx ty ls buf, False)
      | Inr buf \<Rightarrow> zeek_logs parse mx logs buf)"

definition zeek_ingest ::
    "(string \<Rightarrow> 'r option) \<Rightarrow> nat \<Rightarrow> string list option \<Rightarrow> string list option \<Rightarrow> string list option
      \<Rightarrow> (string \<times> 'r) option list \<times> bool" where
  "zeek_ingest parse mx conn dns ssl =
     (let (buf, ok) = zeek_logs parse mx [(''conn'', conn), (''dns'', dns), (''ssl'', ssl)] []
      in if ok \<and> length buf < mx then (buf @ [None], True) else (buf, False))"

text \<open>
  What the listener's socket and callback do: a datagram handled, a keyboard interrupt, or
  an exception of either. A finite list of events without an exception is a loop that is
  still running.
\<close>

datatype 'd listen_event = Datagram 'd | CallbackFails 'd | SocketFails | Interrupt

fun listen_loop :: "bool \<Rightarrow> 'd listen_event list \<Rightarrow> 'd list \<Rightarrow> (unit result \<times> bool \<times> 'd list) option" where
  "listen_loop False evs calls = Some (Inl RuntimeError, False, calls)"
| "listen_loop True [] calls = None"
| "listen_loop True (Datagram d # evs) calls = listen_loop True evs (calls @ [d])"
| "listen_loop True (CallbackFails d # evs) calls = Some (Inr (), False, calls @ [d])"
| "listen_loop True (SocketFails # evs) calls = Some (Inr (), False, calls)"
| "listen_loop True (Interrupt # evs) calls = Some (Inr (), False, calls)"

section \<open>Properties of the reader\<close>

definition packets_in :: "packet option list \<Rightarrow> packet list" where
  "packets_in xs = map the (filter (\<lambda>x. x \<noteq> None) xs)"

lemma packets_in_simps [simp]:
  "packets_in [] = []" "packets_in (Some p # xs) = p # packets_in xs" "packets_in (None # xs) = packets_in xs"
  "packets_in (xs @ ys) = packets_in xs @ packets_in ys"
  by (simp_all add: packets_in_def)

definition reader_inv :: "packet list \<Rightarrow> nat \<Rightarrow> real \<Rightarrow> reader \<Rightarrow> bool" where
  "reader_inv pcap mx rate s \<longleftrightarrow>
     max_buffer_size s = mx \<and> sample_rate s = rate \<and> length (buffer s) \<le> mx
     \<and> packet_count s \<le> length pcap \<and> unread s = drop (packet_count s) pcap
     \<and> subseq (packets_in (consumed s @ buffer s)) (take (packet_count s) pcap)
     \<and> packet_count s = length (packets_in (consumed s @ buffer s)) + dropped_packets s
     \<and> (real (length pcap) \<le> real mx * (8 / 10) \<longrightarrow> dropped_packets s = 0)
     \<and> (phase s = Done \<longrightarrow> stop_event s \<or> unread s = [])
     \<and> (phase s = AtEof \<longrightarrow> stop_event s \<or> unread s = [])
     \<and> (phase s \<noteq> Done \<longrightarrow> None \<notin> set (consumed s @ buffer s))"

lemma sample_modulus: "0 < rate \<Longrightarrow> rate \<le> 1 \<Longrightarrow> 1 \<le> py_int (1 / rate)"
  by (simp add: py_int_def le_floor_iff)

lemma ingest_one_cases:
  assumes "0 < sample_rate s" and "sample_rate s \<le> 1"
  shows "\<exists>s'. ingest_one s p = Inr s' \<and>
     (s' = s\<lparr>packet_count := packet_count s + 1, buffer := buffer s @ [Some p]\<rparr> \<and> \<not> queue_full s
      \<or> s' = s\<lparr>packet_count := packet_count s + 1, dropped_packets := dropped_packets s + 1\<rparr>
        \<and> (real (max_buffer_size s) * (8 / 10) < real (length (buffer s)) \<or> queue_full s))"
proof -
  have "py_int (1 / sample_rate s) \<noteq> 0" using sample_modulus [OF assms] by linarith
  then show ?thesis
    using assms by (auto simp: ingest_one_def put_or_drop_def queue_full_def Let_def)
qed

lemma packets_in_length: "None \<notin> set xs \<Longrightarrow> length (packets_in xs) = length xs"
proof (induction xs)
  case (Cons x xs)
  then show ?case by (cases x) auto
qed simp

lemma reader_inv_init: "0 < mx \<Longrightarrow> reader_inv pcap mx rate (reader_init mx rate pcap)"
  by (simp add: reader_inv_def reader_init_def)

lemma reader_inv_subseq:
  "reader_inv pcap mx rate s \<Longrightarrow> subseq (packets_in (consumed s @ buffer s)) (take (packet_count s) pcap)"
  unfolding reader_inv_def by (elim conjE)

lemma reader_inv_read:
  assumes inv: "reader_inv pcap mx rate s" and "0 < mx" "0 < rate" "rate \<le> 1"
    and reading: "phase s = Reading" and un: "unread s = p # ps" and step: "ingest_one s p = Inr s'"
  shows "reader_inv pcap mx rate (s'\<lparr>unread := ps\<rparr>)"
proof -
  let ?c = "packet_count s" and ?out = "packets_in (consumed s @ buffer s)"
  have d: "drop ?c pcap = p # ps" using inv un by (simp add: reader_inv_def)
  then have c: "?c < length pcap" by (metis drop_all list.distinct(1) not_le)
  with d have tk: "take (Suc ?c) pcap = take ?c pcap @ [p]" and dr: "drop (Suc ?c) pcap = ps"
    by (simp_all add: take_Suc_conv_app_nth drop_Suc tl_drop nth_via_drop)
      (metis drop_Suc list.sel(3) tl_drop)+
  have no: "None \<notin> set (consumed s @ buffer s)" using inv reading by (simp add: reader_inv_def)
  have len: "length (buffer s) \<le> ?c"
    using packets_in_length [OF no] inv by (simp add: reader_inv_def)
  have "subseq ?out (take ?c pcap)" using inv by (rule reader_inv_subseq)
  note sub = list_emb_append_mono [OF this, of "[p]" "[p]"] list_emb_append_mono [OF this, of "[]" "[p]"]
  consider "s' = s\<lparr>packet_count := ?c + 1, buffer := buffer s @ [Some p]\<rparr>" "\<not> queue_full s"
    | "s' = s\<lparr>packet_count := ?c + 1, dropped_packets := dropped_packets s + 1\<rparr>"
      "real (max_buffer_size s) * (8 / 10) < real (length (buffer s)) \<or> queue_full s"
    using ingest_one_cases [of s p] step inv assms(3,4) by (auto simp: reader_inv_def)
  then show ?thesis
  proof cases
    case 1
    have "length (buffer s) < mx" using 1(2) inv \<open>0 < mx\<close> by (simp add: queue_full_def reader_inv_def)
    with 1(1) inv no sub(1) tk dr c reading show ?thesis by (simp add: reader_inv_def)
  next
    case 2
    have "real mx * (8 / 10) < real (length pcap)"
      using 2(2) inv len c \<open>0 < mx\<close> by (auto simp: queue_full_def reader_inv_def)
    with 2(1) inv no sub(2) tk dr c reading show ?thesis by (simp add: reader_inv_def)
  qed
qed

lemma reader_inv_step:
  assumes inv: "reader_inv pcap mx rate s" and "0 < mx" "0 < rate" "rate \<le> 1" and step: "reader_step s t"
  shows "reader_inv pcap mx rate t"
  using step
proof cases
  case (read p ps s')
  then show ?thesis using reader_inv_read [OF inv assms(2-4)] by blast
next
  case (read_error p ps e)
  then show ?thesis using ingest_one_cases [of s p] inv assms(3,4) by (auto simp: reader_inv_def)
next
  case (get_packet x xs)
  then have "packets_in (consumed t @ buffer t) = packets_in (consumed s @ buffer s)"
    by (cases x) simp_all
  with get_packet inv show ?thesis by (auto simp: reader_inv_def)
qed (use inv \<open>0 < mx\<close> in \<open>auto simp: reader_inv_def queue_full_def\<close>)

lemma reader_inv_reachable:
  assumes "reachable (reader_init mx rate pcap) s" and "0 < mx" "0 < rate" "rate \<le> 1"
  shows "reader_inv pcap mx rate s"
  using assms(1)
proof induction
  case here
  then show ?case using assms(2) by (rule reader_inv_init)
next
  case (there t u)
  then show ?case using reader_inv_step assms(2-4) by blast
qed

text \<open>
  C10. The bounded reader is bounded and accounts for every packet: in every state reachable by
  any interleaving of the producer, the consumer and \<open>stop\<close>, the queue holds at most
  \<open>max_buffer_size\<close> entries; what was delivered or is waiting is a subsequence, in order, of
  the packets read so far, and together with \<open>dropped_packets\<close> it makes up all of them;
  nothing is dropped from a capture that fits into 80% of the buffer; and once the producer
  is done without a stop request, the whole capture is accounted for.
\<close>

theorem pcap_reader_accounts_for_packets:
  assumes "reachable (reader_init mx rate pcap) s" and "0 < mx" and "0 < rate" and "rate \<le> 1"
  shows "length (buffer s) \<le> mx
    \<and> subseq (packets_in (consumed s @ buffer s)) (take (packet_count s) pcap)
    \<and> length (packets_in (consumed s @ buffer s)) + dropped_packets s = packet_count s
    \<and> (real (length pcap) \<le> real mx * (8 / 10) \<longrightarrow>
         dropped_packets s = 0 \<and> packets_in (consumed s @ buffer s) = take (packet_count s) pcap)
    \<and> (phase s = Done \<and> \<not> stop_event s \<longrightarrow> packet_count s = length pcap)"
proof -
  have inv: "reader_inv pcap mx rate s" using assms by (rule reader_inv_reachable)
  let ?out = "packets_in (consumed s @ buffer s)"
  have sub: "subseq ?out (take (packet_count s) pcap)" using inv by (rule reader_inv_subseq)
  have c: "packet_count s \<le> length pcap" using inv unfolding reader_inv_def by (elim conjE)
  have all: "?out = take (packet_count s) pcap" if "length ?out = packet_count s"
    using subseq_same_length [OF sub] c that by simp
  show ?thesis
    using inv sub all by (auto simp: reader_inv_def)
qed

theorem pcap_reader_accounts_for_packets_witness:
  "\<exists>s. reachable (reader_init 10 (1 / 10) [(0, []), (1, [])]) s \<and> packet_count s = 1
     \<and> packets_in (consumed s @ buffer s) = [(0, [])]"
proof -
  let ?i = "reader_init 10 (1 / 10) [(0, []), (1, [])]"
  let ?s = "?i\<lparr>packet_count := 1, buffer := [Some (0, [])], unread := [(1, [])]\<rparr>"
  have one: "ingest_one ?i (0, []) = Inr (?i\<lparr>packet_count := 1, buffer := [Some (0, [])]\<rparr>)"
    by (simp add: ingest_one_def reader_init_def put_or_drop_def queue_full_def Let_def)
  have "reader_step ?i ((?i\<lparr>packet_count := 1, buffer := [Some (0, [])]\<rparr>)\<lparr>unread := [(1, [])]\<rparr>)"
    by (rule reader_step.read [OF _ _ _ one]) (simp_all add: reader_init_def)
  then have "reachable ?i ?s" using reachable.intros by fastforce
  with pcap_reader_accounts_for_packets [OF this] show ?thesis
    by (intro exI [of _ ?s]) (simp add: reader_init_def)
qed

lemma zeek_read_log_error: "(\<exists>l\<in>set ls. parse l = None) \<Longrightarrow> isl (zeek_read_log parse mx ty ls buf)"
  by (induction ls arbitrary: buf) (auto split: option.splits)

lemma zeek_logs_error: "(ty, Some ls) \<in> set logs \<Longrightarrow> l \<in> set ls \<Longrightarrow> parse l = None \<Longrightarrow> \<not> snd (zeek_logs parse mx logs buf)"
proof (induction parse mx logs buf rule: zeek_logs.induct)
  case (3 parse mx ty' ls' logs buf)
  show ?case
  proof (cases "zeek_read_log parse mx ty' ls' buf")
    case (Inr buf')
    then have "\<not> (\<exists>l\<in>set ls'. parse l = None)" using zeek_read_log_error by (metis sum.disc(2))
    with 3 Inr show ?thesis by auto
  qed simp
qed auto

lemma zeek_log_prefix_no_eof: "None \<notin> set buf \<Longrightarrow> None \<notin> set (zeek_log_prefix parse mx ty ls buf)"
  unfolding zeek_log_prefix_def
  by (induction ls arbitrary: buf) (auto split: option.splits)

lemma zeek_logs_no_eof: "None \<notin> set buf \<Longrightarrow> None \<notin> set (fst (zeek_logs parse mx logs buf))"
proof (induction parse mx logs buf rule: zeek_logs.induct)
  case (3 parse mx ty ls logs buf)
  have "zeek_read_log parse mx ty ls buf = Inr buf' \<Longrightarrow> None \<notin> set buf'" for buf'
    using 3(2) by (induction parse mx ty ls buf rule: zeek_read_log.induct) (auto split: option.splits if_splits)
  with 3 show ?case by (auto simp: zeek_log_prefix_no_eof split: sum.splits)
qed auto

text \<open>
  One malformed log line silences the Zeek reader: if any line of a log that exists is not
  JSON, the producer thread dies on it and the end-of-file marker is never put into the
  queue, so a consumer cannot tell the end of the data from a slow producer.
\<close>

theorem zeek_malformed_line_loses_eof:
  assumes "Some ls \<in> {conn, dns, ssl}" and "l \<in> set ls" and "parse l = None"
  shows "\<not> snd (zeek_ingest parse mx conn dns ssl) \<and> None \<notin> set (fst (zeek_ingest parse mx conn dns ssl))"
proof -
  define logs where "logs = [(''conn'', conn), (''dns'', dns), (''ssl'', ssl)]"
  obtain ty where "(ty, Some ls) \<in> set logs" unfolding logs_def using assms(1) by force
  then have "\<not> snd (zeek_logs parse mx logs [])" using assms(2,3) by (rule zeek_logs_error)
  moreover have "None \<notin> set (fst (zeek_logs parse mx logs []))" by (rule zeek_logs_no_eof) simp
  moreover have "zeek_ingest parse mx conn dns ssl =
      (let (buf, ok) = zeek_logs parse mx logs []
       in if ok \<and> length buf < mx then (buf @ [None], True) else (buf, False))"
    by (simp only: zeek_ingest_def logs_def)
  ultimately show ?thesis by (simp add: case_prod_unfold Let_def)
qed

theorem zeek_malformed_line_loses_eof_witness:
  "None \<notin> set (fst (zeek_ingest (\<lambda>l. if l = [] then None else Some l) 100 (Some [''a'', []]) None (Some [''b''])))"
  using zeek_malformed_line_loses_eof [of "[''a'', []]" "Some [''a'', []]" None "Some [''b'']" "[]"
      "\<lambda>l. if l = [] then None else Some l" 100] by simp

lemma listen_loop_closes:
  "listen_loop started evs calls = Some (r, sock, out) \<Longrightarrow> \<not> sock \<and> (r = Inl RuntimeError \<longleftrightarrow> \<not> started)"
  by (induction started evs calls rule: listen_loop.induct) auto

end
