(* ===== verification/TrainData.thy ===== *)
theory TrainData
  imports Pipeline Ingest
begin

text \<open>
  Training data and score calibration: the feature table of \<^verbatim>\<open>models/train/dataset_generator.py\<close> and the
  scores, targets and calibrators of \<^verbatim>\<open>alerting/calibration.py\<close>. The isotonic regression is an
  argument. Shown is which detectors are calibrated on the scores they give when serving, and
  what the calibration does to the alerts of the two detectors without training attacks.
\<close>

section \<open>The feature table\<close>

record train_row =
  tr_timestamp :: real
  tr_src_ip :: string
  tr_dst_ip :: string
  tr_is_attack :: int
  tr_attack_type :: string
  tr_cols :: "(string, real) dict"

definition flatten :: "fired \<Rightarrow> string \<Rightarrow> string \<Rightarrow> (string, real) dict \<Rightarrow> (string, real) dict" where
  "flatten f name pfx cols =
     (case map_of f name of Some (RVec v) \<Rightarrow> foldl (\<lambda>cols (k, x). dict_set (pfx @ k) x cols) cols v | _ \<Rightarrow> cols)"

definition flatten_features :: "fired \<Rightarrow> (string, real) dict" where
  "flatten_features f =
     (let cols = flatten f ''exfil'' ''exfil_'' (flatten f ''recon'' ''recon_'' (flatten f ''dga'' ''dga_''
                   (flatten f ''beaconing'' ''beacon_'' (flatten f ''ddos'' ''ddos_'' []))))
      in case map_of f ''encrypted'' of
           Some (REnc e) \<Rightarrow> dict_set ''tls_sni_length'' (opt_get (ef_sni_length_ewma e) 0) cols
         | _ \<Rightarrow> cols)"

definition train_row_of :: "bool \<Rightarrow> string \<Rightarrow> real \<Rightarrow> packet_meta \<Rightarrow> fired \<Rightarrow> train_row" where
  "train_row_of is_attack attack_type ts meta f =
     \<lparr>tr_timestamp = ts, tr_src_ip = src_ip meta, tr_dst_ip = dst_ip meta, tr_is_attack = (if is_attack then 1 else 0),
      tr_attack_type = (if is_attack then attack_type else ''Benign''), tr_cols = flatten_features f\<rparr>"

text \<open>
  The loop over what the reader delivers; the sentinel ends it. Without the sentinel it waits
  forever, which is \<open>None\<close>.
\<close>

fun train_loop :: "pipe_env \<Rightarrow> bool \<Rightarrow> string \<Rightarrow> packet option list \<Rightarrow> scheduler \<Rightarrow> train_row list result option" where
  "train_loop env is_attack attack_type [] s = None"
| "train_loop env is_attack attack_type (None # ds) s = Some (Inr [])"
| "train_loop env is_attack attack_type (Some (ts, buf) # ds) s =
     (case parse_packet (pe_link env) buf of
        Inl e \<Rightarrow> Some (Inl e)
      | Inr None \<Rightarrow> train_loop env is_attack attack_type ds s
      | Inr (Some meta) \<Rightarrow>
          (case parse_app env meta of
             Inl e \<Rightarrow> Some (Inl e)
           | Inr (dns, tls) \<Rightarrow>
               (let s = snd (process_packet (pe_digest env) s meta ts dns tls);
                    row = train_row_of is_attack attack_type ts meta (extract_all (pe_digest env) s (src_ip meta) (dst_ip meta))
                in map_option (\<lambda>r. bind_result r (\<lambda>rows. Inr (row # rows))) (train_loop env is_attack attack_type ds s))))"

text \<open>\<open>None\<close> for a capture that does not exist; otherwise what the reader delivers of it.\<close>

definition extract_features_to_df :: "pipe_env \<Rightarrow> packet option list option \<Rightarrow> bool \<Rightarrow> string \<Rightarrow> train_row list result option" where
  "extract_features_to_df env capture is_attack attack_type =
     (case capture of None \<Rightarrow> Some (Inr [])
      | Some ds \<Rightarrow> train_loop env is_attack attack_type ds (scheduler_init (1 / 10) (5 / 10) 1))"

definition train_captures :: "(string \<times> bool \<times> string) list" where
  "train_captures = [(''benign.pcap'', False, []), (''syn_flood.pcap'', True, ''DDoS''), (''c2_beacon.pcap'', True, ''Beaconing''),
     (''dns_tunnel.pcap'', True, ''DGA'')]"

fun concat_frames :: "pipe_env \<Rightarrow> (string \<Rightarrow> packet option list option) \<Rightarrow> (string \<times> bool \<times> string) list \<Rightarrow> train_row list result option" where
  "concat_frames env data [] = Some (Inr [])"
| "concat_frames env data ((file, is_attack, ty) # cs) =
     (case extract_features_to_df env (data file) is_attack ty of
        None \<Rightarrow> None
      | Some (Inl e) \<Rightarrow> Some (Inl e)
      | Some (Inr rows) \<Rightarrow> map_option (\<lambda>r. bind_result r (\<lambda>rest. Inr (rows @ rest))) (concat_frames env data cs))"

definition build_dataset :: "pipe_env \<Rightarrow> (string \<Rightarrow> packet option list option) \<Rightarrow> train_row list result option" where
  "build_dataset env data = concat_frames env data train_captures"

section \<open>Calibration\<close>

definition row_get :: "train_row \<Rightarrow> string \<Rightarrow> real \<Rightarrow> real" where
  "row_get row k d = dict_get (tr_cols row) k d"

text \<open>The vector a detector is scored on, rebuilt from a row.\<close>

definition calib_vec :: "string \<Rightarrow> train_row \<Rightarrow> rollup" where
  "calib_vec name row =
     (if name = ''ddos'' then
        RVec [(''syn_synack_ratio'', row_get row ''ddos_syn_synack_ratio'' 0), (''dst_pkt_ewma'', row_get row ''ddos_dst_pkt_ewma'' 0)]
      else if name = ''beaconing'' then
        RVec [(''iat_cv'', row_get row ''beacon_iat_cv'' 1), (''mean_iat'', row_get row ''beacon_mean_iat'' 0), (''dst_fan_in'', 1)]
      else if name = ''dga'' then
        RVec [(''avg_query_length'', row_get row ''dga_avg_query_length'' 0), (''avg_query_entropy'', row_get row ''dga_avg_query_entropy'' 0),
              (''nxdomain_rate'', row_get row ''dga_nxdomain_rate'' 0)]
      else if name = ''encrypted'' then
        REnc \<lparr>ef_packet_sizes = None, ef_packet_ipts = None, ef_sni_length_ewma = Some (row_get row ''tls_sni_length'' 0)\<rparr>
      else if name = ''recon'' then
        RVec [(''syn_only_ratio'', row_get row ''recon_syn_only_ratio'' 0), (''scan_activity_score'', row_get row ''recon_scan_activity_score'' 0)]
      else
        RVec [(''outbound_inbound_ratio'', row_get row ''exfil_outbound_inbound_ratio'' 0),
              (''outbound_bytes_ewma'', row_get row ''exfil_outbound_bytes_ewma'' 0),
              (''inbound_bytes_ewma'', row_get row ''exfil_inbound_bytes_ewma'' 0)])"

definition calib_type :: "string \<Rightarrow> string" where
  "calib_type name = (if name = ''ddos'' then ''DDoS'' else if name = ''beaconing'' then ''Beaconing'' else if name = ''dga'' then ''DGA''
     else if name = ''recon'' then ''Recon'' else ''Exfil'')"

definition calib_target :: "string \<Rightarrow> train_row \<Rightarrow> int" where
  "calib_target name row =
     (if name = ''encrypted'' then tr_is_attack row
      else if tr_attack_type row \<in> set [calib_type name, ''Benign''] then tr_is_attack row else 0)"

definition test_split :: "train_row list \<Rightarrow> train_row list" where
  "test_split df = drop (nat (py_int (real (length df) * (7 / 10)))) df"

definition get_detector_data_and_scores ::
    "pipe_env \<Rightarrow> detector_models \<Rightarrow> string \<Rightarrow> train_row list \<Rightarrow> (real list \<times> int list) result" where
  "get_detector_data_and_scores env ms name df =
     (if name \<notin> set detector_names then Inr ([], [])
      else bind_result (map_result (\<lambda>row. bind_result (run_detector env ms name (calib_vec name row)) (\<lambda>(score, _, _). Inr score))
             (test_split df)) (\<lambda>scores. Inr (scores, map (calib_target name) (test_split df))))"

text \<open>
  One calibrator per detector. \<open>fit\<close> is the isotonic regression, \<open>noise\<close> what is added to the
  scores; a fit that raises is replaced by one of the two points (0, 0) and (1, 1).
\<close>

fun fit_calibrators ::
    "pipe_env \<Rightarrow> detector_models \<Rightarrow> (real list \<Rightarrow> real list \<Rightarrow> calibrator result) \<Rightarrow> (string \<Rightarrow> nat \<Rightarrow> real) \<Rightarrow> train_row list
      \<Rightarrow> string list \<Rightarrow> normalizer \<Rightarrow> normalizer result" where
  "fit_calibrators env ms fit noise df [] cals = Inr cals"
| "fit_calibrators env ms fit noise df (name # names) cals =
     bind_result (get_detector_data_and_scores env ms name df) (\<lambda>(scores, y_true).
       let scores = map (\<lambda>(i, x). x + noise name i) (List.enumerate 0 scores)
       in bind_result (case fit scores (map of_int y_true) of Inr c \<Rightarrow> Inr c | Inl _ \<Rightarrow> fit [0, 1] [0, 1]) (\<lambda>c.
            fit_calibrators env ms fit noise df names (dict_set name c cals)))"

definition run_calibration ::
    "pipe_env \<Rightarrow> detector_models \<Rightarrow> (real list \<Rightarrow> real list \<Rightarrow> calibrator result) \<Rightarrow> (string \<Rightarrow> nat \<Rightarrow> real) \<Rightarrow> train_row list
      \<Rightarrow> normalizer result" where
  "run_calibration env ms fit noise df = fit_calibrators env ms fit noise df detector_names []"

section \<open>Calibrated on what is served\<close>

lemma served_columns:
  fixes digest :: "string \<Rightarrow> nat"
  defines "row is_attack ty ts m s src dst \<equiv> train_row_of is_attack ty ts m (extract_all digest s src dst)"
  shows "row_get (row ia ty ts m s src dst) ''ddos_syn_synack_ratio'' 0 = dict_get (ddos_extract (sc_ddos s) dst) ''syn_synack_ratio'' 0"
    "row_get (row ia ty ts m s src dst) ''ddos_dst_pkt_ewma'' 0 = dict_get (ddos_extract (sc_ddos s) dst) ''dst_pkt_ewma'' 0"
    "row_get (row ia ty ts m s src dst) ''beacon_iat_cv'' 1 = dict_get (beaconing_extract digest (sc_beaconing s) src dst) ''iat_cv'' 1"
    "row_get (row ia ty ts m s src dst) ''beacon_mean_iat'' 0 = dict_get (beaconing_extract digest (sc_beaconing s) src dst) ''mean_iat'' 0"
    "row_get (row ia ty ts m s src dst) ''dga_avg_query_length'' 0 = dict_get (dga_extract (sc_dga s)) ''avg_query_length'' 0"
    "row_get (row ia ty ts m s src dst) ''dga_avg_query_entropy'' 0 = dict_get (dga_extract (sc_dga s)) ''avg_query_entropy'' 0"
    "row_get (row ia ty ts m s src dst) ''dga_nxdomain_rate'' 0 = dict_get (dga_extract (sc_dga s)) ''nxdomain_rate'' 0"
    "row_get (row ia ty ts m s src dst) ''recon_syn_only_ratio'' 0 = dict_get (recon_extract (sc_recon s) src) ''syn_only_ratio'' 0"
    "row_get (row ia ty ts m s src dst) ''recon_scan_activity_score'' 0 = dict_get (recon_extract (sc_recon s) src) ''scan_activity_score'' 0"
    "row_get (row ia ty ts m s src dst) ''exfil_outbound_inbound_ratio'' 0 = dict_get (exfil_extract (sc_exfil s)) ''outbound_inbound_ratio'' 0"
    "row_get (row ia ty ts m s src dst) ''exfil_outbound_bytes_ewma'' 0 = dict_get (exfil_extract (sc_exfil s)) ''outbound_bytes_ewma'' 0"
    "row_get (row ia ty ts m s src dst) ''exfil_inbound_bytes_ewma'' 0 = dict_get (exfil_extract (sc_exfil s)) ''inbound_bytes_ewma'' 0"
  unfolding row_def row_get_def train_row_of_def extract_all_def flatten_features_def flatten_def ddos_extract_def beaconing_extract_def
    dga_extract_def recon_extract_def exfil_extract_def
  by (simp_all add: dict_get_def map_of_dict_set Let_def case_prod_beta)

text \<open>The score and the explanation of a prediction, without the features it reports.\<close>

definition verdict :: "prediction result \<Rightarrow> (real \<times> string) result" where
  "verdict r = bind_result r (\<lambda>(score, _, expl). Inr (score, expl))"

lemma verdict_simps:
  "verdict (Inr (score, used, expl)) = Inr (score, expl)"
  "verdict (bind_result a g) = bind_result a (\<lambda>x. verdict (g x))"
  "verdict (if c then r else r') = (if c then verdict r else verdict r')"
  "verdict (case x of None \<Rightarrow> r | Some y \<Rightarrow> h y) = (case x of None \<Rightarrow> verdict r | Some y \<Rightarrow> verdict (h y))"
proof -
  show "verdict (bind_result a g) = bind_result a (\<lambda>x. verdict (g x))" by (cases a) (simp_all add: verdict_def)
qed (simp_all add: verdict_def split: option.split)

lemma dict_get_Cons: "dict_get ((k, x) # d) j v = (if j = k then x else dict_get d j v)"
  by (simp add: dict_get_def)

text \<open>
  C19. Four detectors are calibrated on the scores they give when serving: for the beaconing, DGA,
  reconnaissance and exfiltration detectors, the vector rebuilt from a row of the training table
  leads to the same score and explanation, or the same error, as the feature vector the
  scheduler extracted for that packet, whatever the models are.
\<close>

theorem calibration_scores_as_served:
  assumes "name \<in> {''beaconing'', ''dga'', ''recon'', ''exfil''}"
    and "map_of (extract_all (pe_digest env) s src dst) name = Some served"
  shows "verdict (run_detector env ms name
      (calib_vec name (train_row_of is_attack ty ts m (extract_all (pe_digest env) s src dst))))
    = verdict (run_detector env ms name served)"
proof -
  note defs = run_detector_def calib_vec_def served_columns dict_get_Cons verdict_simps Let_def
  from assms(1) consider "name = ''beaconing''" | "name = ''dga''" | "name = ''recon''" | "name = ''exfil''" by blast
  then show ?thesis
  proof cases
    case 1
    with assms(2) have "served = RVec (beaconing_extract (pe_digest env) (sc_beaconing s) src dst)"
      by (simp add: extract_all_def)
    with 1 show ?thesis by (cases "m_beaconing ms") (simp_all add: defs beaconing_predict_def cong: if_cong)
  next
    case 2
    with assms(2) have "served = RVec (dga_extract (sc_dga s))" by (simp add: extract_all_def)
    with 2 show ?thesis by (simp add: defs dga_predict_def)
  next
    case 3
    with assms(2) have "served = RVec (recon_extract (sc_recon s) src)" by (simp add: extract_all_def)
    with 3 show ?thesis by (simp add: defs recon_predict_def)
  next
    case 4
    with assms(2) have "served = RVec (exfil_extract (sc_exfil s))" by (simp add: extract_all_def)
    with 4 show ?thesis by (simp add: defs exfil_predict_def)
  qed
qed

theorem calibration_scores_as_served_witness:
  "verdict (run_detector (sample_pipe (Tcp 1024 80 2 [])) no_models ''recon''
      (calib_vec ''recon'' (train_row_of True ''DDoS'' 5 syn_meta (extract_all length (scheduler_init 1 5 60) ''10.0.0.1'' ''8.8.8.8''))))
    = verdict (run_detector (sample_pipe (Tcp 1024 80 2 [])) no_models ''recon'' (RVec (recon_extract recon_init ''10.0.0.1'')))"
proof -
  have "pe_digest (sample_pipe (Tcp 1024 80 2 [])) = length" by (simp add: sample_pipe_def)
  then show ?thesis
    using calibration_scores_as_served [of "''recon''" "sample_pipe (Tcp 1024 80 2 [])" "scheduler_init 1 5 60" "''10.0.0.1''" "''8.8.8.8''"
      "RVec (recon_extract recon_init ''10.0.0.1'')" no_models True "''DDoS''" 5 syn_meta]
    by (simp add: extract_all_def scheduler_init_def)
qed

text \<open>
  The DDoS detector is not among them: the rebuilt vector lacks the amplification ratio and the
  source entropy, so that an amplification attack served with 0.98 is calibrated as a score of 0.
\<close>

lemma ddos_calibration_misses_amplification:
  assumes "10 < dict_get (ddos_extract (sc_ddos s) dst) ''amp_byte_ratio'' 0"
    and "dict_get (ddos_extract (sc_ddos s) dst) ''syn_synack_ratio'' 0 < 2"
    and "dict_get (ddos_extract (sc_ddos s) dst) ''dst_pkt_ewma'' 0 < 2"
  shows "verdict (run_detector env ms ''ddos'' (calib_vec ''ddos'' (train_row_of ia ty ts m (extract_all digest s src dst)))) = Inr (0, [])"
    and "\<exists>expl. verdict (run_detector env ms ''ddos'' (RVec (ddos_extract (sc_ddos s) dst))) = Inr (98 / 100, expl)"
proof -
  show "verdict (run_detector env ms ''ddos'' (calib_vec ''ddos'' (train_row_of ia ty ts m (extract_all digest s src dst)))) = Inr (0, [])"
    using assms(2,3) by (simp add: run_detector_def calib_vec_def served_columns ddos_predict_def Let_def dict_get_Cons verdict_simps)
      (simp add: dict_get_def)
  show "\<exists>expl. verdict (run_detector env ms ''ddos'' (RVec (ddos_extract (sc_ddos s) dst))) = Inr (98 / 100, expl)"
    using assms by (simp add: run_detector_def ddos_predict_def Let_def verdict_simps)
qed

section \<open>Detectors without training attacks\<close>

lemma train_loop_rows:
  "train_loop env is_attack ty ds s = Some (Inr rows) \<Longrightarrow> r \<in> set rows
    \<Longrightarrow> tr_is_attack r = (if is_attack then 1 else 0) \<and> tr_attack_type r = (if is_attack then ty else ''Benign'')"
proof (induction env is_attack ty ds s arbitrary: rows rule: train_loop.induct)
  case (3 env is_attack ty ts buf ds s)
  show ?case
  proof (cases "parse_packet (pe_link env) buf")
    case (Inr o')
    show ?thesis
    proof (cases o')
      case None
      with 3 Inr show ?thesis by simp
    next
      case (Some meta)
      obtain dns tls where app: "parse_app env meta = Inr (dns, tls)"
        using 3(3) Inr Some by (cases "parse_app env meta") auto
      define s' where "s' = snd (process_packet (pe_digest env) s meta ts dns tls)"
      define row where "row = train_row_of is_attack ty ts meta (extract_all (pe_digest env) s' (src_ip meta) (dst_ip meta))"
      have "map_option (\<lambda>x. bind_result x (\<lambda>rows. Inr (row # rows))) (train_loop env is_attack ty ds s') = Some (Inr rows)"
        using 3(3) by (simp add: Inr Some app Let_def row_def s'_def)
      then obtain x where x: "train_loop env is_attack ty ds s' = Some x" "bind_result x (\<lambda>rows. Inr (row # rows)) = Inr rows" by auto
      then obtain rest where rest: "train_loop env is_attack ty ds s' = Some (Inr rest)" "rows = row # rest" by (cases x) auto
      have IH: "r \<in> set rest \<Longrightarrow> tr_is_attack r = (if is_attack then 1 else 0) \<and> tr_attack_type r = (if is_attack then ty else ''Benign'')"
        using 3(2) [OF Inr Some app refl s'_def refl rest(1)] by blast
      then show ?thesis using rest(2) 3(4) by (auto simp: row_def train_row_of_def)
    qed
  qed (use 3 in simp)
qed simp_all

lemma concat_frames_Cons:
  assumes "concat_frames env data ((f, ia, ty) # cs) = Some (Inr df)"
  obtains rows rest where "concat_frames env data cs = Some (Inr rest)" "df = rows @ rest"
    "\<And>r. r \<in> set rows \<Longrightarrow> tr_is_attack r = (if ia then 1 else 0) \<and> tr_attack_type r = (if ia then ty else ''Benign'')"
proof -
  from assms obtain rows where rows: "extract_features_to_df env (data f) ia ty = Some (Inr rows)"
    by (auto split: option.splits sum.splits)
  with assms obtain x where "concat_frames env data cs = Some x" "bind_result x (\<lambda>rest. Inr (rows @ rest)) = Inr df" by auto
  then obtain rest where rest: "concat_frames env data cs = Some (Inr rest)" "df = rows @ rest" by (cases x) auto
  have "tr_is_attack r = (if ia then 1 else 0) \<and> tr_attack_type r = (if ia then ty else ''Benign'')" if "r \<in> set rows" for r
    using rows that unfolding extract_features_to_df_def by (cases "data f") (auto dest: train_loop_rows)
  with rest show ?thesis by (rule that)
qed

lemma concat_frames_rows:
  assumes "concat_frames env data cs = Some (Inr df)" and "r \<in> set df"
  shows "\<exists>(file, ia, ty)\<in>set cs. tr_is_attack r = (if ia then 1 else 0) \<and> tr_attack_type r = (if ia then ty else ''Benign'')"
  using assms
proof (induction cs arbitrary: df)
  case (Cons c cs)
  obtain f ia ty where c: "c = (f, ia, ty)" by (cases c)
  obtain rows rest where *: "concat_frames env data cs = Some (Inr rest)" "df = rows @ rest"
    "\<And>r. r \<in> set rows \<Longrightarrow> tr_is_attack r = (if ia then 1 else 0) \<and> tr_attack_type r = (if ia then ty else ''Benign'')"
    using Cons.prems(1) unfolding c by (rule concat_frames_Cons) blast
  show ?case
  proof (cases "r \<in> set rows")
    case True
    from *(3) [OF this] show ?thesis by (simp add: c)
  next
    case False
    with Cons.IH [OF *(1)] Cons.prems(2) *(2) show ?thesis by auto
  qed
qed simp

lemma build_dataset_types:
  assumes "build_dataset env data = Some (Inr df)" and "r \<in> set df"
  shows "tr_attack_type r \<in> {''DDoS'', ''Beaconing'', ''DGA''} \<or> tr_attack_type r = ''Benign'' \<and> tr_is_attack r = 0"
  using concat_frames_rows [of env data train_captures df r] assms
  by (auto simp: build_dataset_def train_captures_def split: if_splits)

lemma test_split_nonempty: "df \<noteq> [] \<Longrightarrow> test_split df \<noteq> []"
proof -
  assume "df \<noteq> []"
  then have "0 < real (length df)" by simp
  then have "py_int (real (length df) * (7 / 10)) < int (length df)"
    by (simp add: py_int_def floor_less_iff)
  moreover have "0 < length df" using \<open>df \<noteq> []\<close> by simp
  ultimately have "nat (py_int (real (length df) * (7 / 10))) < length df" by linarith
  then show ?thesis unfolding test_split_def drop_eq_Nil by (simp only: not_le)
qed

lemma test_split_subset: "set (test_split df) \<subseteq> set df"
  by (simp add: test_split_def set_drop_subset)

lemma length_map_result: "map_result f xs = Inr ys \<Longrightarrow> length ys = length xs"
  by (induction xs arbitrary: ys) (auto simp: bind_result_Inr)

lemma fit_calibrators_other:
  "fit_calibrators env ms fit noise df names cals = Inr cals' \<Longrightarrow> name \<notin> set names \<Longrightarrow> map_of cals' name = map_of cals name"
  by (induction names arbitrary: cals) (auto simp: bind_result_Inr Let_def map_of_dict_set)

lemma fit_calibrators_at:
  assumes "fit_calibrators env ms fit noise df names cals = Inr cals'" and "name \<in> set names" and "distinct names"
  shows "\<exists>scores y c. get_detector_data_and_scores env ms name df = Inr (scores, y) \<and> map_of cals' name = Some c
    \<and> (case fit (map (\<lambda>(i, x). x + noise name i) (List.enumerate 0 scores)) (map of_int y) of
         Inr c' \<Rightarrow> c = c' | Inl _ \<Rightarrow> fit [0, 1] [0, 1] = Inr c)"
  using assms
proof (induction names arbitrary: cals)
  case (Cons n ns)
  from Cons.prems(1) obtain scores y c where
    g: "get_detector_data_and_scores env ms n df = Inr (scores, y)"
    and c: "(case fit (map (\<lambda>(i, x). x + noise n i) (List.enumerate 0 scores)) (map of_int y) of
        Inr c \<Rightarrow> Inr c | Inl _ \<Rightarrow> fit [0, 1] [0, 1]) = Inr c"
    and rest: "fit_calibrators env ms fit noise df ns (dict_set n c cals) = Inr cals'"
    by (auto simp: bind_result_Inr Let_def)
  show ?case
  proof (cases "name = n")
    case True
    have "map_of cals' n = Some c"
      using fit_calibrators_other [OF rest, of n] Cons.prems(3) by (simp add: map_of_dict_set)
    with g c True show ?thesis by (auto split: sum.splits)
  next
    case False
    with Cons rest show ?thesis by simp
  qed
qed simp

text \<open>
  What isotonic regression promises: it fits every non-empty sample of matching lengths, and
  predicts for every score a value between two of the targets.
\<close>

definition iso_ok :: "(real list \<Rightarrow> real list \<Rightarrow> calibrator result) \<Rightarrow> bool" where
  "iso_ok fit \<longleftrightarrow> (\<forall>xs ys. xs \<noteq> [] \<and> length xs = length ys \<longrightarrow> (\<exists>c. fit xs ys = Inr c
     \<and> (\<forall>x. \<exists>v. c x = Inr v \<and> (\<exists>lo\<in>set ys. lo \<le> v) \<and> (\<exists>hi\<in>set ys. v \<le> hi))))"

lemma calibrated_zero:
  assumes "iso_ok fit" and "df \<noteq> []" and "run_calibration env ms fit noise df = Inr cals"
    and "name \<in> set detector_names" and "\<And>r. r \<in> set df \<Longrightarrow> calib_target name r = 0"
  shows "calibrated cals name raw = 0"
proof -
  obtain scores y c where g: "get_detector_data_and_scores env ms name df = Inr (scores, y)" and cal: "map_of cals name = Some c"
    and fit: "case fit (map (\<lambda>(i, x). x + noise name i) (List.enumerate 0 scores)) (map of_int y) of
        Inr c' \<Rightarrow> c = c' | Inl _ \<Rightarrow> fit [0, 1] [0, 1] = Inr c"
    using fit_calibrators_at [of env ms fit noise df detector_names "[]" cals name] assms(3,4)
    by (auto simp: run_calibration_def detector_names_def)
  let ?xs = "map (\<lambda>(i, x). x + noise name i) (List.enumerate 0 scores)"
  have y: "y = map (calib_target name) (test_split df)" and len: "length scores = length (test_split df)"
    using g assms(4) by (auto simp: get_detector_data_and_scores_def bind_result_Inr dest: length_map_result)
  have "?xs \<noteq> [] \<and> length ?xs = length (map of_int y :: real list)"
    using test_split_nonempty [OF assms(2)] len y by (auto simp: enumerate_eq_zip)
  with assms(1) obtain c' where c': "fit ?xs (map of_int y) = Inr c'"
    "\<And>x. \<exists>v. c' x = Inr v \<and> (\<exists>lo\<in>set (map of_int y). lo \<le> v) \<and> (\<exists>hi\<in>set (map of_int y). v \<le> hi)"
    unfolding iso_ok_def by blast
  have zero: "v = 0" if "v \<in> set (map real_of_int y)" for v
    using that assms(5) test_split_subset by (force simp: y)
  obtain v where "c' raw = Inr v" "v = 0" using c'(2) [of raw] zero by (metis order_antisym)
  then show ?thesis using fit c'(1) by (simp add: calibrated_def cal)
qed

text \<open>
  C20. Calibration silences two detectors: the training captures hold no reconnaissance and no
  exfiltration attack, so all their targets are 0, and with any isotonic regression fitted to the
  generated table every reconnaissance and exfiltration alert gets confidence 0 and the lowest
  severity, however high the detector's score was.
\<close>

theorem calibration_silences_recon_and_exfil:
  assumes "iso_ok fit" and "build_dataset env data = Some (Inr df)" and "df \<noteq> []"
    and "run_calibration env ms fit noise df = Inr cals" and "name \<in> {''recon'', ''exfil''}"
    and "normalize cals i name raw fv expl fi t ws we = Inr a"
  shows "al_confidence a = 0 \<and> al_severity a = LOW"
proof -
  have n: "calib_type name = ''Recon'' \<or> calib_type name = ''Exfil''" "name \<noteq> ''encrypted''"
    using assms(5) by (elim insertE emptyE; simp add: calib_type_def)+
  have "calib_target name r = 0" if "r \<in> set df" for r
    using build_dataset_types [OF assms(2) that]
  proof
    assume ty: "tr_attack_type r \<in> {''DDoS'', ''Beaconing'', ''DGA''}"
    then have "tr_attack_type r \<noteq> ''Benign''" "tr_attack_type r \<noteq> ''Recon''" "tr_attack_type r \<noteq> ''Exfil''"
      by (elim insertE emptyE; simp)+
    with n show ?thesis by (auto simp: calib_target_def)
  qed (simp add: calib_target_def)
  moreover have "name \<in> set detector_names" using assms(5) by (auto simp: detector_names_def)
  ultimately have "calibrated cals name raw = 0" using calibrated_zero [OF assms(1,3,4)] by blast
  then show ?thesis
    using assms(6) unfolding normalize_def Let_def
    by (cases "make_flow_id fi") (auto simp only: sum.case sum.inject sum.distinct alert.simps get_severity_def, simp_all)
qed

text \<open>A regression that always predicts the least target, and a table of one benign packet.\<close>

definition least_fit :: "real list \<Rightarrow> real list \<Rightarrow> calibrator result" where
  "least_fit xs ys = (if ys = [] then Inl ValueError else Inr (\<lambda>_. Inr (Min (set ys))))"

lemma least_fit_ok: "iso_ok least_fit"
  unfolding iso_ok_def
proof (intro allI impI)
  fix xs ys :: "real list"
  assume "xs \<noteq> [] \<and> length xs = length ys"
  then have ne: "ys \<noteq> []" by auto
  then have min: "Min (set ys) \<in> set ys" by simp
  have eq: "least_fit xs ys = Inr (\<lambda>_. Inr (Min (set ys)))" using ne by (simp add: least_fit_def)
  show "\<exists>c. least_fit xs ys = Inr c \<and> (\<forall>x. \<exists>v. c x = Inr v \<and> (\<exists>lo\<in>set ys. lo \<le> v) \<and> (\<exists>hi\<in>set ys. v \<le> hi))"
    by (intro exI conjI allI, rule eq, rule refl, (rule bexI [OF order_refl min])+)
qed

definition one_capture :: "string \<Rightarrow> packet option list option" where
  "one_capture f = (if f = ''benign.pcap'' then Some [Some (5, [0x45]), None] else None)"

lemma one_capture_table: "\<exists>r. build_dataset syn_env one_capture = Some (Inr [r])"
  by (simp add: build_dataset_def train_captures_def extract_features_to_df_def one_capture_def syn_env_parses Let_def)

lemma no_model_scores:
  assumes "name \<in> set detector_names"
  shows "\<exists>p. run_detector env no_models name (calib_vec name row) = Inr p"
proof -
  have none: "model_ok None" by (simp add: model_ok_def)
  have any: "\<exists>a b c. ddos_predict None v = Inr (a, b, c)" "\<exists>a b c. beaconing_predict None v = Inr (a, b, c)" "\<exists>a b c. dga_predict None v = Inr (a, b, c)"
    "\<exists>a b c. recon_predict None v = Inr (a, b, c)" "\<exists>a b c. exfil_predict None v = Inr (a, b, c)"
    "\<exists>a b c. encrypted_predict (pe_mean env) (pe_var env) None w = Inr (a, b, c)" for v w
    using ddos_det.verdict [OF none, of v] beaconing_det.verdict [OF none, of v] dga_det.verdict [OF none, of v]
      recon_det.verdict [OF none, of v] exfil_det.verdict [OF none, of v]
      encrypted_det.verdict [OF none, of "pe_mean env" "pe_var env" w] by blast+
  from assms show ?thesis unfolding detector_names_def list.set
    by (elim insertE emptyE) (simp_all add: calib_vec_def no_models_def any)
qed

lemma no_model_calibration:
  assumes "set names \<subseteq> set detector_names"
  shows "\<exists>cals'. fit_calibrators env no_models least_fit noise [r] names cals = Inr cals'"
  using assms
proof (induction names arbitrary: cals)
  case (Cons name names)
  have split: "test_split [r] = [r]" by (simp add: test_split_def py_int_def)
  obtain score used expl where "run_detector env no_models name (calib_vec name r) = Inr (score, used, expl)"
    using no_model_scores [of name env r] Cons.prems by auto
  then have "get_detector_data_and_scores env no_models name [r] = Inr ([score], [calib_target name r])"
    using Cons.prems by (simp add: get_detector_data_and_scores_def split)
  with Cons show ?case by (simp add: least_fit_def)
qed simp

theorem calibration_silences_recon_and_exfil_witness:
  "\<exists>df cals a. build_dataset syn_env one_capture = Some (Inr df) \<and> run_calibration syn_env no_models least_fit (\<lambda>_ _. 0) df = Inr cals
     \<and> normalize cals ''id'' ''recon'' (9 / 10) [] ''scan'' (meta_flow_info syn_meta) 5 None None = Inr a
     \<and> al_confidence a = 0 \<and> al_severity a = LOW"
proof -
  obtain r where df: "build_dataset syn_env one_capture = Some (Inr [r])" using one_capture_table by blast
  obtain cals where cals: "run_calibration syn_env no_models least_fit (\<lambda>_ _. 0) [r] = Inr cals"
    unfolding run_calibration_def using no_model_calibration by blast
  obtain a where a: "normalize cals ''id'' ''recon'' (9 / 10) [] ''scan'' (meta_flow_info syn_meta) 5 None None = Inr a"
    by (simp add: normalize_def make_flow_id_def meta_flow_info_def str_field_def syn_meta_def Let_def)
  have n: "''recon'' \<in> {''recon'', ''exfil''}" by simp
  from calibration_silences_recon_and_exfil [OF least_fit_ok df _ cals n a] df cals a show ?thesis by blast
qed

end
