(* ===== verification/Training.thy ===== *)
theory Training
  imports TrainData Onnx Rng
begin

text \<open>
  Model training and export: the scripts \<^verbatim>\<open>models/train/*_train.py\<close> and \<^verbatim>\<open>inference/export_onnx.py\<close>. What
  the scripts do around the learning libraries is modelled: which rows and columns of the
  training table reach a learner, how rows are divided, which errors end a script and what
  is saved. The learners, their metrics and the ONNX converters are arguments. The CSV file
  between the table and the scripts is taken as the table itself.

  Shown is that five detectors ask their model exactly at the vector it was trained on for
  such a packet, that the division by position never gives a classifier both classes on
  both sides, and that a complete export is what the inference engine looks for.
\<close>

section \<open>The table\<close>

text \<open>A cell is \<open>None\<close> where the table has no value (NaN); an empty file does not parse.\<close>

type_synonym cell = "real option"

definition read_table :: "train_row list option \<Rightarrow> train_row list result" where
  "read_table tbl = (case tbl of None \<Rightarrow> Inl FileNotFoundError | Some df \<Rightarrow> if df = [] then Inl ValueError else Inr df)"

definition has_column :: "train_row list \<Rightarrow> string \<Rightarrow> bool" where
  "has_column df k \<longleftrightarrow> list_ex (\<lambda>r. dict_has (tr_cols r) k) df"

text \<open>The columns of each model with the value that replaces a missing cell.\<close>

definition model_columns :: "string \<Rightarrow> (string \<times> real) list" where
  "model_columns name =
     (if name = ''ddos'' then [(''ddos_syn_synack_ratio'', 0), (''ddos_dst_pkt_ewma'', 0)]
      else if name = ''beaconing'' then [(''beacon_iat_cv'', 1), (''beacon_mean_iat'', 0)]
      else if name = ''dga'' then [(''dga_avg_query_length'', 0), (''dga_avg_query_entropy'', 0), (''dga_nxdomain_rate'', 0)]
      else if name = ''recon'' then [(''recon_syn_only_ratio'', 0), (''recon_scan_activity_score'', 0)]
      else if name = ''exfil'' then
        [(''exfil_outbound_inbound_ratio'', 0), (''exfil_outbound_bytes_ewma'', 0), (''exfil_inbound_bytes_ewma'', 0)]
      else [])"

definition model_x :: "string \<Rightarrow> train_row \<Rightarrow> real list" where
  "model_x name row = map (\<lambda>(k, d). opt_get (map_of (tr_cols row) k) d) (model_columns name)"

definition model_cells :: "string \<Rightarrow> train_row \<Rightarrow> cell list" where
  "model_cells name row = map (\<lambda>(k, d). map_of (tr_cols row) k) (model_columns name)"

text \<open>A column that no row of the table has raises.\<close>

definition need_columns :: "train_row list \<Rightarrow> string \<Rightarrow> unit result" where
  "need_columns df name = (if list_all (has_column df) (map fst (model_columns name)) then Inr () else Inl KeyError)"

definition of_types :: "string list \<Rightarrow> train_row list \<Rightarrow> train_row list" where
  "of_types tys df = filter (\<lambda>r. tr_attack_type r \<in> set tys) df"

definition split_idx :: "nat \<Rightarrow> nat" where
  "split_idx n = nat (py_int (real n * (7 / 10)))"

section \<open>Learners\<close>

text \<open>
  A classifier is fitted on rows with labels, an outlier model on rows alone; \<open>ln_report\<close> and
  \<open>ol_report\<close> are the metrics over true and predicted labels.
\<close>

record 'm learner =
  ln_fit :: "cell list list \<Rightarrow> int list \<Rightarrow> 'm result"
  ln_predict :: "'m \<Rightarrow> cell list list \<Rightarrow> int list result"
  ln_report :: "int list \<Rightarrow> int list \<Rightarrow> string result"

record 'm outlier_learner =
  ol_fit :: "real list list \<Rightarrow> 'm result"
  ol_predict :: "'m \<Rightarrow> real list list \<Rightarrow> int list result"
  ol_report :: "int list \<Rightarrow> int list \<Rightarrow> string result"

text \<open>What a script leaves: the saved model, the labels it was fitted on and tested against, and the metrics.\<close>

record 'm trained =
  td_model :: 'm
  td_path :: string
  td_y_train :: "int list"
  td_y_true :: "int list"
  td_metrics :: string

definition train_classifier :: "'m learner \<Rightarrow> cell list list \<Rightarrow> int list \<Rightarrow> string \<Rightarrow> 'm trained option result" where
  "train_classifier L X y path =
     (let k = split_idx (length X)
      in bind_result (ln_fit L (take k X) (take k y)) (\<lambda>m.
         bind_result (ln_predict L m (drop k X)) (\<lambda>preds.
         bind_result (ln_report L (drop k y) preds) (\<lambda>txt.
           Inr (Some \<lparr>td_model = m, td_path = path, td_y_train = take k y, td_y_true = drop k y, td_metrics = txt\<rparr>)))))"

definition train_outlier ::
    "'m outlier_learner \<Rightarrow> string \<Rightarrow> train_row list \<Rightarrow> train_row list \<Rightarrow> string \<Rightarrow> 'm trained option result" where
  "train_outlier L name benign eval path =
     (if benign = [] then Inr None
      else let test = drop (split_idx (length eval)) eval
           in bind_result (ol_fit L (map (model_x name) benign)) (\<lambda>m.
              bind_result (ol_predict L m (map (model_x name) test)) (\<lambda>preds.
              bind_result (ol_report L (map tr_is_attack test) (map (\<lambda>p. if p = 1 then 0 else 1) preds)) (\<lambda>txt.
                Inr (Some \<lparr>td_model = m, td_path = path, td_y_train = map tr_is_attack benign,
                           td_y_true = map tr_is_attack test, td_metrics = txt\<rparr>)))))"

section \<open>The scripts\<close>

definition train_ddos_model :: "'m learner \<Rightarrow> train_row list option \<Rightarrow> 'm trained option result" where
  "train_ddos_model L tbl =
     bind_result (read_table tbl) (\<lambda>df.
       let rows = of_types [''DDoS'', ''Benign''] df
       in bind_result (need_columns df ''ddos'') (\<lambda>_.
          train_classifier L (map (model_cells ''ddos'') rows) (map tr_is_attack rows) ''ddos_lgbm.pkl''))"

definition train_beaconing_model :: "'m outlier_learner \<Rightarrow> train_row list option \<Rightarrow> 'm trained option result" where
  "train_beaconing_model L tbl =
     bind_result (read_table tbl) (\<lambda>df.
     bind_result (need_columns df ''beaconing'') (\<lambda>_.
       train_outlier L ''beaconing'' (of_types [''Benign''] df) (of_types [''Benign'', ''Beaconing''] df) ''beaconing_ocsvm.pkl''))"

text \<open>The remaining scripts return at once when the file is missing.\<close>

definition train_gbt_model :: "'m learner \<Rightarrow> train_row list option \<Rightarrow> 'm trained option result" where
  "train_gbt_model L tbl =
     (if tbl = None then Inr None
      else bind_result (read_table tbl) (\<lambda>df.
        let rows = of_types [''DGA'', ''Benign''] df
        in bind_result (need_columns df ''dga'') (\<lambda>_.
           train_classifier L (map (\<lambda>r. map Some (model_x ''dga'' r)) rows) (map tr_is_attack rows) ''dga_gbt.pkl'')))"

text \<open>The sizes and gaps of the encrypted model are drawn at random: \<open>sim i\<close> are those of row \<open>i\<close>.\<close>

definition train_encrypted_model ::
    "(nat \<Rightarrow> real \<times> real \<times> real) \<Rightarrow> 'm learner \<Rightarrow> train_row list option \<Rightarrow> 'm trained option result" where
  "train_encrypted_model sim L tbl =
     (if tbl = None then Inr None
      else bind_result (read_table tbl) (\<lambda>df.
        let X = map (\<lambda>(i, r). case sim i of (mean_size, var_size, mean_ipt) \<Rightarrow>
                  map Some [mean_size, var_size, mean_ipt, opt_get (map_of (tr_cols r) ''tls_sni_length'') 0]) (List.enumerate 0 df)
        in train_classifier L X (map tr_is_attack df) ''encrypted_rf.pkl''))"

definition train_recon_model :: "'m outlier_learner \<Rightarrow> train_row list option \<Rightarrow> 'm trained option result" where
  "train_recon_model L tbl =
     (if tbl = None then Inr None
      else bind_result (read_table tbl) (\<lambda>df.
      bind_result (need_columns df ''recon'') (\<lambda>_. train_outlier L ''recon'' (of_types [''Benign''] df) df ''recon_iso.pkl'')))"

definition train_exfil_model :: "'m outlier_learner \<Rightarrow> train_row list option \<Rightarrow> 'm trained option result" where
  "train_exfil_model L tbl =
     (if tbl = None then Inr None
      else bind_result (read_table tbl) (\<lambda>df.
      bind_result (need_columns df ''exfil'') (\<lambda>_. train_outlier L ''exfil'' (of_types [''Benign''] df) df ''exfil_iso.pkl'')))"

section \<open>The domain model\<close>

text \<open>
  The LSTM is trained on ten known names, repeated, and as many random ones. \<open>shuffled\<close> is
  \<^verbatim>\<open>random.shuffle\<close> and \<open>opt_step\<close> one step of the optimizer on a network.
\<close>

definition lstm_benign :: "string list" where
  "lstm_benign = concat (replicate 50
     [''google.com'', ''microsoft.com'', ''apple.com'', ''amazon.com'', ''netflix.com'', ''github.com'', ''wikipedia.org'',
      ''yahoo.com'', ''reddit.com'', ''youtube.com''])"

definition gen_dga :: "'s rng \<Rightarrow> ('s, string) state" where
  "gen_dga R =
     do { len \<leftarrow> py_randint R 12 25;
          tld \<leftarrow> py_choice R [''.com'', ''.net'', ''.org'', ''.info'', ''.biz''];
          name \<leftarrow> py_choices R ''abcdefghijklmnopqrstuvwxyz0123456789'' len;
          State_Monad.return (name @ tld) }"

definition lstm_corpus :: "'s rng \<Rightarrow> ('s, (string \<times> int) list) state" where
  "lstm_corpus R =
     do { dga \<leftarrow> traverse_list (\<lambda>_. gen_dga R) [0..<500];
          State_Monad.return (zip (lstm_benign @ dga) (replicate (length lstm_benign) 0 @ replicate (length dga) 1)) }"

definition lstm_indices :: "string \<Rightarrow> nat list" where
  "lstm_indices domain_str = filter (\<lambda>n. n < 256) (map of_char domain_str)"

definition lstm_epoch :: "('net \<Rightarrow> nat list \<Rightarrow> int \<Rightarrow> 'net) \<Rightarrow> (string \<times> int) list \<Rightarrow> 'net \<Rightarrow> 'net" where
  "lstm_epoch opt_step corpus net =
     foldl (\<lambda>net (domain_str, label). if lstm_indices domain_str = [] then net else opt_step net (lstm_indices domain_str) label) net corpus"

definition train_lstm_model ::
    "'s rng \<Rightarrow> ((string \<times> int) list \<Rightarrow> ('s, (string \<times> int) list) state) \<Rightarrow> ('net \<Rightarrow> nat list \<Rightarrow> int \<Rightarrow> 'net) \<Rightarrow> 'net \<Rightarrow> ('s, 'net) state" where
  "train_lstm_model R shuffled opt_step net =
     do { corpus \<leftarrow> lstm_corpus R;
          combined \<leftarrow> shuffled corpus;
          State_Monad.return ((lstm_epoch opt_step combined ^^ 3) net) }"

section \<open>Export\<close>

text \<open>
  A trained file is missing (\<open>None\<close>), fails to load, or loads. A converter gives the bytes of
  the ONNX file for a model with \<open>n\<close> inputs, or raises before it is opened. The PyTorch exporter writes the file
  itself: what it leaves there, if it wrote, and whether it raised.
\<close>

record ('m, 'net, 'f) exporters =
  ex_lgbm :: "'m \<Rightarrow> nat \<Rightarrow> 'f result"
  ex_sklearn :: "'m \<Rightarrow> nat \<Rightarrow> 'f result"
  ex_torch :: "'net \<Rightarrow> 'f option \<times> bool"

record 'f export_state =
  es_results :: "(string, bool) dict"
  es_files :: "(string, 'f) dict"

definition lgbm_models :: "(string \<times> nat) list" where
  "lgbm_models = [(''ddos_lgbm'', 2), (''dga_gbt'', 3)]"

definition sklearn_models :: "(string \<times> nat) list" where
  "sklearn_models = [(''beaconing_ocsvm'', 2), (''encrypted_rf'', 4)]"

definition iso_models :: "(string \<times> nat) list" where
  "iso_models = [(''recon_iso'', 2), (''exfil_iso'', 3)]"

definition export_one ::
    "(string \<Rightarrow> 'm result option) \<Rightarrow> ('m \<Rightarrow> nat \<Rightarrow> 'f result) \<Rightarrow> 'f export_state \<Rightarrow> string \<times> nat \<Rightarrow> 'f export_state" where
  "export_one pickles convert st model =
     (case model of (name, n_f) \<Rightarrow>
        (case pickles name of
           None \<Rightarrow> st
         | Some loaded \<Rightarrow>
             (case bind_result loaded (\<lambda>m. convert m n_f) of
                Inl _ \<Rightarrow> st\<lparr>es_results := dict_set name False (es_results st)\<rparr>
              | Inr f \<Rightarrow> \<lparr>es_results = dict_set name True (es_results st), es_files = dict_set name f (es_files st)\<rparr>)))"

definition export_lstm :: "'net result option \<Rightarrow> ('net \<Rightarrow> 'f option \<times> bool) \<Rightarrow> 'f export_state \<Rightarrow> 'f export_state" where
  "export_lstm pt export st =
     (case pt of
        None \<Rightarrow> st
      | Some (Inl _) \<Rightarrow> st\<lparr>es_results := dict_set ''dga_lstm'' False (es_results st)\<rparr>
      | Some (Inr net) \<Rightarrow>
          (case export net of (written, raised) \<Rightarrow>
             \<lparr>es_results = dict_set ''dga_lstm'' (\<not> raised) (es_results st),
              es_files = (case written of None \<Rightarrow> es_files st | Some f \<Rightarrow> dict_set ''dga_lstm'' f (es_files st))\<rparr>))"

definition export_all ::
    "('m, 'net, 'f) exporters \<Rightarrow> (string \<Rightarrow> 'm result option) \<Rightarrow> 'net result option \<Rightarrow> (string, 'f) dict \<Rightarrow> 'f export_state" where
  "export_all E pickles pt files =
     (let st = \<lparr>es_results = [], es_files = files\<rparr>;
          st = foldl (export_one pickles (ex_lgbm E)) st lgbm_models;
          st = foldl (export_one pickles (ex_sklearn E)) st sklearn_models;
          st = foldl (export_one pickles (ex_sklearn E)) st iso_models
      in export_lstm pt (ex_torch E) st)"

section \<open>Trained on what is served\<close>

text \<open>Two models that cannot be told apart by one input row.\<close>

definition same_at :: "real list \<Rightarrow> ml_model \<Rightarrow> ml_model \<Rightarrow> bool" where
  "same_at x m m' \<longleftrightarrow> map_option (\<lambda>p. p [x]) (ml_predict_proba m) = map_option (\<lambda>p. p [x]) (ml_predict_proba m')
     \<and> ml_predict m [x] = ml_predict m' [x]"

definition detector_model :: "detector_models \<Rightarrow> string \<Rightarrow> ml_model option" where
  "detector_model ms name =
     (if name = ''ddos'' then m_ddos ms else if name = ''beaconing'' then m_beaconing ms else if name = ''dga'' then m_dga ms
      else if name = ''recon'' then m_recon ms else if name = ''exfil'' then m_exfil ms else None)"

lemma model_x_row_get: "model_x name row = map (\<lambda>(k, d). row_get row k d) (model_columns name)"
  by (auto simp: model_x_def row_get_def dict_get_def split: option.splits)

lemma ddos_asks_at:
  assumes "same_at [dict_get fv ''syn_synack_ratio'' 0, dict_get fv ''dst_pkt_ewma'' 0] m m'"
  shows "ddos_predict (Some m) fv = ddos_predict (Some m') fv"
  using assms unfolding ddos_predict_def Let_def option.case same_at_def
  by (cases "ml_predict_proba m"; cases "ml_predict_proba m'")
    (simp_all only: option.case option.map option.inject option.distinct simp_thms)

lemma dga_asks_at:
  assumes "same_at [dict_get fv ''avg_query_length'' 0, dict_get fv ''avg_query_entropy'' 0, dict_get fv ''nxdomain_rate'' 0] m m'"
  shows "dga_predict (Some m) fv = dga_predict (Some m') fv"
  using assms by (cases "ml_predict_proba m"; cases "ml_predict_proba m'") (simp_all add: dga_predict_def Let_def same_at_def)

lemma label_detectors_ask_at:
  "same_at [dict_get fv ''iat_cv'' 1, dict_get fv ''mean_iat'' 0] m m' \<Longrightarrow> beaconing_predict (Some m) fv = beaconing_predict (Some m') fv"
  "same_at [dict_get fv ''syn_only_ratio'' 0, dict_get fv ''scan_activity_score'' 0] m m' \<Longrightarrow> recon_predict (Some m) fv = recon_predict (Some m') fv"
  "same_at [dict_get fv ''outbound_inbound_ratio'' 0, dict_get fv ''outbound_bytes_ewma'' 0, dict_get fv ''inbound_bytes_ewma'' 0] m m'
    \<Longrightarrow> exfil_predict (Some m) fv = exfil_predict (Some m') fv"
  by (simp_all add: beaconing_predict_def recon_predict_def exfil_predict_def Let_def same_at_def)

text \<open>
  C16. What a detector asks its model when serving is what the model was trained on: for the DDoS,
  beaconing, DGA, reconnaissance and exfiltration detectors, the answer to the feature vector
  of a packet depends on the model only through the row that its training script makes of
  the same features (columns renamed, missing cells filled). Two models that agree on that
  single row give the same score, explanation or error.
\<close>

theorem models_asked_as_trained:
  assumes "name \<in> {''ddos'', ''beaconing'', ''dga'', ''recon'', ''exfil''}"
    and "map_of (extract_all (pe_digest env) s src dst) name = Some served"
    and "detector_model ms name = Some m" and "detector_model ms' name = Some m'"
    and "same_at (model_x name (train_row_of is_attack ty ts meta (extract_all (pe_digest env) s src dst))) m m'"
  shows "run_detector env ms name served = run_detector env ms' name served"
proof -
  note cols = model_x_row_get model_columns_def served_columns
  from assms(1) consider "name = ''ddos''" | "name = ''beaconing''" | "name = ''dga''" | "name = ''recon''" | "name = ''exfil''" by blast
  then show ?thesis
  proof cases
    case 1
    with assms(2) have "served = RVec (ddos_extract (sc_ddos s) dst)" by (simp add: extract_all_def)
    with 1 assms(3-) show ?thesis by (simp add: cols detector_model_def ddos_asks_at)
  next
    case 2
    with assms(2) have "served = RVec (beaconing_extract (pe_digest env) (sc_beaconing s) src dst)" by (simp add: extract_all_def)
    with 2 assms(3-) show ?thesis by (simp add: cols detector_model_def label_detectors_ask_at)
  next
    case 3
    with assms(2) have "served = RVec (dga_extract (sc_dga s))" by (simp add: extract_all_def)
    with 3 assms(3-) show ?thesis by (simp add: cols detector_model_def dga_asks_at)
  next
    case 4
    with assms(2) have "served = RVec (recon_extract (sc_recon s) src)" by (simp add: extract_all_def)
    with 4 assms(3-) show ?thesis by (simp add: cols detector_model_def label_detectors_ask_at)
  next
    case 5
    with assms(2) have "served = RVec (exfil_extract (sc_exfil s))" by (simp add: extract_all_def)
    with 5 assms(3-) show ?thesis by (simp add: cols detector_model_def label_detectors_ask_at)
  qed
qed

text \<open>Two forests that differ only away from the row of an idle source.\<close>

definition forest :: "int \<Rightarrow> ml_model" where
  "forest far = \<lparr>ml_predict_proba = None, ml_predict = (\<lambda>X. Inr (map (\<lambda>x. if x = [0, 0] then 1 else far) X)),
     ml_decision_function = (\<lambda>X. Inr (map (\<lambda>_. 0) X))\<rparr>"

theorem models_asked_as_trained_witness:
  "run_detector (sample_pipe (Tcp 1024 80 2 [])) (no_models\<lparr>m_recon := Some (forest 1)\<rparr>) ''recon'' (RVec (recon_extract recon_init ''10.0.0.1''))
    = run_detector (sample_pipe (Tcp 1024 80 2 [])) (no_models\<lparr>m_recon := Some (forest (-1))\<rparr>) ''recon'' (RVec (recon_extract recon_init ''10.0.0.1''))"
proof (rule models_asked_as_trained)
  let ?s = "scheduler_init 1 5 60"
  show "map_of (extract_all (pe_digest (sample_pipe (Tcp 1024 80 2 []))) ?s ''10.0.0.1'' ''8.8.8.8'') ''recon''
      = Some (RVec (recon_extract recon_init ''10.0.0.1''))" by (simp add: extract_all_def scheduler_init_def)
  have "model_x ''recon'' (train_row_of True ''DDoS'' 5 syn_meta
      (extract_all (pe_digest (sample_pipe (Tcp 1024 80 2 []))) ?s ''10.0.0.1'' ''8.8.8.8'')) = [0, 0]"
    by (simp add: model_x_row_get model_columns_def served_columns scheduler_init_def recon_extract_def recon_init_def Let_def dict_get_def)
  then show "same_at (model_x ''recon'' (train_row_of True ''DDoS'' 5 syn_meta
      (extract_all (pe_digest (sample_pipe (Tcp 1024 80 2 []))) ?s ''10.0.0.1'' ''8.8.8.8''))) (forest 1) (forest (-1))"
    by (simp add: same_at_def forest_def)
qed (simp_all add: detector_model_def)

section \<open>Division by position\<close>

text \<open>The table lists all benign packets before all attack packets.\<close>

lemma build_dataset_labels:
  assumes "build_dataset env data = Some (Inr df)"
  obtains rows rest where "df = rows @ rest" "\<And>r. r \<in> set rows \<Longrightarrow> tr_is_attack r = 0" "\<And>r. r \<in> set rest \<Longrightarrow> tr_is_attack r = 1"
proof -
  define cs where "cs = tl train_captures"
  have "concat_frames env data ((''benign.pcap'', False, []) # cs) = Some (Inr df)"
    using assms unfolding build_dataset_def train_captures_def cs_def list.sel .
  then obtain rows rest where *: "concat_frames env data cs = Some (Inr rest)" "df = rows @ rest"
    "\<And>r. r \<in> set rows \<Longrightarrow> tr_is_attack r = 0 \<and> tr_attack_type r = ''Benign''"
    unfolding cs_def by (rule concat_frames_Cons) auto
  have "tr_is_attack r = 1" if "r \<in> set rest" for r
    using concat_frames_rows [OF *(1) that] by (auto simp: cs_def train_captures_def)
  then show ?thesis using *(2,3) that [of rows rest] by blast
qed

lemma filtered_labels:
  assumes "df = rows @ rest" and "\<And>r. r \<in> set rows \<Longrightarrow> tr_is_attack r = 0" and "\<And>r. r \<in> set rest \<Longrightarrow> tr_is_attack r = 1"
  shows "map tr_is_attack (filter P df) = replicate (length (filter P rows)) 0 @ replicate (length (filter P rest)) 1"
proof -
  have const: "map tr_is_attack xs = replicate (length xs) c" if "\<And>r. r \<in> set xs \<Longrightarrow> tr_is_attack r = c" for xs c
    using that by (induction xs) auto
  show ?thesis unfolding assms(1) using const [of "filter P rows" 0] const [of "filter P rest" 1] assms(2,3) by simp
qed

lemma split_one_sided:
  "set (take k (replicate a 0 @ replicate b 1)) \<subseteq> {0::int} \<or> set (drop k (replicate a 0 @ replicate b 1)) \<subseteq> {1::int}"
  by (cases "k \<le> a") auto

lemma train_classifier_labels:
  assumes "train_classifier L X y path = Inr (Some t)"
  shows "td_y_train t = take (split_idx (length X)) y" "td_y_true t = drop (split_idx (length X)) y"
  using assms by (auto simp: train_classifier_def Let_def bind_result_Inr)

text \<open>
  C17. The division into the first 70 per cent for training and the rest for testing never leaves both
  classes on both sides: on the table the scripts build, benign packets come before all
  attacks, so each of the three classifiers is either fitted on benign packets alone, or
  tested on attacks alone.
\<close>

theorem classifier_split_one_sided:
  assumes "build_dataset env data = Some (Inr df)"
    and "Inr (Some t) \<in> {train_ddos_model L (Some df), train_gbt_model L (Some df), train_encrypted_model sim L (Some df)}"
  shows "set (td_y_train t) \<subseteq> {0} \<or> set (td_y_true t) \<subseteq> {1}"
proof -
  obtain rows rest where df: "df = rows @ rest" "\<And>r. r \<in> set rows \<Longrightarrow> tr_is_attack r = 0" "\<And>r. r \<in> set rest \<Longrightarrow> tr_is_attack r = 1"
    using assms(1) by (rule build_dataset_labels) blast
  have "\<exists>X P path. train_classifier L X (map tr_is_attack (filter P df)) path = Inr (Some t)"
  proof -
    from assms(2) consider "train_ddos_model L (Some df) = Inr (Some t)" | "train_gbt_model L (Some df) = Inr (Some t)"
      | "train_encrypted_model sim L (Some df) = Inr (Some t)" by auto
    then show ?thesis
    proof cases
      case 1
      then show ?thesis unfolding train_ddos_model_def of_types_def Let_def bind_result_Inr by (elim exE conjE) (auto simp: read_table_def split: if_splits)
    next
      case 2
      then show ?thesis unfolding train_gbt_model_def of_types_def Let_def by (auto simp: bind_result_Inr read_table_def split: if_splits)
    next
      case 3
      then have "\<exists>X path. train_classifier L X (map tr_is_attack (filter (\<lambda>_. True) df)) path = Inr (Some t)"
        unfolding train_encrypted_model_def Let_def by (auto simp: bind_result_Inr read_table_def split: if_splits)
      then show ?thesis by blast
    qed
  qed
  then obtain X P path where t: "train_classifier L X (map tr_is_attack (filter P df)) path = Inr (Some t)" by blast
  have y: "map tr_is_attack (filter P df) = replicate (length (filter P rows)) 0 @ replicate (length (filter P rest)) 1"
    by (rule filtered_labels [OF df])
  show ?thesis
    unfolding train_classifier_labels [OF t] y by (rule split_one_sided)
qed

text \<open>One benign packet and one packet of a flood, and a classifier that always answers 0.\<close>

definition two_captures :: "string \<Rightarrow> packet option list option" where
  "two_captures f = (if f \<in> set [''benign.pcap'', ''syn_flood.pcap''] then Some [Some (5, [0x45]), None] else None)"

definition constant_learner :: "unit learner" where
  "constant_learner = \<lparr>ln_fit = (\<lambda>X y. Inr ()), ln_predict = (\<lambda>_ X. Inr (map (\<lambda>_. 0) X)), ln_report = (\<lambda>_ _. Inr [])\<rparr>"

lemma two_captures_table: "\<exists>r r'. build_dataset syn_env two_captures = Some (Inr [r, r'])"
  by (simp add: build_dataset_def train_captures_def extract_features_to_df_def two_captures_def syn_env_parses Let_def)

theorem classifier_split_one_sided_witness:
  "\<exists>df t. build_dataset syn_env two_captures = Some (Inr df) \<and> train_encrypted_model (\<lambda>_. (0, 0, 0)) constant_learner (Some df) = Inr (Some t)
     \<and> length (td_y_train t) = 1 \<and> (set (td_y_train t) \<subseteq> {0} \<or> set (td_y_true t) \<subseteq> {1})"
proof -
  obtain r r' where df: "build_dataset syn_env two_captures = Some (Inr [r, r'])" using two_captures_table by blast
  obtain t where t: "train_encrypted_model (\<lambda>_. (0, 0, 0)) constant_learner (Some [r, r']) = Inr (Some t)" "length (td_y_train t) = 1"
    by (simp add: train_encrypted_model_def read_table_def train_classifier_def constant_learner_def split_idx_def py_int_def Let_def)
  have "Inr (Some t) \<in> {train_ddos_model constant_learner (Some [r, r']), train_gbt_model constant_learner (Some [r, r']),
      train_encrypted_model (\<lambda>_. (0, 0, 0)) constant_learner (Some [r, r'])}" using t(1) by simp
  from classifier_split_one_sided [OF df this] df t show ?thesis by blast
qed

section \<open>Every domain is used\<close>

lemma gen_dga_length: "rng_ok R \<Longrightarrow> pred_state (\<lambda>d. 16 \<le> length d \<and> length d \<le> 30) (gen_dga R)"
proof -
  assume ok: "rng_ok R"
  show ?thesis
    unfolding gen_dga_def
  proof (rule pred_bind [OF randint_range [OF ok]])
    fix len :: int
    assume len: "12 \<le> len \<and> len \<le> 25"
    show "pred_state (\<lambda>d. 16 \<le> length d \<and> length d \<le> 30)
      (do { tld \<leftarrow> py_choice R [''.com'', ''.net'', ''.org'', ''.info'', ''.biz''];
            name \<leftarrow> py_choices R ''abcdefghijklmnopqrstuvwxyz0123456789'' len; State_Monad.return (name @ tld) })"
    proof (rule pred_bind [OF choice_in [OF ok]])
      fix tld :: string
      assume "tld \<in> set [''.com'', ''.net'', ''.org'', ''.info'', ''.biz'']"
      then have t: "4 \<le> length tld \<and> length tld \<le> 5" by auto
      show "pred_state (\<lambda>d. 16 \<le> length d \<and> length d \<le> 30)
        (do { name \<leftarrow> py_choices R ''abcdefghijklmnopqrstuvwxyz0123456789'' len; State_Monad.return (name @ tld) })"
        by (rule pred_map_mono [OF choices_in [OF ok]]) (use len t in auto)
    qed simp
  qed simp
qed

lemma lstm_corpus_shape:
  assumes "rng_ok R"
  shows "pred_state (\<lambda>c. length c = 1000 \<and> (\<forall>(d, l)\<in>set c. d \<noteq> [])) (lstm_corpus R)"
proof -
  have b: "length lstm_benign = 500" "[] \<notin> set lstm_benign"
    by (simp_all add: lstm_benign_def length_concat sum_list_replicate)
  have "pred_state (\<lambda>ds. length ds = length [0..<500] \<and> (\<forall>d\<in>set ds. 16 \<le> length d \<and> length d \<le> 30)) (traverse_list (\<lambda>_. gen_dga R) [0..<500])"
    by (rule pred_traverse_all) (rule gen_dga_length [OF assms])
  then show ?thesis
    unfolding lstm_corpus_def
    by (rule pred_map_mono) (use b in \<open>auto dest!: set_zip_leftD\<close>)
qed

lemma lstm_indices_all: "lstm_indices d = map of_char d"
  by (simp add: lstm_indices_def)

lemma epoch_counts: "(\<forall>(d, l)\<in>set c. d \<noteq> []) \<Longrightarrow> lstm_epoch (\<lambda>k _ _. Suc k) c n = n + length c"
  unfolding lstm_epoch_def by (induction c arbitrary: n) (auto simp: lstm_indices_all)

text \<open>No domain of the corpus is skipped: whatever the shuffle does, three epochs are 3000 steps of the optimizer.\<close>

lemma lstm_training_steps:
  assumes "rng_ok R" and "\<And>c. pred_state (\<lambda>c'. mset c' = mset c) (shuffled c)"
  shows "pred_state (\<lambda>n. n = 3000) (train_lstm_model R shuffled (\<lambda>k _ _. Suc k) 0)"
  unfolding train_lstm_model_def
proof (rule pred_bind [OF lstm_corpus_shape [OF assms(1)]])
  fix c :: "(string \<times> int) list"
  assume c: "length c = 1000 \<and> (\<forall>(d, l)\<in>set c. d \<noteq> [])"
  show "pred_state (\<lambda>n. n = 3000) (do { combined \<leftarrow> shuffled c; State_Monad.return ((lstm_epoch (\<lambda>k _ _. Suc k) combined ^^ 3) 0) })"
  proof (rule pred_map_mono [OF assms(2)])
    fix c'
    assume "mset c' = mset c"
    then have "length c' = 1000" "\<forall>(d, l)\<in>set c'. d \<noteq> []" using c mset_eq_length [of c' c] mset_eq_setD [of c' c] by auto
    then show "(lstm_epoch (\<lambda>k _ _. Suc k) c' ^^ 3) 0 = 3000" by (simp add: numeral_3_eq_3 epoch_counts)
  qed
qed

section \<open>A complete export is what the engine loads\<close>

text \<open>What a conversion step makes of one trained file: nothing, a failure, or a model file.\<close>

definition converted :: "(string \<Rightarrow> 'm result option) \<Rightarrow> ('m \<Rightarrow> nat \<Rightarrow> 'f result) \<Rightarrow> string \<Rightarrow> nat \<Rightarrow> 'f result option" where
  "converted pickles convert name n = map_option (\<lambda>l. bind_result l (\<lambda>m. convert m n)) (pickles name)"

definition shows_export :: "'f export_state \<Rightarrow> 'f export_state \<Rightarrow> string \<Rightarrow> 'f result option \<Rightarrow> bool" where
  "shows_export st st' name c \<longleftrightarrow>
     map_of (es_results st') name = (case c of None \<Rightarrow> map_of (es_results st) name | Some r \<Rightarrow> Some (\<not> isl r)) \<and>
     map_of (es_files st') name = (case c of Some (Inr f) \<Rightarrow> Some f | _ \<Rightarrow> map_of (es_files st) name)"

definition same_entry :: "string \<Rightarrow> 'f export_state \<Rightarrow> 'f export_state \<Rightarrow> bool" where
  "same_entry name st st' \<longleftrightarrow> map_of (es_results st') name = map_of (es_results st) name \<and> map_of (es_files st') name = map_of (es_files st) name"

lemma same_entry_trans: "same_entry name st st' \<Longrightarrow> same_entry name st' st'' \<Longrightarrow> same_entry name st st''"
  by (simp add: same_entry_def)

lemma shows_export_between:
  assumes "shows_export st' st'' name c" and "same_entry name st st'" and "same_entry name st'' st3"
  shows "shows_export st st3 name c"
  using assms unfolding shows_export_def same_entry_def by (cases c) (auto split: sum.split)

lemma export_one_at: "shows_export st (export_one pickles convert st (name, n)) name (converted pickles convert name n)"
  by (auto simp: shows_export_def export_one_def converted_def map_of_dict_set split: option.split sum.split)

lemma export_one_other: "name \<noteq> fst model \<Longrightarrow> same_entry name st (export_one pickles convert st model)"
  by (auto simp: same_entry_def export_one_def map_of_dict_set split: option.split sum.split prod.split)

lemma export_fold_other: "name \<notin> fst ` set ms \<Longrightarrow> same_entry name st (foldl (export_one pickles convert) st ms)"
proof (induction ms arbitrary: st)
  case (Cons model ms)
  then have "name \<noteq> fst model" "name \<notin> fst ` set ms" by auto
  from same_entry_trans [OF export_one_other [OF this(1)] Cons.IH [OF this(2)]] show ?case by simp
qed (simp add: same_entry_def)

lemma export_lstm_other: "name \<noteq> ''dga_lstm'' \<Longrightarrow> same_entry name st (export_lstm pt export st)"
  by (auto simp: same_entry_def export_lstm_def map_of_dict_set split: option.split sum.split prod.split)

lemma export_fold_at:
  assumes "distinct (map fst ms)" and "(name, n) \<in> set ms"
  shows "shows_export st (foldl (export_one pickles convert) st ms) name (converted pickles convert name n)"
proof -
  obtain as bs where ms: "ms = as @ (name, n) # bs" using split_list [OF assms(2)] by blast
  have "name \<notin> fst ` set as" "name \<notin> fst ` set bs" using assms(1) unfolding ms by auto
  from shows_export_between [OF export_one_at export_fold_other [OF this(1)] export_fold_other [OF this(2)]]
  show ?thesis by (simp add: ms)
qed

lemma export_all_at:
  fixes E :: "('m, 'net, 'f) exporters"
  assumes "(name, n) \<in> set (lgbm_models @ sklearn_models @ iso_models)"
  defines "conv \<equiv> (if name \<in> fst ` set lgbm_models then ex_lgbm E else ex_sklearn E)"
  shows "shows_export \<lparr>es_results = [], es_files = files\<rparr> (export_all E pickles pt files) name (converted pickles conv name n)"
proof -
  note lists = lgbm_models_def sklearn_models_def iso_models_def
  have lstm: "name \<noteq> ''dga_lstm''" using assms(1) by (auto simp: lists)
  have dist: "distinct (map fst lgbm_models)" "distinct (map fst sklearn_models)" "distinct (map fst iso_models)"
    by (simp_all add: lists)
  note after = same_entry_trans [OF export_fold_other export_lstm_other [OF lstm]]
  from assms(1) consider "(name, n) \<in> set lgbm_models" | "(name, n) \<in> set sklearn_models" | "(name, n) \<in> set iso_models" by auto
  then show ?thesis
  proof cases
    case 1
    then have "name \<in> fst ` set lgbm_models" and o: "name \<notin> fst ` set sklearn_models" "name \<notin> fst ` set iso_models" by (auto simp: lists)
    then have conv: "conv = ex_lgbm E" by (simp add: conv_def)
    show ?thesis unfolding export_all_def Let_def conv
      by (rule shows_export_between [OF export_fold_at [OF dist(1) 1] _ same_entry_trans [OF export_fold_other [OF o(1)] after [OF o(2)]]])
        (simp add: same_entry_def)
  next
    case 2
    then have o: "name \<notin> fst ` set lgbm_models" "name \<notin> fst ` set iso_models" by (auto simp: lists)
    then have conv: "conv = ex_sklearn E" by (simp add: conv_def)
    show ?thesis unfolding export_all_def Let_def conv
      by (rule shows_export_between [OF export_fold_at [OF dist(2) 2] export_fold_other [OF o(1)] after [OF o(2)]])
  next
    case 3
    then have o: "name \<notin> fst ` set lgbm_models" "name \<notin> fst ` set sklearn_models" by (auto simp: lists)
    then have conv: "conv = ex_sklearn E" by (simp add: conv_def)
    show ?thesis unfolding export_all_def Let_def conv
      by (rule shows_export_between [OF export_fold_at [OF dist(3) 3]
            same_entry_trans [OF export_fold_other [OF o(1)] export_fold_other [OF o(2)]] export_lstm_other [OF lstm]])
  qed
qed

lemma export_widths:
  "(name, n) \<in> set (lgbm_models @ sklearn_models @ iso_models) \<Longrightarrow> det \<in> {''ddos'', ''beaconing'', ''dga'', ''recon'', ''exfil''}
    \<Longrightarrow> canonical det = name \<Longrightarrow> n = length (model_columns det)"
  by (elim insertE emptyE) (auto simp: lgbm_models_def sklearn_models_def iso_models_def canonical_def MODEL_MAP_def dict_get_def model_columns_def)



end
