(* ===== verification/BatchExtract.thy ===== *)
theory BatchExtract
  imports FlowExport "HOL-Library.List_Lexorder" "HOL-Library.Char_ord"
begin

text \<open>
  The command line of the flow feature extraction, \<^verbatim>\<open>scripts/extract_features.py\<close>: one capture, or
  every capture below a directory. Paths are lists of components; the tables are those of
  \<open>extract_features\<close> in \<^verbatim>\<open>FlowExport\<close>, with the decoded captures and label files as arguments.

  Shown is which table each output file of a batch holds. A file is named after the directory
  of the capture, so that captures of one directory replace each other's tables.
\<close>

section \<open>The script\<close>

type_synonym path = "string list"

definition path_name :: "path \<Rightarrow> string" where
  "path_name p = (if p = [] then [] else last p)"

definition path_stem :: "path \<Rightarrow> string" where
  "path_stem p = (let n = path_name p; (ext, pre) = (takeWhile (\<lambda>c. c \<noteq> CHR ''.'') (rev n), dropWhile (\<lambda>c. c \<noteq> CHR ''.'') (rev n))
     in if length pre \<le> 1 \<or> ext = [] then n else rev (tl pre))"

text \<open>
  What the extraction finds on disk: the flows and packets of a capture as the two backends
  read them, and the label file of a path, \<open>None\<close> when there is none.
\<close>

record extract_env =
  xe_have :: "string \<Rightarrow> bool"
  xe_render :: "jval \<Rightarrow> string"
  xe_now :: real
  xe_flows :: "path \<Rightarrow> nf_flow list option"
  xe_pkts :: "path \<Rightarrow> scapy_pkt list option"
  xe_labels :: "path \<Rightarrow> jval option option"
  xe_fields :: "string list"

type_synonym csv_file = "string list \<times> flow_row list"

definition extract_path :: "extract_env \<Rightarrow> path \<Rightarrow> path option \<Rightarrow> string \<Rightarrow> flow_row list result" where
  "extract_path e pcap labels backend =
     extract_features (xe_have e) (xe_render e) (xe_now e) (xe_flows e pcap) (xe_pkts e pcap)
       (case labels of None \<Rightarrow> None | Some l \<Rightarrow> xe_labels e l) backend"

text \<open>The table one run writes; nothing for a capture without flows.\<close>

definition save_rows :: "extract_env \<Rightarrow> path \<Rightarrow> flow_row list \<Rightarrow> (path, csv_file) dict \<Rightarrow> (path, csv_file) dict" where
  "save_rows e out rows files = (case write_csv (xe_fields e) rows of None \<Rightarrow> files | Some t \<Rightarrow> dict_set out t files)"

definition label_path :: "extract_env \<Rightarrow> path \<Rightarrow> path option" where
  "label_path e pcap = (let l = butlast pcap @ [''labels.json''] in if xe_labels e l \<noteq> None then Some l else None)"

definition out_file :: "path \<Rightarrow> path \<Rightarrow> path" where
  "out_file output_dir pcap = output_dir @ [path_name (butlast pcap) @ ''_features.csv'']"

definition batch_one :: "extract_env \<Rightarrow> path \<Rightarrow> string \<Rightarrow> (path, csv_file) dict \<Rightarrow> path \<Rightarrow> (path, csv_file) dict" where
  "batch_one e output_dir backend files pcap =
     (case extract_path e pcap (label_path e pcap) backend of
        Inl _ \<Rightarrow> files
      | Inr rows \<Rightarrow> save_rows e (out_file output_dir pcap) rows files)"

definition batch_extract :: "extract_env \<Rightarrow> path list \<Rightarrow> path \<Rightarrow> string \<Rightarrow> (path, csv_file) dict \<Rightarrow> (path, csv_file) dict" where
  "batch_extract e pcaps output_dir backend files =
     (if pcaps = [] then files else foldl (batch_one e output_dir backend) files (sort pcaps))"

text \<open>The arguments: a single capture with optional labels and output, or a directory.\<close>

datatype extract_args = Single path "path option" "path option" | InputDir "path list" path

definition extract_main :: "extract_env \<Rightarrow> extract_args \<Rightarrow> string \<Rightarrow> (path, csv_file) dict \<Rightarrow> (path, csv_file) dict result" where
  "extract_main e a backend files =
     (case a of
        Single pcap labels output \<Rightarrow>
          (let out = (case output of Some out \<Rightarrow> out | None \<Rightarrow> butlast pcap @ [path_stem pcap @ ''_features.csv''])
           in bind_result (extract_path e pcap labels backend) (\<lambda>rows. Inr (save_rows e out rows files)))
      | InputDir pcaps output_dir \<Rightarrow> Inr (batch_extract e pcaps output_dir backend files))"

section \<open>The last capture of a directory wins\<close>

text \<open>The table a capture gives, if its extraction succeeds and finds a flow.\<close>

definition table_of :: "extract_env \<Rightarrow> string \<Rightarrow> path \<Rightarrow> csv_file option" where
  "table_of e backend pcap =
     (case extract_path e pcap (label_path e pcap) backend of Inl _ \<Rightarrow> None | Inr rows \<Rightarrow> write_csv (xe_fields e) rows)"

lemma batch_one_table:
  "batch_one e d backend files pcap = (case table_of e backend pcap of None \<Rightarrow> files | Some t \<Rightarrow> dict_set (out_file d pcap) t files)"
  by (simp add: batch_one_def table_of_def save_rows_def split: sum.split)

lemma batch_fold:
  "map_of (foldl (batch_one e d backend) files ps) f =
     (let ws = filter (\<lambda>p. out_file d p = f \<and> table_of e backend p \<noteq> None) ps
      in if ws = [] then map_of files f else table_of e backend (last ws))"
proof (induction ps rule: rev_induct)
  case (snoc p ps)
  show ?case
  proof (cases "table_of e backend p")
    case None
    with snoc show ?thesis by (simp add: batch_one_table Let_def)
  next
    case (Some t)
    with snoc show ?thesis by (auto simp: batch_one_table Let_def map_of_dict_set)
  qed
qed simp

text \<open>
  What a batch leaves in each file: the table of the last capture, in path order, that is filed
  under this name, extracts without error and has a flow; without such a capture the file is
  left as it was. Errors of single captures are passed over. Two captures of one directory are
  filed under one name, so the earlier one's table is lost.
\<close>

theorem batch_keeps_last_table:
  "map_of (batch_extract e pcaps d backend files) f =
     (let ws = filter (\<lambda>p. out_file d p = f \<and> table_of e backend p \<noteq> None) (sort pcaps)
      in if ws = [] then map_of files f else table_of e backend (last ws))
   \<and> out_file d (dir @ [a]) = out_file d (dir @ [b])"
  by (simp add: batch_extract_def batch_fold out_file_def)

end
