(* ===== verification/Spec2Isabelle.thy ===== *)
theory Spec2Isabelle
  imports FlowTables Worker Splits Simulated TrafficOut CaptureRuns Supervisor Training BatchExtract
begin

text \<open>
  \<^bold>\<open>Sentrix network threat detector: verification development.\<close>

  \<^bold>\<open>The program.\<close> Packets come in over a one-way link. The ingest stage reads them from a capture
  file, from Zeek logs or from UDP exports into a bounded queue; the parsers turn each into a
  metadata dictionary; the scheduler feeds seven feature extractors and emits a feature vector
  whenever one of its tumbling windows has elapsed; a detector per threat scores the vector
  with fixed rules and, for what these leave open, a trained model. Detections are normalized
  into alerts, correlated with recent ones, stored in SQLite or ClickHouse and, when confident,
  sent to a webhook. A Kafka worker does the same from pre-computed features with ONNX models.
  A dashboard server shows the alerts, streams new ones and controls replays of simulated or
  recorded traffic. Around this core stand offline programs: generators of labelled attack
  captures, the training table and the scripts that train, calibrate and export the models,
  benchmarks that run the whole pipeline over captures, and the launcher, which prepares what
  is missing and supervises the server process.

  \<^bold>\<open>The theories\<close>, each with the files under \<^verbatim>\<open>src/\<close> it models:

  \<^item> \<open>Prelude\<close>: Python dictionaries as insertion-ordered association lists, exceptions as values
    (\<open>result\<close>), number formatting, shared lemmas. \<open>PyText\<close>: text and JSON values as the code
    converts them. \<open>Json\<close>: \<^verbatim>\<open>json.dumps\<close>/\<^verbatim>\<open>loads\<close> of string lists, with their round trip.
  \<^item> \<open>Ingest\<close>: \<^verbatim>\<open>ingest/pcap_reader.py\<close> (producer, consumer and stop as a step relation),
    \<^verbatim>\<open>ingest/zeek_reader.py\<close>, \<^verbatim>\<open>ingest/flow_export_listener.py\<close>.
  \<^item> \<open>Parsers\<close>: \<^verbatim>\<open>parsers/ip_tcp_udp.py\<close>, \<^verbatim>\<open>dns_parser.py\<close>, \<^verbatim>\<open>tls_quic_handshake.py\<close>.
  \<^item> \<open>FlowTables\<close>: \<^verbatim>\<open>assembler/flow_session_tables.py\<close> (\<open>BoundedTable\<close>, \<open>FlowAssembler\<close>).
  \<^item> \<open>OnlineStats\<close>: \<^verbatim>\<open>features/online_stats.py\<close> (Welford, Count-Min sketch, EWMA). \<open>Features\<close>: the
    seven \<^verbatim>\<open>features/*_features.py\<close>. \<open>Scheduler\<close>: \<^verbatim>\<open>features/scheduler.py\<close>.
  \<^item> \<open>Detectors\<close>: \<^verbatim>\<open>models/base_detector.py\<close> and the seven detectors.
  \<^item> \<open>Alerts\<close>: \<^verbatim>\<open>alerting/schema.py\<close>, \<^verbatim>\<open>normalizer.py\<close>, \<^verbatim>\<open>webhook.py\<close>. \<open>Correlator\<close>:
    \<^verbatim>\<open>alerting/correlator.py\<close>. \<open>AlertStore\<close>: \<^verbatim>\<open>alerting/store.py\<close>. \<open>ClickHouse\<close>:
    \<^verbatim>\<open>alerting/clickhouse_store.py\<close>.
  \<^item> \<open>Onnx\<close>: \<^verbatim>\<open>inference/onnx_engine.py\<close>. \<open>Worker\<close>: \<^verbatim>\<open>inference/worker.py\<close>, on top of the correlator
    and the ClickHouse store.
  \<^item> \<open>Replay\<close>: \<^verbatim>\<open>datasource/base.py\<close> and \<^verbatim>\<open>dataset_replay.py\<close>. \<open>Simulated\<close>: \<^verbatim>\<open>datasource/simulated.py\<close>.
    \<open>FlowExport\<close>: \<^verbatim>\<open>datasource/feature_extractor.py\<close>. \<open>Splits\<close>: \<^verbatim>\<open>data/splits/generate_splits.py\<close>.
    \<open>BatchExtract\<close>: \<^verbatim>\<open>scripts/extract_features.py\<close>.
  \<^item> \<open>Dashboard\<close>: \<^verbatim>\<open>dashboard/api/server.py\<close>, on top of both stores and the dataset replay.
  \<^item> \<open>Pipeline\<close>: the packet loops of \<^verbatim>\<open>benchmarks/\<close>, the composition of parsers, scheduler,
    detectors, normalizer and correlator over raw packets, and the replay harness.
  \<^item> \<open>Rng\<close>: Python's \<^verbatim>\<open>random\<close> in the state monad. \<open>TrafficGen\<close>, \<open>TrafficOut\<close>:
    \<^verbatim>\<open>scripts/generate_traffic.py\<close> and what its files hold. \<open>CaptureGen\<close>, \<open>CaptureRuns\<close>:
    \<^verbatim>\<open>tools/traffic_gen/*.py\<close> and what the pipeline makes of the captures.
  \<^item> \<open>TrainData\<close>: \<^verbatim>\<open>models/train/dataset_generator.py\<close> and \<^verbatim>\<open>alerting/calibration.py\<close>. \<open>Training\<close>: the
    scripts \<^verbatim>\<open>models/train/*_train.py\<close> and \<^verbatim>\<open>inference/export_onnx.py\<close>.
  \<^item> \<open>Supervisor\<close>: \<^verbatim>\<open>start_all.py\<close>, on top of the capture generators.
  \<^item> \<open>Spec2Isabelle\<close> (this theory): what holds from the packets to the detectors' verdicts.

  \<^bold>\<open>How the model corresponds to the code.\<close> A class is a \<open>record\<close> of its fields, a method a
  function from the state to the new state (and its result), composed as the code composes
  them; the definitions keep the code's names, with a prefix where several classes share one.
  An exception is \<open>Inl\<close> of the error, a swallowed one the branch the handler takes. An
  operation that never returns (the store's lock taken twice, a loop that does not end) is
  \<open>None\<close>. Shared mutable records of the dataset replay live in an explicit heap. Threads that
  race (pcap reader, replay requests) are steps of a relation, one per critical section.

  \<^bold>\<open>Interfaces\<close> are locales, interpreted on the model's own definitions: \<open>stream_summary\<close> (an
  online statistic describes the stream so far; Welford, the sketch, the EWMA and the
  inter-arrival statistic), \<open>bounded_cache\<close> (the LRU table), \<open>stale_sweep\<close> (the two sweeps),
  \<open>tumbling_window\<close> (the three windows), \<open>detector\<close> (the seven detectors), \<open>alert_sink\<close> (both
  stores), \<open>data_source\<close> (both sources).

  \<^bold>\<open>What is shown.\<close>

  \<^item> Statistics: Welford equals the batch mean and variance; the sketch never under-counts and
    its entropy is a lower bound; both entropy routines agree.
  \<^item> Parsers: the result of every branch; the TLS result is independent of payload.
  \<^item> Tables: the bounded table is an LRU cache; flow counters are those of the flow's packets.
  \<^item> Scheduler: exactly which vectors a packet fires, at most one per window length, the DDoS
    ratios count exactly their window, and the sweeps bound the kept state.
  \<^item> Detectors: scores lie in the unit interval and explanations mark exactly the detections;
    the batched DDoS prediction equals the loop. End to end: a SYN flood within a window and
    a periodic beacon are always reported.
  \<^item> Alerts: confidence and severity are bounded and monotone; the correlator's index refines a
    scan over all past alerts; a store returns exactly what was appended, field by field; pages
    and summaries add up; what reaches ClickHouse.
  \<^item> Worker and engine: batching is transparent; a loaded session never changes.
  \<^item> Data: resampling to a scenario terminates with the right shares; what a read returns after
    a lap of the replay; flow rows are the grouping of packets; splits partition in time order.
  \<^item> Dashboard: the stream delivers every alert exactly once; the summary is never older than
    its time to live; start-up; one replay process at a time when requests do not overlap, and
    the race when they do.
  \<^item> Pipeline: it raises nothing on captures of known transports and its alerts are well-formed; a
    SYN flood raises an alert end to end, also the one the repository generates; one packet of
    another transport ends the run.
  \<^item> Generated data: capture files read back to the packets; labels load as records; what a failed
    attack tool does to the ground truth; the generated DNS tunnel stays unseen.
  \<^item> Training: five models are asked when serving exactly at the row their script trains on for the
    packet; four detectors are calibrated on the scores they serve; the division by position
    leaves one class on one side; calibration silences two detectors; models are exported
    independently of each other, under the names the engine looks for.
  \<^item> Launcher: it runs exactly the scripts of missing assets and starts one server; a stop signal
    tears the process tree down once.
  \<^item> Defects the modelling showed are theorems or lemmas of the component they are in.

  \<^bold>\<open>Bounds and fuel.\<close> No operation needs fuel: loops are structural recursions over their input,
  and the one loop that could run for ever (\<open>fill_pool\<close>, resampling from a pool) is a
  \<open>partial_function\<close> that \<open>scenario_mix_terminates\<close> shows to return. Endless service loops (the
  writer thread, the Kafka poll, the event stream, the replay laps) are their loop body,
  iterated over an arbitrary finite list of rounds. Floats are reals, so rounding, infinities
  and NaN are outside the model; Python's integers are unbounded and so are the model's.

  \<^bold>\<open>Parameters.\<close> Code that is not in the repository is an argument of the definitions that use
  it: the dpkt, scapy and nfstream decoders, trained models and calibrators, numpy reductions,
  ONNX sessions, MD5, pydantic's serialisation, SQL's choice among ties, the ClickHouse driver,
  Kafka, set iteration order, random numbers, fresh ids, the clock, attack tools, learners and
  model converters, and the process table as psutil shows it. Where a theorem relies on them
  the assumption is named (\<open>codec_ok\<close>, \<open>sql_ok\<close>, \<open>model_ok\<close>, \<open>row_wise\<close>, \<open>undisturbed\<close>,
  \<open>decoders_ok\<close>, \<open>rng_ok\<close>, \<open>reads_as\<close>, \<open>iso_ok\<close>, \<open>never_denied\<close>) and its witness
  instantiates it.

  \<^bold>\<open>Not modelled.\<close> The measurements of the benchmarks (clock, CPU, memory) and the reliability
  diagrams of the calibration; dataset fetching (prints instructions) and sockets (I/O only);
  the browser front end and the Rust ingestor (other languages); the end-to-end simulation
  script under \<^verbatim>\<open>tests/\<close>, which drives the modelled components.
\<close>

section \<open>From packets to verdicts\<close>

text \<open>
  C8. A perfectly periodic beacon is always reported: when all positive inter-arrival times of
  a pair are equal and there are at least two of them, the beaconing detector scores the
  pair's features 0.90 with a non-empty explanation, whatever other traffic was interleaved
  and whatever model is loaded, since the rule is tried before the model.
\<close>

theorem periodic_beacon_detected:
  fixes digest :: "string \<Rightarrow> nat"
  assumes "2 \<le> length (pos_gaps (pair_times src dst ops))"
    and "\<forall>d\<in>set (pos_gaps (pair_times src dst ops)). d = T"
  shows "\<exists>u e. beaconing_predict md (beaconing_extract digest (beaconing_run digest ops) src dst)
      = Inr (90 / 100, u, e) \<and> e \<noteq> []"
proof -
  obtain w :: welford and c where w: "welford_describes w (pos_gaps (pair_times src dst ops))"
    and pos: "0 < mean_of (pos_gaps (pair_times src dst ops))"
    and v: "beaconing_extract digest (beaconing_run digest ops) src dst
      = [(''mean_iat'', mean_of (pos_gaps (pair_times src dst ops))),
         (''iat_cv'', get_stddev w / mean_of (pos_gaps (pair_times src dst ops))),
         (''dst_fan_in'', real_of_int c)]"
    by (rule beaconing_pair_vector [OF assms(1), of digest])
  have "get_stddev w = 0" using constant_gaps_iff(1) [OF w assms(1)] assms(2) by blast
  with pos show ?thesis by (simp add: v beaconing_predict_def dict_get_def Let_def)
qed

theorem periodic_beacon_detected_witness:
  "\<exists>u e. beaconing_predict None (beaconing_extract length
      (beaconing_run length (map (\<lambda>t. (sample_meta, t)) [0, 30, 60, 90])) ''10.0.0.1'' ''8.8.8.8'')
      = Inr (90 / 100, u, e) \<and> e \<noteq> []"
proof -
  have "pos_gaps (pair_times ''10.0.0.1'' ''8.8.8.8'' (map (\<lambda>t. (sample_meta, t)) [0, 30, 60, 90]))
      = [30, 30, 30]"
    by (simp add: pair_times_def sample_meta_def pos_gaps_def gaps_def upt_rec)
  then show ?thesis
    using periodic_beacon_detected [of "''10.0.0.1''" "''8.8.8.8''"
        "map (\<lambda>t. (sample_meta, t)) [0, 30, 60, 90]" 30 None length] by simp
qed

text \<open>
  C1. A SYN flood inside one window is always reported: when the packets of a 1-second window
  hold more than ten bare SYNs per SYN-ACK (and more than ten in all), the rollup the
  scheduler emits for that window makes the DDoS detector score 0.95 with an explanation,
  whatever model is loaded.
\<close>

theorem syn_flood_window_detected:
  fixes digest :: "string \<Rightarrow> nat"
  assumes "windows_ok s" and "counters (sc_ddos s) = (0, 0, 0, 0)"
    and "scheduler_run digest s ps = (fs, s')" and "fired_count ''ddos'' fs = 0"
    and "process_packet digest s' m t dns tls = (f, s'')" and "map_of f ''ddos'' = Some (RVec v)"
    and "10 * max 1 (count_of (is_tcp_flag 18) (metas ps @ [m])) < count_of (is_tcp_flag 2) (metas ps @ [m])"
  shows "\<exists>u e. ddos_predict md v = Inr (95 / 100, u, e) \<and> e \<noteq> []"
proof -
  let ?ms = "metas ps @ [m]"
  obtain d where v: "v = ddos_extract d (dst_ip m)" and d: "counters d = window_counts ?ms"
    by (rule rollup_vector [OF assms(1-6)])
  obtain u e where "ddos_predict md (ddos_extract d (dst_ip m)) = Inr (95 / 100, u, e)" "e \<noteq> []"
    by (rule flood_verdict [OF d assms(7)])
  then show ?thesis unfolding v by blast
qed

theorem syn_flood_window_detected_witness:
  "\<exists>f s'' v u e. process_packet length
      (snd (scheduler_run length ((scheduler_init 1 5 60)\<lparr>last_1s := 10, last_5s := 10, last_60s := 10\<rparr>)
        (replicate 11 (sample_meta, 10, None, None)))) sample_meta 11 None None = (f, s'')
    \<and> map_of f ''ddos'' = Some (RVec v) \<and> ddos_predict None v = Inr (95 / 100, u, e) \<and> e \<noteq> []"
proof -
  let ?s = "(scheduler_init 1 5 60)\<lparr>last_1s := 10, last_5s := 10, last_60s := 10\<rparr>"
  let ?ps = "replicate 11 (sample_meta, 10, None, None) :: parsed_packet list"
  obtain fs s' where run: "scheduler_run length ?s ?ps = (fs, s')" by fastforce
  obtain f s'' where step: "process_packet length s' sample_meta 11 None None = (f, s'')" by fastforce
  have ok: "windows_ok ?s" and c: "counters (sc_ddos ?s) = (0, 0, 0, 0)"
    by (simp_all add: windows_ok_def scheduler_init_def counters_def ddos_init_def)
  have r: "ready ?s 10" and o1: "10 - last_1s ?s < window_1s ?s"
    using ok by (simp_all add: ready_def scheduler_init_def)
  have srt: "sorted (10 # packet_times ?ps)" by (simp add: packet_times_def)
  have "last (10 # packet_times ?ps) = 10" by (simp add: packet_times_def)
  note rate = win_1s.rate [OF r srt o1, of length, unfolded this run fst_conv snd_conv]
  have quiet: "fired_count ''ddos'' fs = 0" and "last_1s s' = 10"
    using rate by (simp_all add: scheduler_init_def)
  have ok': "windows_ok s'" and w: "window_1s s' = 1"
    using scheduler_run_windows [OF ok, of length ?ps, unfolded run snd_conv]
    by (simp_all add: scheduler_init_def)
  have "due window_1s last_1s s' 11" using \<open>last_1s s' = 10\<close> w by (simp add: due_def live_def)
  then have "\<exists>v. map_of f ''ddos'' = Some (RVec v)"
    using step check_windows_fired [of "feed_extractors length s' sample_meta 11 None None" length sample_meta 11] ok'
    by (auto simp: process_packet_def)
  then obtain v where v: "map_of f ''ddos'' = Some (RVec v)" by blast
  have "10 * max 1 (count_of (is_tcp_flag 18) (metas ?ps @ [sample_meta]))
      < count_of (is_tcp_flag 2) (metas ?ps @ [sample_meta])"
    by (simp add: metas_def is_tcp_flag_def sample_meta_def numeral_eq_Suc)
  from syn_flood_window_detected [OF ok c run quiet step v this, of None] run step v
  show ?thesis by auto
qed

end
